(* ===== verification/Platypus_Prelude.thy ===== *)
theory Platypus_Prelude
  imports "HOL-Library.Word" "HOL-Library.Monad_Syntax" "HOL-Library.Sublist"
begin

text \<open>
  Shared vocabulary of the development: the machine integer types of the C and C++ sources,
  the C shift that is undefined from the width on, and the generic facts on words that the
  component theories use.  Everything that turns a bitwise expression into arithmetic on
  natural numbers is collected in \<open>word_nat\<close>.
\<close>

unbundle bit_operations_syntax

named_theorems word_nat \<open>bitwise word expressions as natural number arithmetic\<close>

type_synonym u8 = "8 word"
type_synonym u16 = "16 word"
type_synonym u32 = "32 word"
type_synonym u64 = "64 word"

section \<open>C operations\<close>

text \<open>
  A shift of a 64-bit value by a negative amount or by 64 or more is undefined behaviour in
  C; the model makes that the value \<open>None\<close>.
\<close>

definition c_shl64 :: "u64 \<Rightarrow> int \<Rightarrow> u64 option" where
  "c_shl64 w n = (if 0 \<le> n \<and> n < 64 then Some (push_bit (nat n) w) else None)"

lemma c_shl64_Some [simp]: "n < 64 \<Longrightarrow> c_shl64 w (int n) = Some (push_bit n w)"
  by (simp add: c_shl64_def)

section \<open>Bit lengths\<close>

fun bit_length :: "nat \<Rightarrow> nat" where
  "bit_length n = (if n = 0 then 0 else Suc (bit_length (n div 2)))"

declare bit_length.simps [simp del]

lemma bit_length_0 [simp]: "bit_length 0 = 0"
  by (simp add: bit_length.simps)

lemma bit_length_Suc: "0 < n \<Longrightarrow> bit_length n = Suc (bit_length (n div 2))"
  by (simp add: bit_length.simps)

lemma bit_length_le_iff: "bit_length n \<le> k \<longleftrightarrow> n < 2 ^ k"
proof (induction k arbitrary: n)
  case 0
  show ?case by (cases "n = 0") (simp_all add: bit_length_Suc [of n])
next
  case (Suc k)
  show ?case
  proof (cases "n = 0")
    case False
    have "n div 2 < 2 ^ k \<longleftrightarrow> n < 2 ^ Suc k" by auto
    then show ?thesis using False Suc [of "n div 2"] by (simp add: bit_length_Suc [of n])
  qed simp
qed

lemma bit_length_upper: "n < 2 ^ bit_length n"
  using bit_length_le_iff by blast

lemma bit_length_pos: "0 < n \<Longrightarrow> 0 < bit_length n"
  by (subst bit_length_Suc) auto

lemma bit_length_lower:
  assumes "0 < n"
  shows "2 ^ (bit_length n - 1) \<le> n"
  using bit_length_pos [OF assms] bit_length_le_iff [of n "bit_length n - 1"] by linarith

lemma unat_drop_1: "unat (drop_bit 1 (w::'a::len word)) = unat w div 2"
  using unat_drop_bit_eq [of 1 w] drop_bit_eq_div [of 1 "unat w"] by (metis power_one_right)

lemma unat_drop_1_less: "w \<noteq> 0 \<Longrightarrow> unat (drop_bit 1 (w::'a::len word)) < unat w"
  unfolding unat_drop_1 by (simp add: unat_gt_0)

lemma pred_multiple_div:
  fixes c n :: nat
  assumes "0 < c"
  shows "(c * Suc n - 1) div c = n"
proof -
  have "c * Suc n - 1 = (c - 1) + n * c" using assms by (simp add: algebra_simps)
  then show ?thesis using assms by (simp only: div_mult_self1) simp
qed

section \<open>Masks as arithmetic\<close>

lemma nat_or_mask: "(n::nat) OR mask k = n div 2 ^ k * 2 ^ k + (2 ^ k - 1)"
proof -
  have "push_bit k (drop_bit k n) AND mask k = 0"
    by (rule bit_eqI) (auto simp: bit_simps)
  then have "push_bit k (drop_bit k n) + mask k = push_bit k (drop_bit k n) OR mask k"
    by (rule disjunctive_add_eq_or)
  also have "\<dots> = n OR mask k"
    by (rule bit_eqI) (auto simp: bit_simps)
  finally show ?thesis
    by (simp add: push_bit_eq_mult drop_bit_eq_div mask_eq_exp_minus_1)
qed

lemma unat_mask_le [word_nat]:
  assumes "k \<le> LENGTH('a)"
  shows "unat (mask k :: 'a::len word) = 2 ^ k - 1"
proof -
  have "unat (mask k :: 'a::len word) = mask k"
    by (rule bit_eqI) (use assms in \<open>auto simp: bit_simps\<close>)
  then show ?thesis by (simp add: mask_eq_exp_minus_1)
qed

lemma unat_or_mask [word_nat]:
  fixes w :: "'a::len word"
  assumes "k \<le> LENGTH('a)"
  shows "unat (w OR mask k) = unat w div 2 ^ k * 2 ^ k + (2 ^ k - 1)"
proof -
  have "unat (mask k :: 'a word) = mask k"
    by (rule bit_eqI) (use assms in \<open>auto simp: bit_simps\<close>)
  then show ?thesis by (simp add: unsigned_or_eq nat_or_mask)
qed

lemma unat_and_not_mask [word_nat]:
  fixes w :: "'a::len word"
  shows "unat (w AND NOT (mask k)) = unat w div 2 ^ k * 2 ^ k"
proof -
  have "unat (w AND NOT (mask k)) = push_bit k (drop_bit k (unat w))"
    by (rule bit_eqI) (auto simp: bit_simps dest: bit_imp_le_length)
  then show ?thesis by (simp add: push_bit_eq_mult drop_bit_eq_div)
qed

lemma drop_bit_eq_iff_div:
  fixes a b :: "'a::len word"
  shows "drop_bit k a = drop_bit k b \<longleftrightarrow> unat a div 2 ^ k = unat b div 2 ^ k"
  by (metis drop_bit_eq_div unat_drop_bit_eq word_unat_eq_iff)

lemma xor_less_exp_iff:
  fixes a b :: "'a::len word"
  shows "unat (a XOR b) < 2 ^ k \<longleftrightarrow> unat a div 2 ^ k = unat b div 2 ^ k"
proof -
  have "unat (a XOR b) < 2 ^ k \<longleftrightarrow> drop_bit k (unat (a XOR b)) = 0"
    by (simp add: drop_bit_eq_div div_eq_0_iff)
  also have "\<dots> \<longleftrightarrow> drop_bit k (unat a) XOR drop_bit k (unat b) = 0"
    by (simp add: unsigned_xor_eq)
  also have "\<dots> \<longleftrightarrow> drop_bit k (unat a) = drop_bit k (unat b)"
    by (simp add: bit_eq_iff bit_simps)
  finally show ?thesis by (simp add: drop_bit_eq_div)
qed

lemma unat_minus_le [word_nat]:
  fixes a b :: "'a::len word"
  shows "b \<le> a \<Longrightarrow> unat (a - b) = unat a - unat b"
  by (simp add: unat_sub)

lemma unat_exp_less [word_nat]:
  "k < LENGTH('a) \<Longrightarrow> unat (2 ^ k :: 'a::len word) = 2 ^ k"
  by transfer simp

lemma unat_ucast_up [word_nat]: "unat (ucast (w::u32) :: u64) = unat w"
proof -
  have "unat w < 2 ^ LENGTH(32)" by (rule unsigned_less)
  then have "unat w < 2 ^ 64" by simp
  then show ?thesis by (simp add: unsigned_ucast_eq take_bit_nat_eq_self)
qed

lemma unat_u64_less: "unat (w::u64) < 2 ^ 64"
  using unsigned_less [of w] by simp

lemma unat_or_take_bit [word_nat]:
  fixes a t :: "'a::len word"
  assumes "take_bit k a = 0"
  shows "unat (a OR take_bit k t) = unat a + unat t mod 2 ^ k"
proof -
  have "bit a n \<Longrightarrow> \<not> n < k" for n
    using assms by (metis bit_take_bit_iff bit_0_eq bot_apply bot_bool_def)
  then have "a AND take_bit k t = 0" by (auto simp: bit_eq_iff bit_simps)
  then have "unat a AND unat (take_bit k t) = 0" by (metis unsigned_and_eq unsigned_0)
  then have "unat (a OR take_bit k t) = unat a + take_bit k (unat t)"
    by (simp only: unsigned_or_eq disjunctive_add_eq_or [symmetric] unsigned_take_bit_eq)
  then show ?thesis by (simp only: take_bit_eq_mod)
qed

lemma unat_take_bit_mod [word_nat]: "unat (take_bit k (t::'a::len word)) = unat t mod 2 ^ k"
  by (simp only: unsigned_take_bit_eq) (simp only: take_bit_eq_mod)

lemma bits_subset_le:
  fixes a b :: "'a::len word"
  assumes "\<And>n. bit a n \<Longrightarrow> bit b n"
  shows "a \<le> b"
proof -
  have "a AND b = a" by (rule bit_word_eqI) (use assms in \<open>auto simp: bit_simps\<close>)
  then show ?thesis by (metis word_and_le1)
qed

section \<open>Little-endian encoding\<close>

text \<open>The bytes that \<open>write32le\<close> and \<open>write64le\<close> store, least significant first.\<close>

definition le32 :: "u32 \<Rightarrow> u8 list" where
  "le32 w = [ucast w, ucast (drop_bit 8 w), ucast (drop_bit 16 w), ucast (drop_bit 24 w)]"

definition le64 :: "u64 \<Rightarrow> u8 list" where
  "le64 w = map (\<lambda>i. ucast (drop_bit (8 * i) w)) [0..<8]"

definition of_le32 :: "u8 list \<Rightarrow> u32" where
  "of_le32 bs = ucast (bs ! 0) OR push_bit 8 (ucast (bs ! 1))
     OR push_bit 16 (ucast (bs ! 2)) OR push_bit 24 (ucast (bs ! 3))"

lemma length_le32 [simp]: "length (le32 w) = 4"
  by (simp add: le32_def)

lemma length_le64 [simp]: "length (le64 w) = 8"
  by (simp add: le64_def)

lemma of_le32_le32 [simp]: "of_le32 (le32 w) = w"
proof (rule bit_word_eqI)
  fix n :: nat
  assume "n < LENGTH(32)"
  then show "bit (of_le32 (le32 w)) n = bit w n"
    by (cases "24 \<le> n"; cases "16 \<le> n"; cases "8 \<le> n")
      (auto simp: of_le32_def le32_def bit_simps)
qed

definition of_le64 :: "u8 list \<Rightarrow> u64" where
  "of_le64 bs = ucast (of_le32 (take 4 bs)) OR push_bit 32 (ucast (of_le32 (drop 4 bs)))"

lemma le64_split: "le64 w = le32 (ucast w) @ le32 (ucast (drop_bit 32 w))"
proof -
  have u: "[0..<8::nat] = [0, 1, 2, 3, 4, 5, 6, 7]" by (simp add: upt_rec)
  show ?thesis
    unfolding le64_def le32_def u by (auto intro!: bit_word_eqI simp: bit_simps)
qed

lemma of_le64_le64 [simp]: "of_le64 (le64 w) = w"
proof (rule bit_word_eqI)
  fix n :: nat
  assume "n < LENGTH(64)"
  then show "bit (of_le64 (le64 w)) n = bit w n"
    by (cases "32 \<le> n") (auto simp: of_le64_def le64_split bit_simps)
qed

section \<open>Byte memory\<close>

type_synonym mem = "u64 \<Rightarrow> u8"

fun store_bytes :: "u64 \<Rightarrow> u8 list \<Rightarrow> mem \<Rightarrow> mem" where
  "store_bytes a [] m = m"
| "store_bytes a (b # bs) m = (store_bytes (a + 1) bs m)(a := b)"

fun load_bytes :: "u64 \<Rightarrow> nat \<Rightarrow> mem \<Rightarrow> u8 list" where
  "load_bytes a 0 m = []"
| "load_bytes a (Suc n) m = m a # load_bytes (a + 1) n m"

abbreviation store64 :: "u64 \<Rightarrow> u64 \<Rightarrow> mem \<Rightarrow> mem" where
  "store64 a v m \<equiv> store_bytes a (le64 v) m"

abbreviation store32 :: "u64 \<Rightarrow> u32 \<Rightarrow> mem \<Rightarrow> mem" where
  "store32 a v m \<equiv> store_bytes a (le32 v) m"

abbreviation load64 :: "u64 \<Rightarrow> mem \<Rightarrow> u64" where
  "load64 a m \<equiv> of_le64 (load_bytes a 8 m)"

lemma length_load_bytes [simp]: "length (load_bytes a n m) = n"
  by (induction n arbitrary: a) simp_all

lemma store_bytes_out: "unat (x - a) \<ge> length bs \<Longrightarrow> length bs < 2 ^ 64 \<Longrightarrow> store_bytes a bs m x = m x"
proof (induction bs arbitrary: a)
  case (Cons b bs)
  then have "x - a \<noteq> 0" by auto
  then have "unat (x - (a + 1)) = unat (x - a) - 1"
    by (metis diff_diff_add unat_minus_one)
  then show ?case using Cons \<open>x - a \<noteq> 0\<close> by auto
qed simp

lemma load_bytes_cong: "(\<And>i. i < n \<Longrightarrow> m (a + of_nat i) = m' (a + of_nat i)) \<Longrightarrow> load_bytes a n m = load_bytes a n m'"
proof (induction n arbitrary: a)
  case (Suc n)
  have "m a = m' a" using Suc.prems [of 0] by simp
  moreover have "load_bytes (a + 1) n m = load_bytes (a + 1) n m'"
    using Suc.prems [of "Suc _"] by (intro Suc.IH) (simp add: algebra_simps)
  ultimately show ?case by simp
qed simp

lemma unat_of_nat_u64 [simp]: "n < 2 ^ 64 \<Longrightarrow> unat (of_nat n :: u64) = n"
  by (simp add: unat_of_nat)

lemma load_bytes_add: "load_bytes a (n + k) m = load_bytes a n m @ load_bytes (a + of_nat n) k m"
  by (induction n arbitrary: a) (simp_all add: algebra_simps)

lemma load_bytes_middle:
  assumes "load_bytes a (length (p @ w @ q)) m = p @ w @ q"
  shows "load_bytes (a + of_nat (length p)) (length w) m = w"
proof -
  have "load_bytes a (length p) m @ load_bytes (a + of_nat (length p)) (length w) m @
      load_bytes (a + of_nat (length p) + of_nat (length w)) (length q) m = p @ w @ q"
    using assms by (simp only: length_append load_bytes_add)
  then show ?thesis by (simp add: append_eq_append_conv)
qed

lemma load_store_bytes: "length bs < 2 ^ 64 \<Longrightarrow> load_bytes a (length bs) (store_bytes a bs m) = bs"
proof (induction bs arbitrary: a)
  case (Cons b bs)
  have "load_bytes (a + 1) (length bs) ((store_bytes (a + 1) bs m)(a := b)) =
      load_bytes (a + 1) (length bs) (store_bytes (a + 1) bs m)"
  proof (rule load_bytes_cong)
    fix i
    assume "i < length bs"
    then have "unat (of_nat (Suc i) :: u64) \<noteq> 0" using Cons.prems by (subst unat_of_nat_u64) auto
    then have "(of_nat (Suc i) :: u64) \<noteq> 0" by (metis unsigned_0)
    then have "a + 1 + of_nat i \<noteq> a" by (simp add: algebra_simps)
    then show "((store_bytes (a + 1) bs m)(a := b)) (a + 1 + of_nat i) = store_bytes (a + 1) bs m (a + 1 + of_nat i)"
      by simp
  qed
  moreover have "load_bytes (a + 1) (length bs) (store_bytes (a + 1) bs m) = bs"
    using Cons by simp
  ultimately show ?case
    by (simp only: store_bytes.simps list.size load_bytes.simps fun_upd_same)
      (simp only: add_0_right add_Suc_right load_bytes.simps fun_upd_same)
qed simp

lemma load64_store64 [simp]: "load64 a (store64 a v m) = v"
  using load_store_bytes [of "le64 v" a m] by simp

lemma unat_offset_apart:
  fixes a b :: u64
  assumes "8 \<le> unat (b - a)" "8 \<le> unat (a - b)" "i < 8"
  shows "8 \<le> unat (b + of_nat i - a)"
proof -
  have "unat (a - b) + unat (b - a) = 2 ^ 64"
    using unat_sub_if_size [of a b] unat_sub_if_size [of b a] assms(1,2) unat_u64_less [of a] unat_u64_less [of b]
    by (cases "unat a \<le> unat b"; cases "unat b \<le> unat a") (auto simp: word_size)
  then have "unat ((b - a) + of_nat i) = unat (b - a) + i" using assms by (subst unat_word_ariths(1)) simp
  then show ?thesis using assms(1) by (simp add: algebra_simps)
qed

lemma load64_same_bytes:
  assumes "\<And>x. 8 \<le> unat (x - b) \<Longrightarrow> m' x = m x" "8 \<le> unat (a - b)" "8 \<le> unat (b - a)"
  shows "load64 a m' = load64 a m"
proof -
  have "load_bytes a 8 m' = load_bytes a 8 m" by (rule load_bytes_cong) (use assms unat_offset_apart in blast)
  then show ?thesis by simp
qed

lemma load64_store64_other:
  assumes "8 \<le> unat (b - a)" "8 \<le> unat (a - b)"
  shows "load64 b (store64 a v m) = load64 b m"
  by (rule load64_same_bytes [of a]) (use assms in \<open>simp_all add: store_bytes_out\<close>)

end
