(* ===== verification/Loader_Window.thy ===== *)
theory Loader_Window
  imports Platypus_Prelude
begin

text \<open>
  The address computation of the modified loader
  (\<open>src/glibc-platypus/elf/dl-map-segments.h\<close>): where the executable segment of a module is
  placed and which OR/AND masks describe it.  The functions are translated with the C types
  of the source, so the 32-bit \<open>lel\<close> of \<open>find_addr\<close>, the 32-bit size of \<open>mitig_struct\<close> and
  the undefined shifts are visible.  The locale \<open>window_placement\<close> states what a placement
  promises to the instrumented code; both placements of the loader, the one for shared
  objects and the one for the main binary, interpret it.
\<close>

section \<open>Data\<close>

record loadcmd =
  lc_mapstart :: u64
  lc_mapend :: u64
  lc_dataend :: u64
  lc_allocend :: u64
  lc_mapalign :: u64
  lc_mapoff :: u64
  lc_prot :: int

record mitig_struct =
  ms_size :: u32
  ms_mapstart :: u64

section \<open>Helper functions of the mitigation\<close>

function bits_up :: "u64 \<Rightarrow> int \<Rightarrow> int" where
  "bits_up n bits = (if n = 0 then bits else bits_up (drop_bit 1 n) (bits + 1))"
  by pat_completeness auto
termination
  by (relation "measure (unat \<circ> fst)")
    (simp_all only: wf_measure in_measure comp_apply fst_conv unat_drop_1_less not_False_eq_True)

declare bits_up.simps [simp del]

definition num_bits_required :: "u64 \<Rightarrow> int" where
  "num_bits_required n =
     (let bits = bits_up n 0
      in if bits mod 4 = 0 then bits else bits + 4 - bits mod 4)"

definition find_addr :: "u64 \<Rightarrow> u64 \<Rightarrow> u64 option" where
  "find_addr target_addr sz = do {
     let size_bits = num_bits_required sz;
     b \<leftarrow> c_shl64 1 size_bits;
     let tmp_addr = target_addr - b;
     let lel = (ucast (b - 1) :: u32);
     Some (((tmp_addr OR ucast lel) - sz + 0x1000) AND 0xfffffffffffff000)
   }"

function bits_down :: "u64 \<Rightarrow> int \<Rightarrow> int" where
  "bits_down diff bits = (if diff = 0 then bits else bits_down (drop_bit 1 diff) (bits - 1))"
  by pat_completeness auto
termination
  by (relation "measure (unat \<circ> fst)")
    (simp_all only: wf_measure in_measure comp_apply fst_conv unat_drop_1_less not_False_eq_True)

declare bits_down.simps [simp del]

definition common_prefix_len :: "u64 \<Rightarrow> u64 \<Rightarrow> u64 option" where
  "common_prefix_len a b = do {
     let bits = bits_down (a XOR b) 64;
     m \<leftarrow> c_shl64 (NOT 0) (64 - bits);
     Some (a AND m)
   }"

fun find_exec_size :: "loadcmd list \<Rightarrow> mitig_struct" where
  "find_exec_size [] = \<lparr>ms_size = 0, ms_mapstart = 0\<rparr>"
| "find_exec_size (c # cs) =
     (if lc_prot c > 3
      then \<lparr>ms_size = ucast (lc_mapend c - lc_mapstart c), ms_mapstart = lc_mapstart c\<rparr>
      else find_exec_size cs)"

text \<open>
  The three assignments both branches of \<open>_dl_map_segments\<close> make: the start of the executable
  segment \<open>hmm\<close>, the OR mask \<open>l_exec_start\<close> and the AND mask \<open>l_exec_end\<close>.
\<close>

definition dso_window :: "u64 \<Rightarrow> u32 \<Rightarrow> (u64 \<times> u64 \<times> u64) option" where
  "dso_window target sz = do {
     hmm \<leftarrow> find_addr target (ucast sz);
     let exec_end = ucast sz + hmm - 1;
     exec_start \<leftarrow> common_prefix_len hmm exec_end;
     Some (hmm, exec_start, exec_end)
   }"

text \<open>
  The same for the main binary, whose segment size is first rounded to pages in 32-bit
  arithmetic.
\<close>

definition main_exec_size :: "u32 \<Rightarrow> u32" where
  "main_exec_size sz = sz + 0x1000 - sz mod 0x1000"

definition main_window :: "u64 \<Rightarrow> u32 \<Rightarrow> (u64 \<times> u64 \<times> u64) option" where
  "main_window mapstart sz = do {
     hmm \<leftarrow> find_addr (mapstart - 0x10000000) (ucast (main_exec_size sz));
     let exec_end = ucast (main_exec_size sz) + hmm - 1;
     exec_start \<leftarrow> common_prefix_len hmm exec_end;
     Some (hmm, exec_start, exec_end)
   }"

text \<open>
  What the instrumented code computes from a target before it calls or jumps: OR with the
  value of \<open>or_mask\<close>, then AND with the value of \<open>and_mask\<close>.
\<close>

definition mask_target :: "u64 \<Rightarrow> u64 \<Rightarrow> u64 \<Rightarrow> u64" where
  "mask_target om am t = (t OR om) AND am"

section \<open>What the loops compute\<close>

lemma bits_up_eq: "bits_up n b = b + int (bit_length (unat n))"
proof (induction n b rule: bits_up.induct)
  case (1 n b)
  then show ?case
    by (cases "n = 0")
      (simp_all add: bits_up.simps [of n b] bits_up.simps [of 0 b] bit_length_Suc [of "unat n"] unat_gt_0 unat_drop_1 del: One_nat_def)
qed

lemma bits_down_eq: "bits_down n b = b - int (bit_length (unat n))"
proof (induction n b rule: bits_down.induct)
  case (1 n b)
  then show ?case
    by (cases "n = 0")
      (simp_all add: bits_down.simps [of n b] bits_down.simps [of 0 b] bit_length_Suc [of "unat n"] unat_gt_0 unat_drop_1 del: One_nat_def)
qed

definition nibble_up :: "nat \<Rightarrow> nat" where
  "nibble_up b = (if b mod 4 = 0 then b else b + (4 - b mod 4))"

lemma nibble_up_bounds: "b \<le> nibble_up b" "nibble_up b < b + 4"
  using mod_less_divisor [of 4 b] by (simp_all add: nibble_up_def) linarith

lemma nibble_up_le:
  assumes "b \<le> 4 * m"
  shows "nibble_up b \<le> 4 * m"
proof (cases "b mod 4 = 0")
  case False
  have b: "b = 4 * (b div 4) + b mod 4" by simp
  with False assms have "4 * (b div 4) < 4 * m" by linarith
  then have "b div 4 < m" by simp
  with b mod_less_divisor [of 4 b] have "b + (4 - b mod 4) \<le> 4 * m" by linarith
  with False show ?thesis by (simp add: nibble_up_def)
qed (use assms in \<open>simp add: nibble_up_def\<close>)

lemma num_bits_required_eq:
  "num_bits_required n = int (nibble_up (bit_length (unat n)))"
proof -
  have "int b mod 4 = int (b mod 4)" for b by (simp add: zmod_int)
  moreover have "b mod 4 \<le> 4" for b :: nat using mod_less_divisor [of 4 b] by linarith
  ultimately show ?thesis
    unfolding num_bits_required_def bits_up_eq nibble_up_def Let_def by (simp add: of_nat_diff)
qed

lemma push_bit_not_0: "push_bit k (NOT 0 :: 'a::len word) = NOT (mask k)"
  by (rule bit_word_eqI) (auto simp: bit_simps)

lemma common_prefix_len_eq:
  "common_prefix_len a b =
     (let k = bit_length (unat (a XOR b)) in if k < 64 then Some (a AND NOT (mask k)) else None)"
  by (simp add: common_prefix_len_def bits_down_eq c_shl64_def push_bit_not_0 Let_def)

lemma page_mask: "(0xfffffffffffff000 :: u64) = NOT (mask 12)"
  by (simp add: mask_eq_exp_minus_1)

section \<open>Where the segment ends\<close>

text \<open>
  \<open>find_addr\<close> places a page-multiple segment so that its last byte is the last byte below the
  target that has all low bits set.
\<close>

abbreviation window_bits :: "u64 \<Rightarrow> nat" where
  "window_bits sz \<equiv> nibble_up (bit_length (unat sz))"

definition window_ok :: "u64 \<Rightarrow> u64 \<Rightarrow> bool" where
  "window_ok target sz \<longleftrightarrow>
     0 < unat sz \<and> unat sz < 2 ^ 32 \<and> 4096 dvd unat sz \<and> 2 ^ window_bits sz \<le> unat target"

lemma window_bits_bounds:
  assumes "window_ok target sz"
  shows "12 \<le> window_bits sz" "window_bits sz \<le> 32" "unat sz < 2 ^ window_bits sz"
proof -
  have "4096 \<le> unat sz" using assms by (auto simp: window_ok_def dest: dvd_imp_le)
  then have "\<not> bit_length (unat sz) \<le> 12" by (simp add: bit_length_le_iff)
  then show "12 \<le> window_bits sz" using nibble_up_bounds(1) [of "bit_length (unat sz)"] by simp
  have "bit_length (unat sz) \<le> 4 * 8" using assms by (simp add: bit_length_le_iff window_ok_def)
  from nibble_up_le [OF this] show "window_bits sz \<le> 32" by simp
  show "unat sz < 2 ^ window_bits sz"
    using bit_length_le_iff nibble_up_bounds(1) by blast
qed

lemma ucast_mask32: "k \<le> 32 \<Longrightarrow> ucast (ucast (2 ^ k - 1 :: u64) :: u32) = (mask k :: u64)"
  unfolding mask_eq_exp_minus_1 [symmetric]
  by (rule bit_word_eqI) (auto simp: bit_simps)

lemma round_down_pages:
  fixes e s :: nat
  assumes "4096 dvd e" "4096 dvd s" and that: "s < e"
  shows "(e - 1 - s + 4096) div 4096 * 4096 = e - s"
proof -
  obtain m n where "e = 4096 * m" "s = 4096 * n" using assms by (auto elim!: dvdE)
  with that have "e - 1 - s + 4096 = 4096 * (m - n) + 4095" "e - s = 4096 * (m - n)"
    by (simp_all add: algebra_simps)
  then show ?thesis by simp
qed

lemma find_addr_eq:
  assumes "window_ok target sz"
  shows "\<exists>h. find_addr target sz = Some h \<and>
    unat h + unat sz = unat target div 2 ^ window_bits sz * 2 ^ window_bits sz"
proof -
  define k where "k = window_bits sz"
  define e where "e = unat target div 2 ^ k * 2 ^ k"
  note b = window_bits_bounds [OF assms, folded k_def]
  have T: "2 ^ k \<le> unat target" and S: "4096 dvd unat sz" "0 < unat sz"
    using assms by (auto simp: window_ok_def k_def)
  have e: "2 ^ k \<le> e" "4096 dvd e" "e \<le> unat target"
  proof -
    have "1 \<le> unat target div 2 ^ k" using T by (simp add: Suc_le_eq div_greater_zero_iff)
    then show "2 ^ k \<le> e" by (simp add: e_def)
    have "(2::nat) ^ 12 dvd 2 ^ k" using b by (intro le_imp_power_dvd)
    then show "4096 dvd e" by (simp add: e_def)
    show "e \<le> unat target" by (simp add: e_def)
  qed
  have shl: "c_shl64 1 (num_bits_required sz) = Some (2 ^ k)"
    using b by (simp add: num_bits_required_eq k_def push_bit_eq_mult)
  define x where "x = (target - 2 ^ k) OR mask k"
  have ux: "unat x = e - 1"
  proof -
    have "(2 ^ k :: u64) \<le> target" using T b by (simp add: word_le_nat_alt unat_exp_less)
    then have "unat (target - 2 ^ k) = unat target - 2 ^ k"
      using b by (simp add: unat_minus_le unat_exp_less)
    then have "unat x = (unat target - 2 ^ k) div 2 ^ k * 2 ^ k + (2 ^ k - 1)"
      using b by (simp add: x_def unat_or_mask)
    also have "(unat target - 2 ^ k) div 2 ^ k = unat target div 2 ^ k - 1"
      using T by (simp add: le_div_geq)
    finally show ?thesis using e(1) by (simp add: e_def diff_mult_distrib)
  qed
  have "unat (x - sz) = e - 1 - unat sz"
    using ux b e by (subst unat_minus_le) (auto simp: word_le_nat_alt)
  moreover have "e - 1 - unat sz + 4096 < 2 ^ 64"
    using e S unat_u64_less [of target] dvd_imp_le [OF S] by simp
  ultimately have "unat (x - sz + 0x1000) = e - 1 - unat sz + 4096"
    by (subst unat_word_ariths(1)) simp
  then have "unat ((x - sz + 0x1000) AND NOT (mask 12)) = e - unat sz"
    using round_down_pages [OF e(2) S(1)] e b by (simp add: unat_and_not_mask)
  then show ?thesis
    using b e unfolding k_def [symmetric] e_def [symmetric]
    by (simp add: find_addr_def shl ucast_mask32 page_mask x_def)
qed

section \<open>The shape of the masks\<close>

lemma div_below_multiple:
  fixes e s :: nat
  assumes "2 ^ i dvd e" "0 < s" "s \<le> e"
  shows "s \<le> 2 ^ i \<longleftrightarrow> (e - s) div 2 ^ i = (e - 1) div 2 ^ i"
proof -
  obtain m where m: "e = 2 ^ i * m" using assms(1) by (elim dvdE)
  with assms obtain n where n: "m = Suc n" by (cases m) auto
  have top: "(e - 1) div 2 ^ i = n"
    using m n pred_multiple_div [of "2 ^ i" n] by simp
  show ?thesis
  proof
    assume "s \<le> 2 ^ i"
    then show "(e - s) div 2 ^ i = (e - 1) div 2 ^ i"
      unfolding top using m n assms by (intro div_nat_eqI) (auto simp: algebra_simps)
  next
    assume "(e - s) div 2 ^ i = (e - 1) div 2 ^ i"
    then have "2 ^ i * n \<le> e - s" unfolding top by (metis times_div_less_eq_dividend)
    then show "s \<le> 2 ^ i" using m n assms by (simp add: algebra_simps)
  qed
qed

text \<open>
  The bits in which the first and the last byte of a segment differ, when the byte after it
  is a multiple of a power of two that the segment fits in.
\<close>

lemma bit_length_xor_ends:
  fixes h am :: u64
  assumes e: "2 ^ k dvd e" "unat h + s = e" "unat am + 1 = e" and s: "0 < s" "s \<le> 2 ^ k"
  shows "bit_length (unat (h XOR am)) = bit_length (s - 1)"
proof -
  have ends: "unat h = e - s" "unat am = e - 1" and "s \<le> e" using e by auto
  have iff: "bit_length (unat (h XOR am)) \<le> i \<longleftrightarrow> bit_length (s - 1) \<le> i" if "i \<le> k" for i
  proof -
    have "2 ^ i dvd e" using that e(1) by (meson dvd_trans le_imp_power_dvd)
    from div_below_multiple [OF this s(1) \<open>s \<le> e\<close>] show ?thesis
      using s(1) by (auto simp: bit_length_le_iff xor_less_exp_iff ends)
  qed
  have "bit_length (s - 1) \<le> k" using s by (simp add: bit_length_le_iff)
  moreover from this have "bit_length (unat (h XOR am)) \<le> k" using iff by simp
  ultimately show ?thesis using iff by (metis order.antisym order_refl)
qed

lemma and_not_mask_cong:
  fixes a b :: "'a::len word"
  shows "unat a div 2 ^ k = unat b div 2 ^ k \<Longrightarrow> a AND NOT (mask k) = b AND NOT (mask k)"
  by (simp add: word_unat_eq_iff unat_and_not_mask)

lemma prefix_window:
  fixes h am :: u64
  assumes e: "2 ^ k dvd e" "unat h + s = e" "unat am + 1 = e" and s: "0 < s" "s \<le> 2 ^ k" and "k < 64"
  defines "j \<equiv> bit_length (s - 1)"
  shows "\<exists>om. common_prefix_len h am = Some om \<and> take_bit j om = 0 \<and> am = om OR mask j \<and> om \<le> h"
proof -
  have j: "bit_length (unat (h XOR am)) = j" "j \<le> k"
    using bit_length_xor_ends [OF e s] s by (simp_all add: j_def bit_length_le_iff)
  then have d: "unat h div 2 ^ j = unat am div 2 ^ j"
    using bit_length_upper xor_less_exp_iff by metis
  define om where "om = h AND NOT (mask j)"
  have om: "om = am AND NOT (mask j)" using and_not_mask_cong [OF d] by (simp add: om_def)
  have "2 ^ j dvd e" using j e(1) by (meson dvd_trans le_imp_power_dvd)
  then obtain m where m: "e = 2 ^ j * m" by (elim dvdE)
  with e obtain n where n: "m = Suc n" by (cases m) auto
  have "unat am = 2 ^ j * Suc n - 1" using e m n by simp
  then have "unat (am OR mask j) = unat am"
    using j \<open>k < 64\<close> pred_multiple_div [of "2 ^ j" n]
    by (simp add: unat_or_mask del: mult_Suc_right) (simp add: algebra_simps)
  then have "am OR mask j = am" by (simp add: word_unat_eq_iff)
  moreover have "om OR mask j = am OR mask j"
    unfolding om by (rule bit_word_eqI) (auto simp: bit_simps)
  moreover have "take_bit j om = 0" by (rule bit_word_eqI) (auto simp: om_def bit_simps)
  moreover have "om \<le> h" unfolding om_def by (rule word_and_le2)
  moreover have "common_prefix_len h am = Some om"
    using j \<open>k < 64\<close> by (simp add: common_prefix_len_eq om_def)
  ultimately show ?thesis by auto
qed

section \<open>The contract of a placement\<close>

text \<open>
  A placement answers a request with the first byte of the executable segment and the two
  masks.  The laws say that the masks describe one aligned block of a power of two of bytes
  that ends with the segment.
\<close>

locale window_placement =
  fixes place :: "'r \<Rightarrow> (u64 \<times> u64 \<times> u64) option"
    and ok :: "'r \<Rightarrow> bool"
    and span :: "'r \<Rightarrow> nat"
    and bits :: "'r \<Rightarrow> nat"
  assumes place_total: "ok r \<Longrightarrow> \<exists>h om am. place r = Some (h, om, am)"
    and place_masks: "\<lbrakk>ok r; place r = Some (h, om, am)\<rbrakk> \<Longrightarrow>
      take_bit (bits r) om = 0 \<and> am = om OR mask (bits r)"
    and place_segment: "\<lbrakk>ok r; place r = Some (h, om, am)\<rbrakk> \<Longrightarrow>
      om \<le> h \<and> unat h + span r = unat am + 1"
    and place_bits: "ok r \<Longrightarrow> bits r < 64 \<and> 2 ^ bits r < 2 * span r"
begin

lemma mask_target_placed:
  assumes "ok r" "place r = Some (h, om, am)"
  shows "mask_target om am t = om OR take_bit (bits r) t"
proof (rule bit_word_eqI)
  fix n
  have "bit om n \<Longrightarrow> \<not> n < bits r"
    using place_masks [OF assms] by (metis bit_take_bit_iff bit_0_eq bot_apply bot_bool_def)
  then show "bit (mask_target om am t) n = bit (om OR take_bit (bits r) t) n" if "n < LENGTH(64)"
    using that place_masks [OF assms] by (auto simp: mask_target_def bit_simps)
qed

lemma unat_mask_target:
  assumes "ok r" "place r = Some (h, om, am)"
  shows "unat (mask_target om am t) = unat om + unat t mod 2 ^ bits r"
  unfolding mask_target_placed [OF assms]
  using place_masks [OF assms] by (intro unat_or_take_bit) blast

lemma unat_and_mask:
  assumes "ok r" "place r = Some (h, om, am)"
  shows "unat am + 1 = unat om + 2 ^ bits r"
proof -
  have "unat (take_bit (bits r) (- 1 :: u64)) = 2 ^ bits r - 1"
    unfolding take_bit_minus_one_eq_mask
    using place_bits [OF assms(1)] by (intro unat_mask_le) simp
  then have "unat (- 1 :: u64) mod 2 ^ bits r = 2 ^ bits r - 1"
    by (simp only: unat_take_bit_mod)
  moreover have "am = om OR take_bit (bits r) (- 1)"
    unfolding take_bit_minus_one_eq_mask using place_masks [OF assms] by blast
  moreover have "take_bit (bits r) om = 0" using place_masks [OF assms] by blast
  ultimately have "unat am = unat om + (2 ^ bits r - 1)"
    by (simp only: unat_or_take_bit)
  then show ?thesis by simp
qed

lemma confined:
  assumes "ok r" "place r = Some (h, om, am)"
  shows "om \<le> mask_target om am t \<and> mask_target om am t \<le> am"
proof -
  have "unat t mod 2 ^ bits r < 2 ^ bits r" by simp
  then have "unat (mask_target om am t) < unat am + 1"
    unfolding unat_mask_target [OF assms] unat_and_mask [OF assms] by linarith
  then show ?thesis by (simp add: word_le_nat_alt unat_mask_target [OF assms])
qed

lemma om_aligned:
  assumes "ok r" "place r = Some (h, om, am)"
  shows "2 ^ bits r dvd unat om"
proof (rule mod_0_imp_dvd)
  have "take_bit (bits r) om = 0" using place_masks [OF assms] by blast
  then show "unat om mod 2 ^ bits r = 0" unfolding unat_take_bit_mod [symmetric] by simp
qed

lemma fixed_iff:
  assumes "ok r" "place r = Some (h, om, am)"
  shows "mask_target om am t = t \<longleftrightarrow> om \<le> t \<and> t \<le> am"
proof
  assume "mask_target om am t = t"
  then show "om \<le> t \<and> t \<le> am" using confined [OF assms, of t] by simp
next
  assume "om \<le> t \<and> t \<le> am"
  then have b: "unat om \<le> unat t" "unat t - unat om < 2 ^ bits r"
    using unat_and_mask [OF assms] by (auto simp: word_le_nat_alt)
  define d where "d = unat t - unat om"
  with b have d: "unat t = unat om + d" "d < 2 ^ bits r" by simp_all
  obtain m where "unat om = 2 ^ bits r * m" using om_aligned [OF assms] by (elim dvdE)
  then have "unat t mod 2 ^ bits r = d" using d by simp
  then show "mask_target om am t = t"
    using d by (simp add: word_unat_eq_iff unat_mask_target [OF assms])
qed

lemma segment_fixed:
  assumes "ok r" "place r = Some (h, om, am)" "h \<le> t" "t \<le> am"
  shows "mask_target om am t = t"
proof -
  have "om \<le> t" using place_segment [OF assms(1,2)] assms(3) by (blast intro: order_trans)
  then show ?thesis using assms(4) by (simp only: fixed_iff [OF assms(1,2)] simp_thms)
qed

lemma onto:
  assumes "ok r" "place r = Some (h, om, am)"
  shows "range (mask_target om am) = {om..am}"
proof
  show "range (mask_target om am) \<subseteq> {om..am}" using confined [OF assms] by auto
  show "{om..am} \<subseteq> range (mask_target om am)"
  proof
    fix t assume "t \<in> {om..am}"
    then have "mask_target om am t = t" using fixed_iff [OF assms] by simp
    then show "t \<in> range (mask_target om am)" by (metis rangeI)
  qed
qed

lemma tight:
  assumes "ok r" "place r = Some (h, om, am)"
  shows "span r \<le> unat am + 1 - unat om \<and> unat am + 1 - unat om < 2 * span r"
proof -
  have "unat om \<le> unat h" "unat h + span r = unat am + 1" "2 ^ bits r < 2 * span r"
    using place_segment [OF assms] place_bits [OF assms(1)] by (simp_all add: word_le_nat_alt)
  with unat_and_mask [OF assms] show ?thesis by linarith
qed

end

section \<open>The two placements of the loader\<close>

definition exec_window :: "u64 \<Rightarrow> u64 \<Rightarrow> (u64 \<times> u64 \<times> u64) option" where
  "exec_window target sz = do {
     hmm \<leftarrow> find_addr target sz;
     exec_start \<leftarrow> common_prefix_len hmm (sz + hmm - 1);
     Some (hmm, exec_start, sz + hmm - 1)
   }"

lemma dso_window_eq: "dso_window target sz = exec_window target (ucast sz)"
  by (simp add: dso_window_def exec_window_def Let_def)

lemma main_window_eq:
  "main_window mapstart sz = exec_window (mapstart - 0x10000000) (ucast (main_exec_size sz))"
  by (simp add: main_window_def exec_window_def Let_def)

abbreviation mask_bits :: "u64 \<Rightarrow> nat" where
  "mask_bits sz \<equiv> bit_length (unat sz - 1)"

lemma exec_window_placed:
  assumes "window_ok target sz"
  shows "\<exists>h om am. exec_window target sz = Some (h, om, am) \<and>
    take_bit (mask_bits sz) om = 0 \<and> am = om OR mask (mask_bits sz) \<and>
    om \<le> h \<and> unat h + unat sz = unat am + 1 \<and>
    unat am + 1 = unat target div 2 ^ window_bits sz * 2 ^ window_bits sz"
proof -
  obtain h where h: "find_addr target sz = Some h"
    and e: "unat h + unat sz = unat target div 2 ^ window_bits sz * 2 ^ window_bits sz" (is "_ = ?e")
    using find_addr_eq [OF assms] by blast
  note b = window_bits_bounds [OF assms]
  have "?e \<le> unat target" by simp
  then have "unat h + unat sz < 2 ^ 64" using e unat_u64_less [of target] by linarith
  then have "unat (sz + h) = unat h + unat sz" by (subst unat_word_ariths(1)) simp
  moreover have "0 < unat sz" using assms by (simp add: window_ok_def)
  ultimately have am: "unat (sz + h - 1) + 1 = unat h + unat sz"
    by (subst unat_minus_le) (auto simp: word_le_nat_alt)
  have "2 ^ window_bits sz dvd ?e" by simp
  from prefix_window [OF this e, of "sz + h - 1"] am e b \<open>0 < unat sz\<close>
  obtain om where "common_prefix_len h (sz + h - 1) = Some om" "take_bit (mask_bits sz) om = 0"
    "sz + h - 1 = om OR mask (mask_bits sz)" "om \<le> h"
    by auto
  with h am e show ?thesis by (simp add: exec_window_def)
qed

lemma mask_bits_bound:
  assumes "window_ok target sz"
  shows "mask_bits sz < 64 \<and> 2 ^ mask_bits sz < 2 * unat sz"
proof
  have "unat sz - 1 < 2 ^ 32" using assms by (auto simp: window_ok_def)
  then have "mask_bits sz \<le> 32" by (simp only: bit_length_le_iff)
  then show "mask_bits sz < 64" by simp
  show "2 ^ mask_bits sz < 2 * unat sz"
  proof (cases "unat sz - 1 = 0")
    case True
    then show ?thesis using assms by (simp add: window_ok_def)
  next
    case False
    then have "2 ^ (mask_bits sz - 1) \<le> unat sz - 1" by (intro bit_length_lower) simp
    moreover have "0 < mask_bits sz" using False by (intro bit_length_pos) simp
    then have "(2::nat) ^ mask_bits sz = 2 * 2 ^ (mask_bits sz - 1)" by (simp add: power_eq_if)
    ultimately show ?thesis using False by linarith
  qed
qed

lemma exec_window_laws:
  assumes "window_ok target sz" "exec_window target sz = Some (h, om, am)"
  shows "take_bit (mask_bits sz) om = 0 \<and> am = om OR mask (mask_bits sz)"
    and "om \<le> h \<and> unat h + unat sz = unat am + 1"
    and "unat am + 1 = unat target div 2 ^ window_bits sz * 2 ^ window_bits sz"
proof -
  obtain h' om' am' where *: "exec_window target sz = Some (h', om', am')"
    "take_bit (mask_bits sz) om' = 0 \<and> am' = om' OR mask (mask_bits sz)"
    "om' \<le> h' \<and> unat h' + unat sz = unat am' + 1"
    "unat am' + 1 = unat target div 2 ^ window_bits sz * 2 ^ window_bits sz"
    using exec_window_placed [OF assms(1)] by blast
  have "h' = h" "om' = om" "am' = am" using *(1) assms(2) by simp_all
  with * show "take_bit (mask_bits sz) om = 0 \<and> am = om OR mask (mask_bits sz)"
    and "om \<le> h \<and> unat h + unat sz = unat am + 1"
    and "unat am + 1 = unat target div 2 ^ window_bits sz * 2 ^ window_bits sz"
    by simp_all
qed

definition dso_ok :: "u64 \<times> u32 \<Rightarrow> bool" where
  "dso_ok r \<longleftrightarrow> window_ok (fst r) (ucast (snd r))"

definition main_ok :: "u64 \<times> u32 \<Rightarrow> bool" where
  "main_ok r \<longleftrightarrow> window_ok (fst r - 0x10000000) (ucast (main_exec_size (snd r)))"

interpretation dso: window_placement
  "\<lambda>r. dso_window (fst r) (snd r)" dso_ok
  "\<lambda>r. unat (snd r)" "\<lambda>r. mask_bits (ucast (snd r))"
proof (unfold_locales, goal_cases)
  case (1 r)
  then show ?case unfolding dso_ok_def dso_window_eq using exec_window_placed by blast
next
  case (2 r h om am)
  then show ?case unfolding dso_ok_def dso_window_eq by (rule exec_window_laws(1))
next
  case (3 r h om am)
  then show ?case
    unfolding dso_ok_def dso_window_eq using exec_window_laws(2) by (fastforce simp: unat_ucast_up)
next
  case (4 r)
  then show ?case
    unfolding dso_ok_def using mask_bits_bound by (fastforce simp: unat_ucast_up)
qed

interpretation main: window_placement
  "\<lambda>r. main_window (fst r) (snd r)" main_ok
  "\<lambda>r. unat (main_exec_size (snd r))" "\<lambda>r. mask_bits (ucast (main_exec_size (snd r)))"
proof (unfold_locales, goal_cases)
  case (1 r)
  then show ?case unfolding main_ok_def main_window_eq using exec_window_placed by blast
next
  case (2 r h om am)
  then show ?case unfolding main_ok_def main_window_eq by (rule exec_window_laws(1))
next
  case (3 r h om am)
  then show ?case
    unfolding main_ok_def main_window_eq using exec_window_laws(2) by (fastforce simp: unat_ucast_up)
next
  case (4 r)
  then show ?case
    unfolding main_ok_def using mask_bits_bound by (fastforce simp: unat_ucast_up)
qed

lemma main_exec_size_pages:
  assumes "unat sz + 4096 < 2 ^ 32"
  shows "unat (main_exec_size sz) = (unat sz div 4096 + 1) * 4096"
proof -
  have m: "unat (sz mod 0x1000) = unat sz mod 4096" by (simp add: unat_mod)
  have a: "unat (sz + 0x1000) = unat sz + 4096"
    using assms by (subst unat_word_ariths(1)) simp
  have "unat sz mod 4096 \<le> unat sz + 4096" by (simp add: trans_le_add2)
  then have "unat (main_exec_size sz) = unat sz + 4096 - unat sz mod 4096"
    unfolding main_exec_size_def by (subst unat_minus_le) (simp_all add: word_le_nat_alt a m)
  also have "\<dots> = (unat sz div 4096 + 1) * 4096"
    by (simp add: minus_mod_eq_div_mult [symmetric])
  finally show ?thesis .
qed

lemma find_addr_undefined_iff: "find_addr target sz = None \<longleftrightarrow> 2 ^ 60 \<le> unat sz"
proof -
  have "nibble_up b < 64 \<longleftrightarrow> b \<le> 60" for b
    using nibble_up_le [of b 15] nibble_up_bounds(1) [of b]
    by (cases "b \<le> 60"; cases "b = 61"; cases "b = 62"; cases "b = 63") (auto simp: nibble_up_def)
  then have "find_addr target sz = None \<longleftrightarrow> \<not> bit_length (unat sz) \<le> 60"
    by (simp add: find_addr_def num_bits_required_eq c_shl64_def)
  then show ?thesis by (simp only: bit_length_le_iff not_less)
qed

lemma common_prefix_undefined_iff: "common_prefix_len a b = None \<longleftrightarrow> bit a 63 \<noteq> bit b 63"
proof -
  have "common_prefix_len a b = None \<longleftrightarrow> \<not> bit_length (unat (a XOR b)) \<le> 63"
    by (simp add: common_prefix_len_eq Let_def)
  also have "\<dots> \<longleftrightarrow> drop_bit 63 a \<noteq> drop_bit 63 b"
    by (simp only: bit_length_le_iff xor_less_exp_iff drop_bit_eq_iff_div)
  also have "drop_bit 63 a \<noteq> drop_bit 63 b \<longleftrightarrow> bit a 63 \<noteq> bit b 63"
  proof -
    have "bit a 63 = bit b 63" if "drop_bit 63 a = drop_bit 63 b"
      using arg_cong [OF that, of "\<lambda>w. bit w 0"] by (simp only: bit_drop_bit_eq comp_def add_0_right)
    moreover have "drop_bit 63 a = drop_bit 63 b" if "bit a 63 = bit b 63"
    proof (rule bit_word_eqI)
      show "bit (drop_bit 63 a) n = bit (drop_bit 63 b) n" for n
        using that by (cases n) (auto simp: bit_drop_bit_eq simp del: bit_0 dest: bit_imp_le_length)
    qed
    ultimately show ?thesis by blast
  qed
  finally show ?thesis .
qed

section \<open>Properties\<close>

lemmas window_eval = window_ok_def bit_length.simps nibble_up_def

text \<open>
  C4: Confinement of indirect control flow to a shared object.  For every executable segment of
  whole pages and every target address the loader can round down from, the loader computes a
  placement \<open>h\<close> and two masks such that the masked value of an arbitrary 64-bit target always
  lies in the window from the OR mask to the AND mask, every address of that window is left
  unchanged (so legitimate calls inside the segment still work), and the segment is the last
  part of the window.
\<close>

theorem dso_window_confines:
  assumes "window_ok target (ucast sz)"
  shows "\<exists>h om am. dso_window target sz = Some (h, om, am) \<and>
    range (mask_target om am) = {om..am} \<and>
    (\<forall>t. mask_target om am t = t \<longleftrightarrow> om \<le> t \<and> t \<le> am) \<and>
    om \<le> h \<and> unat h + unat sz = unat am + 1"
proof -
  have ok: "dso_ok (target, sz)" using assms by (simp add: dso_ok_def)
  then obtain h om am where *: "dso_window (fst (target, sz)) (snd (target, sz)) = Some (h, om, am)"
    using dso.place_total by blast
  show ?thesis
    using * dso.onto [OF ok *] dso.fixed_iff [OF ok *] dso.place_segment [OF ok *]
    by (intro exI [of _ h] exI [of _ om] exI [of _ am]) (simp only: fst_conv snd_conv simp_thms)
qed

theorem dso_window_confines_witness:
  "window_ok 0x7ffff0000000 (ucast (0x5000 :: u32)) \<and>
   dso_window 0x7ffff0000000 0x5000 = Some (0x7fffefffb000, 0x7fffefff8000, 0x7fffefffffff) \<and>
   range (mask_target 0x7fffefff8000 0x7fffefffffff) = {0x7fffefff8000..0x7fffefffffff}"
proof -
  have ok: "window_ok 0x7ffff0000000 (ucast (0x5000 :: u32))" by (simp add: window_eval)
  moreover have w: "dso_window 0x7ffff0000000 0x5000 =
    Some (0x7fffefffb000, 0x7fffefff8000, 0x7fffefffffff)" by code_simp
  moreover have "range (mask_target 0x7fffefff8000 0x7fffefffffff) = {0x7fffefff8000..0x7fffefffffff}"
    using dso_window_confines [OF ok] w by auto
  ultimately show ?thesis by blast
qed

text \<open>
  C17: The window a shared object's masks admit is tight: it is at least as large as the
  executable segment and less than twice as large.
\<close>

theorem dso_window_tight:
  assumes "window_ok target (ucast sz)" "dso_window target sz = Some (h, om, am)"
  shows "unat sz \<le> unat am + 1 - unat om \<and> unat am + 1 - unat om < 2 * unat sz"
  using dso.tight [of "(target, sz)" h om am] assms by (simp add: dso_ok_def)

theorem dso_window_tight_witness:
  "dso_window 0x7ffff0000000 0x5000 = Some (0x7fffefffb000, 0x7fffefff8000, 0x7fffefffffff) \<and>
   0x5000 \<le> unat (0x7fffefffffff :: u64) + 1 - unat (0x7fffefff8000 :: u64)"
proof -
  have ok: "window_ok 0x7ffff0000000 (ucast (0x5000 :: u32))" by (simp add: window_eval)
  have w: "dso_window 0x7ffff0000000 0x5000 =
    Some (0x7fffefffb000, 0x7fffefff8000, 0x7fffefffffff)" by code_simp
  then show ?thesis using dso_window_tight [OF ok w] by simp
qed

text \<open>
  C12: Confinement for the main binary.  The loader moves the main executable with the same
  algorithm; for every 32-bit segment size that does not overflow when it is rounded to pages,
  masked targets stay in the window of the moved segment and addresses of that window are
  unchanged.
\<close>

theorem main_window_confines:
  assumes "unat sz + 4096 < 2 ^ 32"
    and "2 ^ window_bits (ucast (main_exec_size sz)) \<le> unat (mapstart - 0x10000000)"
  shows "\<exists>h om am. main_window mapstart sz = Some (h, om, am) \<and>
    range (mask_target om am) = {om..am} \<and>
    (\<forall>t. mask_target om am t = t \<longleftrightarrow> om \<le> t \<and> t \<le> am) \<and>
    om \<le> h \<and> unat h + (unat sz div 4096 + 1) * 4096 = unat am + 1"
proof -
  note sz = main_exec_size_pages [OF assms(1)]
  have "unat (main_exec_size sz) < 2 ^ LENGTH(32)" by (rule unsigned_less)
  then have ok: "main_ok (mapstart, sz)"
    using assms(2) sz by (simp add: main_ok_def window_ok_def unat_ucast_up)
  then obtain h om am where *: "main_window (fst (mapstart, sz)) (snd (mapstart, sz)) = Some (h, om, am)"
    using main.place_total by blast
  show ?thesis
    using * main.onto [OF ok *] main.fixed_iff [OF ok *] main.place_segment [OF ok *] sz
    by (intro exI [of _ h] exI [of _ om] exI [of _ am]) (simp only: fst_conv snd_conv simp_thms)
qed

theorem main_window_confines_witness:
  "main_window 0x555555555000 0x1234 = Some (0x55554554e000, 0x55554554e000, 0x55554554ffff) \<and>
   range (mask_target 0x55554554e000 0x55554554ffff) = {0x55554554e000..0x55554554ffff}"
proof -
  have w: "main_window 0x555555555000 0x1234 = Some (0x55554554e000, 0x55554554e000, 0x55554554ffff)"
    by code_simp
  have "main_exec_size 0x1234 = 0x2000" by code_simp
  then have "range (mask_target 0x55554554e000 0x55554554ffff) = {0x55554554e000..0x55554554ffff}"
    using main_window_confines [of "0x1234" "0x555555555000"] w by (auto simp: window_eval)
  with w show ?thesis by blast
qed

text \<open>
  The address computation is defined exactly where the shifts of the C code are: for the
  target address computation that is every size below \<open>2 ^ 60\<close>, hence every size that fits the
  32-bit field of \<open>mitig_struct\<close>, and for the prefix it is every pair of addresses that agree
  in the top bit.
\<close>

theorem window_defined_iff:
  "(find_addr target sz = None \<longleftrightarrow> 2 ^ 60 \<le> unat sz) \<and>
   (common_prefix_len a b = None \<longleftrightarrow> bit a 63 \<noteq> bit b 63)"
  by (simp only: find_addr_undefined_iff common_prefix_undefined_iff simp_thms)

end
