(* ===== verification/Loader_Map.thy ===== *)
theory Loader_Map
  imports Loader_Window
begin

text \<open>
  Mapping a shared object (\<open>src/glibc-platypus/elf/dl-map-segments.h\<close>): \<open>_dl_map_segment\<close>,
  \<open>_dl_map_segments\<close> with its static variables \<open>addr\<close> and \<open>to_load\<close>, and
  \<open>_dl_postprocess_loadcmd\<close> of \<open>elf/dl-load.h\<close>.  The kernel is not part of the sources: its
  calls are the fields of a record that every operation takes, over an arbitrary kernel state.
  An undefined shift in the window computation is the outcome \<open>None\<close>.
\<close>

section \<open>System interface\<close>

record 's sys =
  sys_mmap :: "u64 \<Rightarrow> u64 \<Rightarrow> int \<Rightarrow> int \<Rightarrow> int \<Rightarrow> u64 \<Rightarrow> 's \<Rightarrow> u64 \<times> 's"
  sys_munmap :: "u64 \<Rightarrow> u64 \<Rightarrow> 's \<Rightarrow> 's"
  sys_mprotect :: "u64 \<Rightarrow> u64 \<Rightarrow> int \<Rightarrow> 's \<Rightarrow> int \<times> 's"
  sys_memset0 :: "u64 \<Rightarrow> u64 \<Rightarrow> 's \<Rightarrow> 's"
  sys_set_vma_name :: "u64 \<Rightarrow> u64 \<Rightarrow> string \<Rightarrow> 's \<Rightarrow> 's"
  sys_decorate_maps :: bool
  sys_pagesize :: u64

abbreviation (input) "PROT_NONE \<equiv> (0 :: int)"
abbreviation (input) "PROT_READ \<equiv> (1 :: int)"
abbreviation (input) "PROT_WRITE \<equiv> (2 :: int)"
abbreviation (input) "PROT_EXEC \<equiv> (4 :: int)"
abbreviation (input) "MAP_FILE \<equiv> (0 :: int)"
abbreviation (input) "MAP_PRIVATE \<equiv> (0x02 :: int)"
abbreviation (input) "MAP_FIXED \<equiv> (0x10 :: int)"
abbreviation (input) "MAP_ANONYMOUS \<equiv> (0x20 :: int)"
abbreviation (input) "MAP_DENYWRITE \<equiv> (0x800 :: int)"
abbreviation (input) "MAP_COPY \<equiv> MAP_PRIVATE OR MAP_DENYWRITE"
abbreviation (input) "MAP_FAILED \<equiv> (- 1 :: u64)"

definition align_up :: "u64 \<Rightarrow> u64 \<Rightarrow> u64" where
  "align_up base sz = (base + sz - 1) AND (- sz)"

section \<open>State\<close>

record link_map =
  l_addr :: u64
  l_name :: string
  l_map_start :: u64
  l_map_end :: u64
  l_contiguous :: bool
  l_phdr :: u64
  l_exec_start :: u64
  l_exec_end :: u64

record ehdr =
  e_phoff :: u64
  e_phnum :: u16

record statics =
  st_addr :: u64
  st_to_load :: int

definition statics0 :: statics where
  "statics0 = \<lparr>st_addr = 0, st_to_load = 1\<rparr>"

lemma statics0_to_load [simp]: "st_to_load statics0 = 1"
  by (simp add: statics0_def)

datatype map_error = Map_Segment | Mprotect | Map_Zero_Fill | Not_Page_Aligned

section \<open>Operations\<close>

definition dl_map_segment ::
    "'s sys \<Rightarrow> loadcmd \<Rightarrow> u64 \<Rightarrow> u64 \<Rightarrow> int \<Rightarrow> 's \<Rightarrow> u64 \<times> 's" where
  "dl_map_segment K c mappref maplength fd s =
    (if lc_mapalign c \<le> sys_pagesize K
     then sys_mmap K mappref maplength (lc_prot c) (MAP_COPY OR MAP_FILE) fd (lc_mapoff c) s
     else
       let maplen = (if maplength \<ge> lc_mapalign c then maplength + lc_mapalign c
                     else 2 * lc_mapalign c);
           (map_start, s1) = sys_mmap K mappref maplen PROT_NONE (MAP_ANONYMOUS OR MAP_COPY) (- 1) 0 s
       in if map_start = MAP_FAILED then (map_start, s1)
          else
            let (map_start_aligned, s2) =
                  sys_mmap K (align_up map_start (lc_mapalign c)) maplength (lc_prot c)
                    (MAP_COPY OR MAP_FILE OR MAP_FIXED) fd (lc_mapoff c) s1
            in if map_start_aligned = MAP_FAILED
               then (map_start_aligned, sys_munmap K map_start maplen s2)
               else
                 let delta = map_start_aligned - map_start;
                     s3 = (if delta \<noteq> 0 then sys_munmap K map_start delta s2 else s2);
                     map_end = align_up (map_start_aligned + maplength) (sys_pagesize K);
                     delta' = map_start + maplen - map_end;
                     s4 = (if delta' \<noteq> 0 then sys_munmap K map_end delta' s3 else s3)
                 in (map_start_aligned, s4))"

definition dl_postprocess_loadcmd :: "link_map \<Rightarrow> ehdr \<Rightarrow> loadcmd \<Rightarrow> link_map" where
  "dl_postprocess_loadcmd l header c =
    (if l_phdr l = 0 \<and> lc_mapoff c \<le> e_phoff header \<and>
        lc_mapend c - lc_mapstart c + lc_mapoff c \<ge> e_phoff header + ucast (e_phnum header) * 56
     then l\<lparr>l_phdr := lc_mapstart c + e_phoff header - lc_mapoff c\<rparr>
     else l)"

text \<open>
  The name given to an anonymous mapping of zero pages: the fixed prefix, a blank, and the
  object name with unprintable and special characters replaced, cut to the 80 bytes of
  \<open>bssname\<close>.  A name that does not fit is first reduced to the part after its last slash.
\<close>

fun last_slash :: "string \<Rightarrow> nat \<Rightarrow> nat" where
  "last_slash nm 0 = 0"
| "last_slash nm (Suc j) = (if nm ! j = CHR ''/'' then Suc j else last_slash nm j)"

definition sanitize :: "char \<Rightarrow> char" where
  "sanitize ch =
    (if of_char ch \<le> (0x1f :: nat) \<or> of_char ch \<ge> (0x7f :: nat) \<or>
        ch \<in> set [CHR 0x5C, CHR 0x60, CHR ''$'', CHR ''['', CHR '']'']
     then CHR ''!'' else ch)"

definition bss_name :: "string \<Rightarrow> string" where
  "bss_name nm =
    (let bssname = '' glibc: .bss'' in
     if nm \<noteq> []
     then
       let i = length bssname + 1;
           namelen = length nm;
           j = (if namelen > 80 - i - 1 then last_slash nm (namelen - 1) else 0)
       in bssname @ '' '' @ map sanitize (take (80 - 1 - i) (drop j nm))
     else bssname)"

definition zero_last_page ::
    "'s sys \<Rightarrow> loadcmd \<Rightarrow> u64 \<Rightarrow> u64 \<Rightarrow> 's \<Rightarrow> map_error option \<times> 's" where
  "zero_last_page K c zero zeropage s =
    (if zeropage > zero
     then
       let page = zero AND NOT (sys_pagesize K - 1);
           (e, s1) = (if lc_prot c AND PROT_WRITE = 0
                      then let (r, s') = sys_mprotect K page (sys_pagesize K) (lc_prot c OR PROT_WRITE) s
                           in (if r < 0 then Some Mprotect else None, s')
                      else (None, s))
       in case e of
            Some err \<Rightarrow> (Some err, s1)
          | None \<Rightarrow>
              let s2 = sys_memset0 K zero (zeropage - zero) s1
              in (None, if lc_prot c AND PROT_WRITE = 0
                        then snd (sys_mprotect K page (sys_pagesize K) (lc_prot c) s2) else s2)
     else (None, s))"

definition map_zero_pages ::
    "'s sys \<Rightarrow> string \<Rightarrow> loadcmd \<Rightarrow> u64 \<Rightarrow> u64 \<Rightarrow> 's \<Rightarrow> map_error option \<times> 's" where
  "map_zero_pages K nm c zeropage zeroend s =
    (if zeroend > zeropage
     then
       let (mapat, s1) = sys_mmap K zeropage (zeroend - zeropage) (lc_prot c)
                           (MAP_ANONYMOUS OR MAP_PRIVATE OR MAP_FIXED) (- 1) 0 s
       in if mapat = MAP_FAILED then (Some Map_Zero_Fill, s1)
          else (None, if sys_decorate_maps K
                      then sys_set_vma_name K zeropage (zeroend - zeropage) (bss_name nm) s1 else s1)
     else (None, s))"

definition zero_fill :: "'s sys \<Rightarrow> link_map \<Rightarrow> loadcmd \<Rightarrow> 's \<Rightarrow> map_error option \<times> 's" where
  "zero_fill K l c s =
    (if lc_allocend c > lc_dataend c
     then
       let zero = l_addr l + lc_dataend c;
           zeroend = l_addr l + lc_allocend c;
           zeropage = (zero + sys_pagesize K - 1) AND NOT (sys_pagesize K - 1);
           zeropage = (if zeroend < zeropage then zeroend else zeropage)
       in case zero_last_page K c zero zeropage s of
            (Some err, s1) \<Rightarrow> (Some err, s1)
          | (None, s1) \<Rightarrow> map_zero_pages K (l_name l) c zeropage zeroend s1
     else (None, s))"

text \<open>
  The loop over the load commands; \<open>skip\<close> is the entry at the label \<open>postmap\<close>, where the
  first segment is already mapped.
\<close>

fun map_loop ::
    "'s sys \<Rightarrow> ehdr \<Rightarrow> int \<Rightarrow> bool \<Rightarrow> loadcmd list \<Rightarrow> link_map \<Rightarrow> 's
      \<Rightarrow> map_error option \<times> link_map \<times> 's" where
  "map_loop K header fd skip [] l s = (None, l, s)"
| "map_loop K header fd skip (c # cs) l s =
    (let (r, s1) = (if \<not> skip \<and> lc_mapend c > lc_mapstart c
                    then sys_mmap K (l_addr l + lc_mapstart c) (lc_mapend c - lc_mapstart c)
                           (lc_prot c) (MAP_FIXED OR MAP_COPY OR MAP_FILE) fd (lc_mapoff c) s
                    else (0, s))
     in if r = MAP_FAILED then (Some Map_Segment, l, s1)
        else
          let l1 = dl_postprocess_loadcmd l header c
          in case zero_fill K l1 c s1 of
               (Some err, s2) \<Rightarrow> (Some err, l1, s2)
             | (None, s2) \<Rightarrow> map_loop K header fd False cs l1 s2)"

text \<open>
  The placement of a position-independent object: the statements between \<open>find_exec_size\<close> and
  the test for \<open>MAP_FAILED\<close>.  An object without an executable segment is not mapped here; its
  \<open>l_map_start\<close> keeps the value it had.
\<close>

definition place_dyn ::
    "'s sys \<Rightarrow> loadcmd \<Rightarrow> loadcmd list \<Rightarrow> u64 \<Rightarrow> int \<Rightarrow> link_map \<Rightarrow> statics \<Rightarrow> 's
      \<Rightarrow> (map_error option \<times> link_map \<times> statics \<times> 's) option" where
  "place_dyn K c loadcmds maplength fd l g s =
    (let mappref = lc_mapstart c;
         st = find_exec_size loadcmds
     in if st_to_load g > 1
        then
          if ms_size st > 0
          then do {
            let mappref = st_addr g - 0x10000000;
            (hmm, exec_start, exec_end) \<leftarrow> dso_window mappref (ms_size st);
            let l = l\<lparr>l_exec_end := exec_end, l_exec_start := exec_start\<rparr>;
            let mappref = hmm - ms_mapstart st;
            let g = g\<lparr>st_addr := mappref\<rparr>;
            let (start, s) = dl_map_segment K c mappref maplength fd s;
            let l = l\<lparr>l_map_start := start\<rparr>;
            Some (if l_map_start l \<noteq> st_addr g then (Some Map_Segment, l, g, s)
                  else (None, l, g\<lparr>st_to_load := st_to_load g + 1\<rparr>, s))
          }
          else Some (None, l, g, s)
        else
          let (tmp, s) = dl_map_segment K c mappref maplength fd s
          in if ms_size st > 0
             then do {
               let g = g\<lparr>st_addr := tmp - 0x10000000\<rparr>;
               (hmm, exec_start, exec_end) \<leftarrow> dso_window (st_addr g) (ms_size st);
               let l = l\<lparr>l_exec_end := exec_end, l_exec_start := exec_start\<rparr>;
               let g = g\<lparr>st_addr := hmm - ms_mapstart st\<rparr>;
               let (start, s) = dl_map_segment K c (st_addr g) maplength fd s;
               let l = l\<lparr>l_map_start := start\<rparr>;
               Some (if l_map_start l \<noteq> st_addr g then (Some Map_Segment, l, g, s)
                     else (None, l, g\<lparr>st_to_load := st_to_load g + 1\<rparr>, s))
             }
             else Some (None, l, g, s))"

definition hole_protect ::
    "'s sys \<Rightarrow> bool \<Rightarrow> loadcmd \<Rightarrow> loadcmd \<Rightarrow> link_map \<Rightarrow> 's \<Rightarrow> map_error option \<times> 's" where
  "hole_protect K has_holes c lastc l s =
    (if has_holes
     then
       if lc_mapstart lastc < lc_mapend c then (Some Not_Page_Aligned, s)
       else
         let (r, s1) = sys_mprotect K (l_addr l + lc_mapend c) (lc_mapstart lastc - lc_mapend c) PROT_NONE s
         in (if r < 0 then Some Mprotect else None, s1)
     else (None, s))"

definition dl_map_segments ::
    "'s sys \<Rightarrow> int \<Rightarrow> ehdr \<Rightarrow> bool \<Rightarrow> loadcmd list \<Rightarrow> u64 \<Rightarrow> bool \<Rightarrow> link_map \<Rightarrow> statics \<Rightarrow> 's
      \<Rightarrow> (map_error option \<times> link_map \<times> statics \<times> 's) option" where
  "dl_map_segments K fd header et_dyn loadcmds maplength has_holes l g s =
    (case loadcmds of
       [] \<Rightarrow> None
     | c # _ \<Rightarrow>
       if et_dyn
       then do {
         (e, l, g, s) \<leftarrow> place_dyn K c loadcmds maplength fd l g s;
         if e \<noteq> None then Some (e, l, g, s)
         else if l_map_start l = MAP_FAILED then Some (Some Map_Segment, l, g, s)
         else do {
           let l = l\<lparr>l_map_end := l_map_start l + maplength, l_addr := l_map_start l - lc_mapstart c\<rparr>;
           let (e, s) = hole_protect K has_holes c (last loadcmds) l s;
           if e \<noteq> None then Some (e, l, g, s)
           else do {
             let (e, l, s) = map_loop K header fd True loadcmds (l\<lparr>l_contiguous := True\<rparr>) s;
             Some (e, l, g, s)
           }
         }
       }
       else do {
         let start = lc_mapstart c + l_addr l;
         let l = l\<lparr>l_map_start := start, l_map_end := start + maplength, l_contiguous := \<not> has_holes\<rparr>;
         let (e, l, s) = map_loop K header fd False loadcmds l s;
         Some (e, l, g, s)
       })"

section \<open>Placing one object\<close>

definition dso_target ::
    "'s sys \<Rightarrow> loadcmd \<Rightarrow> u64 \<Rightarrow> int \<Rightarrow> statics \<Rightarrow> 's \<Rightarrow> u64" where
  "dso_target K c maplength fd g s =
    (if st_to_load g > 1 then st_addr g
     else fst (dl_map_segment K c (lc_mapstart c) maplength fd s)) - 0x10000000"

lemma place_dyn_exec:
  assumes "place_dyn K c cs maplength fd l g s = Some (e, l', g', s')" "0 < ms_size (find_exec_size cs)"
  shows "\<exists>hmm. dso_window (dso_target K c maplength fd g s) (ms_size (find_exec_size cs))
                = Some (hmm, l_exec_start l', l_exec_end l') \<and>
           st_addr g' = hmm - ms_mapstart (find_exec_size cs) \<and>
           st_to_load g' = (if e = None then st_to_load g + 1 else st_to_load g) \<and>
           (e = None \<longrightarrow> l_map_start l' = st_addr g')"
  using assms
  by (auto simp: place_dyn_def dso_target_def Let_def split: if_splits bind_splits prod.splits option.splits)

lemma place_dyn_no_exec:
  assumes "place_dyn K c cs maplength fd l g s = Some (e, l', g', s')" "ms_size (find_exec_size cs) = 0"
  shows "e = None \<and> l' = l \<and> g' = g"
  using assms by (auto simp: place_dyn_def Let_def split: if_splits prod.splits)

text \<open>The loop over the load commands changes no field of the object but \<open>l_phdr\<close>.\<close>

abbreviation forget_phdr :: "link_map \<Rightarrow> link_map" where
  "forget_phdr l \<equiv> l\<lparr>l_phdr := 0\<rparr>"

lemma postprocess_frame [simp]: "forget_phdr (dl_postprocess_loadcmd l header c) = forget_phdr l"
  by (simp add: dl_postprocess_loadcmd_def)

lemma map_loop_frame:
  "map_loop K header fd skip cs l s = (e, l', s') \<Longrightarrow> forget_phdr l' = forget_phdr l"
proof (induction cs arbitrary: skip l s)
  case (Cons c cs)
  then show ?case
    by (auto simp: Let_def split: if_splits prod.splits option.splits dest!: Cons.IH)
qed simp

lemma forget_phdr_fields:
  assumes "forget_phdr l' = forget_phdr l"
  shows "l_addr l' = l_addr l \<and> l_map_start l' = l_map_start l \<and> l_map_end l' = l_map_end l \<and>
    l_exec_start l' = l_exec_start l \<and> l_exec_end l' = l_exec_end l"
  using assms by (cases l'; cases l; simp)

lemma dl_map_segments_dyn:
  assumes "dl_map_segments K fd header True (c # cs) maplength holes l g s = Some (e, l', g', s')"
  shows "\<exists>e1 l1 s1. place_dyn K c (c # cs) maplength fd l g s = Some (e1, l1, g', s1) \<and>
    l_exec_start l' = l_exec_start l1 \<and> l_exec_end l' = l_exec_end l1 \<and>
    (e = None \<longrightarrow> e1 = None \<and> l_map_start l' = l_map_start l1 \<and> l_map_start l1 \<noteq> MAP_FAILED \<and>
      l_addr l' = l_map_start l' - lc_mapstart c \<and> l_map_end l' = l_map_start l' + maplength)"
proof -
  obtain e1 l1 g1 s1 where p: "place_dyn K c (c # cs) maplength fd l g s = Some (e1, l1, g1, s1)"
    using assms by (auto simp: dl_map_segments_def split: bind_splits)
  show ?thesis
    using assms p
    by (auto simp: dl_map_segments_def Let_def simp del: map_loop.simps split: if_splits prod.splits
        dest!: map_loop_frame forget_phdr_fields)
qed

section \<open>Sequences of loads\<close>

text \<open>
  What the layout of the address space has to leave room for when one more object is loaded:
  whole pages of code, at most the 256 MiB the loader steps down per object, and addresses that
  do not wrap around.
\<close>

definition dso_fits :: "'s sys \<Rightarrow> loadcmd list \<Rightarrow> u64 \<Rightarrow> int \<Rightarrow> statics \<Rightarrow> 's \<Rightarrow> bool" where
  "dso_fits K cs maplength fd g s \<longleftrightarrow>
    (let st = find_exec_size cs; target = dso_target K (hd cs) maplength fd g s in
      unat (ms_size st) \<le> 0x10000000 \<and>
      (st_to_load g > 1 \<longrightarrow> 0x10000000 \<le> st_addr g) \<and>
      (0 < ms_size st \<longrightarrow>
        window_ok target (ucast (ms_size st)) \<and>
        (case dso_window target (ms_size st) of
           None \<Rightarrow> False
         | Some (hmm, _, _) \<Rightarrow> ms_mapstart st \<le> hmm)))"

text \<open>
  Runs of the loader: the static variables and the mask windows of the objects loaded so far,
  the most recent one first.  The kernel state may be any state at each step, and a load that
  fails leaves its effect on the static variables behind.
\<close>

inductive loads :: "'s sys \<Rightarrow> statics \<Rightarrow> (u64 \<times> u64) list \<Rightarrow> bool" for K where
  loads_init: "loads K statics0 []"
| loads_dyn: "\<lbrakk>loads K g ws; dso_fits K cs maplength fd g s;
     dl_map_segments K fd header True cs maplength holes l g s = Some (e, l', g', s')\<rbrakk>
   \<Longrightarrow> loads K g' (if e = None \<and> 0 < ms_size (find_exec_size cs)
                    then (l_exec_start l', l_exec_end l') # ws else ws)"
| loads_exec: "\<lbrakk>loads K g ws;
     dl_map_segments K fd header False cs maplength holes l g s = Some (e, l', g', s')\<rbrakk>
   \<Longrightarrow> loads K g' ws"

definition below :: "u64 \<times> u64 \<Rightarrow> u64 \<times> u64 \<Rightarrow> bool" where
  "below w1 w2 \<longleftrightarrow> snd w1 < fst w2"

definition loads_inv :: "statics \<Rightarrow> (u64 \<times> u64) list \<Rightarrow> bool" where
  "loads_inv g ws \<longleftrightarrow>
    st_to_load g \<ge> 1 \<and> (ws \<noteq> [] \<longrightarrow> st_to_load g > 1) \<and>
    (\<forall>w\<in>set ws. unat (st_addr g) \<le> unat (fst w) + 0x10000000 \<and> fst w \<le> snd w) \<and>
    sorted_wrt below ws"

text \<open>A new window lies below the address the loader stepped down from.\<close>

lemma new_window_below:
  assumes "window_ok target (ucast sz)" "dso_window target sz = Some (hmm, om, am)"
    "unat sz \<le> 0x10000000" "ms \<le> hmm"
  shows "unat am < unat target" "om \<le> am" "unat (hmm - ms) \<le> unat om + 0x10000000"
    "unat (hmm - ms) \<le> unat am"
proof -
  have ok: "dso_ok (target, sz)" using assms(1) by (simp add: dso_ok_def)
  have w: "dso_window (fst (target, sz)) (snd (target, sz)) = Some (hmm, om, am)"
    using assms(2) by simp
  have "unat am + 1 \<le> unat target"
    using exec_window_laws(3) [OF assms(1)] assms(2) by (simp add: dso_window_eq)
  then show "unat am < unat target" by simp
  show "om \<le> am" using dso.confined [OF ok w] order_trans by blast
  have h: "unat hmm + unat sz = unat am + 1" using dso.place_segment [OF ok w] by simp
  have t: "unat am + 1 - unat om < 2 * unat sz" using dso.tight [OF ok w] by simp
  have m: "unat (hmm - ms) = unat hmm - unat ms" using assms(4) by (rule unat_minus_le)
  show "unat (hmm - ms) \<le> unat om + 0x10000000" using h t m assms(3) by linarith
  have "0 < unat sz" using assms(1) by (simp add: window_ok_def unat_ucast_up)
  then show "unat (hmm - ms) \<le> unat am" using h m by linarith
qed

lemma dso_target_later:
  assumes "st_to_load g > 1" "0x10000000 \<le> st_addr g"
  shows "unat (dso_target K c maplength fd g s) = unat (st_addr g) - 0x10000000"
  using assms by (simp add: dso_target_def unat_minus_le)

lemma loads_inv_dyn:
  assumes inv: "loads_inv g ws" and fits: "dso_fits K (c # cs) maplength fd g s"
    and run: "dl_map_segments K fd header True (c # cs) maplength holes l g s = Some (e, l', g', s')"
    and pos: "0 < ms_size (find_exec_size (c # cs))"
  shows "loads_inv g' ((l_exec_start l', l_exec_end l') # ws) \<and> st_to_load g' > 1 \<or>
    loads_inv g' ws \<and> e \<noteq> None"
proof -
  let ?sz = "ms_size (find_exec_size (c # cs))" and ?ms = "ms_mapstart (find_exec_size (c # cs))"
  let ?t = "dso_target K c maplength fd g s"
  obtain e1 l1 s1 where p: "place_dyn K c (c # cs) maplength fd l g s = Some (e1, l1, g', s1)"
    and x: "l_exec_start l' = l_exec_start l1" "l_exec_end l' = l_exec_end l1"
    and e: "e = None \<longrightarrow> e1 = None"
    using dl_map_segments_dyn [OF run] by blast
  obtain hmm where w: "dso_window ?t ?sz = Some (hmm, l_exec_start l', l_exec_end l')"
    and a: "st_addr g' = hmm - ?ms"
    and n: "st_to_load g' = (if e1 = None then st_to_load g + 1 else st_to_load g)"
    using place_dyn_exec [OF p pos] unfolding x by blast
  have ok: "window_ok ?t (ucast ?sz)" "unat ?sz \<le> 0x10000000" "?ms \<le> hmm"
    "st_to_load g > 1 \<longrightarrow> 0x10000000 \<le> st_addr g"
    using fits pos w unfolding dso_fits_def Let_def by simp_all
  note nw = new_window_below [OF ok(1) w ok(2,3), folded a]
  have old: "l_exec_end l' < fst v \<and> unat (st_addr g') \<le> unat (fst v) + 0x10000000"
    if "v \<in> set ws" for v
  proof -
    have "st_to_load g > 1" using inv that by (auto simp: loads_inv_def)
    then have "unat ?t = unat (st_addr g) - 0x10000000" using ok(4) by (simp add: dso_target_later)
    moreover have "unat (st_addr g) \<le> unat (fst v) + 0x10000000"
      using inv that by (simp add: loads_inv_def)
    ultimately have "unat (l_exec_end l') < unat (fst v)" using nw(1) by linarith
    then show ?thesis using nw(4) by (simp add: word_less_nat_alt)
  qed
  have "loads_inv g' ((l_exec_start l', l_exec_end l') # ws) \<and> st_to_load g' > 1" if "e1 = None"
    using inv n that nw old by (auto simp: loads_inv_def below_def)
  moreover have "loads_inv g' ws" if "e1 \<noteq> None"
    using inv n that old by (auto simp: loads_inv_def)
  ultimately show ?thesis using e by blast
qed

lemma loads_inv_tail: "loads_inv g (w # ws) \<Longrightarrow> st_to_load g > 1 \<Longrightarrow> loads_inv g ws"
  by (simp add: loads_inv_def)

lemma loads_invariant: "loads K g ws \<Longrightarrow> loads_inv g ws"
proof (induction rule: loads.induct)
  case loads_init
  show ?case by (simp add: loads_inv_def statics0_def)
next
  case (loads_dyn g ws cs maplength fd s header holes l e l' g' s')
  then obtain c cs' where cs: "cs = c # cs'" by (cases cs) (auto simp: dl_map_segments_def)
  show ?case
  proof (cases "0 < ms_size (find_exec_size cs)")
    case True
    then show ?thesis
      using loads_inv_dyn [OF loads_dyn.IH loads_dyn.hyps(2,3) [unfolded cs]] loads_inv_tail
      unfolding cs by (cases e) auto
  next
    case False
    then have "ms_size (find_exec_size (c # cs')) = 0" by (simp add: cs word_gt_0)
    moreover obtain e1 l1 s1 where "place_dyn K c (c # cs') maplength fd l g s = Some (e1, l1, g', s1)"
      using dl_map_segments_dyn [OF loads_dyn.hyps(3) [unfolded cs]] by blast
    ultimately have "g' = g" using place_dyn_no_exec by fast
    then show ?thesis using False loads_dyn.IH by simp
  qed
next
  case (loads_exec g ws fd header cs maplength holes l s e l' g' s')
  then have "g' = g" by (auto simp: dl_map_segments_def Let_def split: list.splits prod.splits)
  then show ?case using loads_exec.IH by simp
qed

text \<open>
  C7: In every run of the loader the mask windows of the loaded shared objects are pairwise
  disjoint, so a masked indirect call of one object cannot reach the code window of another one.
\<close>

theorem loads_windows_disjoint:
  assumes "loads K g ws" "i < j" "j < length ws"
    and "ws ! i = (om1, am1)" "ws ! j = (om2, am2)"
  shows "{om1..am1} \<inter> {om2..am2} = {}"
proof -
  have "below (ws ! i) (ws ! j)"
    using loads_invariant [OF assms(1)] assms(2,3) by (simp add: loads_inv_def sorted_wrt_nth_less)
  then have "am1 < om2" using assms by (simp add: below_def)
  then show ?thesis by auto
qed

text \<open>
  Two objects loaded one after the other by a kernel that honours every address hint.
\<close>

definition demo_kernel :: "unit sys" where
  "demo_kernel = \<lparr>sys_mmap = \<lambda>a len prot flags fd off s. (if a = 0 \<and> flags AND MAP_FIXED = 0 then 0x7ffff7fc0000 else a, s),
     sys_munmap = \<lambda>a len s. s, sys_mprotect = \<lambda>a len prot s. (0, s),
     sys_memset0 = \<lambda>a len s. s, sys_set_vma_name = \<lambda>a len nm s. s,
     sys_decorate_maps = False, sys_pagesize = 0x1000\<rparr>"

definition demo_cmds :: "loadcmd list" where
  "demo_cmds =
    [\<lparr>lc_mapstart = 0, lc_mapend = 0x1000, lc_dataend = 0x1000, lc_allocend = 0x1000,
      lc_mapalign = 0x1000, lc_mapoff = 0, lc_prot = 1\<rparr>,
     \<lparr>lc_mapstart = 0x1000, lc_mapend = 0x6000, lc_dataend = 0x6000, lc_allocend = 0x6000,
      lc_mapalign = 0x1000, lc_mapoff = 0x1000, lc_prot = 5\<rparr>]"

definition demo_map :: link_map where
  "demo_map = \<lparr>l_addr = 0, l_name = ''libdemo.so'', l_map_start = 0, l_map_end = 0,
     l_contiguous = False, l_phdr = 0, l_exec_start = 0, l_exec_end = 0\<rparr>"

definition demo_ehdr :: ehdr where
  "demo_ehdr = \<lparr>e_phoff = 64, e_phnum = 8\<rparr>"

lemma demo_load1:
  "dl_map_segments demo_kernel 3 demo_ehdr True demo_cmds 0x6000 True demo_map statics0 () =
    Some (None, demo_map\<lparr>l_addr := 0x7fffe7fba000, l_map_start := 0x7fffe7fba000,
      l_map_end := 0x7fffe7fc0000, l_contiguous := True, l_phdr := 64,
      l_exec_start := 0x7fffe7fb8000, l_exec_end := 0x7fffe7fbffff\<rparr>,
      \<lparr>st_addr = 0x7fffe7fba000, st_to_load = 2\<rparr>, ())"
  by code_simp

lemma demo_load2:
  "dl_map_segments demo_kernel 3 demo_ehdr True demo_cmds 0x6000 True demo_map
     \<lparr>st_addr = 0x7fffe7fba000, st_to_load = 2\<rparr> () =
    Some (None, demo_map\<lparr>l_addr := 0x7fffd7faa000, l_map_start := 0x7fffd7faa000,
      l_map_end := 0x7fffd7fb0000, l_contiguous := True, l_phdr := 64,
      l_exec_start := 0x7fffd7fa8000, l_exec_end := 0x7fffd7faffff\<rparr>,
      \<lparr>st_addr = 0x7fffd7faa000, st_to_load = 3\<rparr>, ())"
  by code_simp

lemma demo_exec: "find_exec_size demo_cmds = \<lparr>ms_size = 0x5000, ms_mapstart = 0x1000\<rparr>"
  by code_simp

lemma demo_fits:
  "dso_fits demo_kernel demo_cmds 0x6000 3 statics0 ()"
  "dso_fits demo_kernel demo_cmds 0x6000 3 \<lparr>st_addr = 0x7fffe7fba000, st_to_load = 2\<rparr> ()"
proof -
  have t1: "dso_target demo_kernel (hd demo_cmds) 0x6000 3 statics0 () = 0x7fffe7fc0000" by code_simp
  have w1: "dso_window 0x7fffe7fc0000 0x5000 = Some (0x7fffe7fbb000, 0x7fffe7fb8000, 0x7fffe7fbffff)"
    by code_simp
  have k1: "window_ok 0x7fffe7fc0000 (ucast (0x5000 :: u32))" by (simp add: window_eval)
  show "dso_fits demo_kernel demo_cmds 0x6000 3 statics0 ()"
    using k1 by (simp add: dso_fits_def Let_def t1 w1 demo_exec)
  let ?g = "\<lparr>st_addr = 0x7fffe7fba000, st_to_load = 2\<rparr>"
  have t2: "dso_target demo_kernel (hd demo_cmds) 0x6000 3 ?g () = 0x7fffd7fba000" by code_simp
  have w2: "dso_window 0x7fffd7fba000 0x5000 = Some (0x7fffd7fab000, 0x7fffd7fa8000, 0x7fffd7faffff)"
    by code_simp
  have k2: "window_ok 0x7fffd7fba000 (ucast (0x5000 :: u32))" by (simp add: window_eval)
  show "dso_fits demo_kernel demo_cmds 0x6000 3 ?g ()"
    using k2 by (simp add: dso_fits_def Let_def t2 w2 demo_exec)
qed

theorem loads_windows_disjoint_witness:
  "loads demo_kernel \<lparr>st_addr = 0x7fffd7faa000, st_to_load = 3\<rparr>
     [(0x7fffd7fa8000, 0x7fffd7faffff), (0x7fffe7fb8000, 0x7fffe7fbffff)] \<and>
   {0x7fffd7fa8000..0x7fffd7faffff} \<inter> {0x7fffe7fb8000..0x7fffe7fbffff} = ({} :: u64 set)"
proof -
  let ?w1 = "(0x7fffe7fb8000, 0x7fffe7fbffff)" and ?w2 = "(0x7fffd7fa8000, 0x7fffd7faffff)"
  have "loads demo_kernel \<lparr>st_addr = 0x7fffe7fba000, st_to_load = 2\<rparr> [?w1]"
    using loads_dyn [OF loads_init demo_fits(1) demo_load1] by (simp add: demo_exec)
  from loads_dyn [OF this demo_fits(2) demo_load2]
  have "loads demo_kernel \<lparr>st_addr = 0x7fffd7faa000, st_to_load = 3\<rparr> [?w2, ?w1]"
    by (simp add: demo_exec)
  with loads_windows_disjoint [OF this, of 0 1] show ?thesis by simp
qed

text \<open>The masks of a loaded object are those of a window, whose segment is at its place in the object.\<close>

lemma dyn_window:
  assumes run: "dl_map_segments K fd header True cs maplength holes l g s = Some (None, l', g', s')"
    and st: "find_exec_size cs = \<lparr>ms_size = sz, ms_mapstart = ms\<rparr>" "lc_mapstart (hd cs) = 0"
    and ok: "window_ok (dso_target K (hd cs) maplength fd g s) (ucast sz)"
  shows "dso_window (dso_target K (hd cs) maplength fd g s) sz = Some (l_addr l' + ms, l_exec_start l', l_exec_end l')"
proof -
  obtain c cs' where cs: "cs = c # cs'" using run by (cases cs) (auto simp: dl_map_segments_def)
  let ?r = "(dso_target K c maplength fd g s, sz)"
  have pos: "0 < ms_size (find_exec_size (c # cs'))"
    using ok st by (auto simp: cs window_ok_def unat_ucast_up word_gt_0)
  obtain e1 l1 s1 where p: "place_dyn K c (c # cs') maplength fd l g s = Some (e1, l1, g', s1)"
    and x: "l_exec_start l' = l_exec_start l1" "l_exec_end l' = l_exec_end l1" "e1 = None"
    and a: "l_map_start l' = l_map_start l1" "l_addr l' = l_map_start l' - lc_mapstart c"
    using dl_map_segments_dyn [OF run [unfolded cs]] by blast
  obtain hmm where w: "dso_window (fst ?r) (snd ?r) = Some (hmm, l_exec_start l', l_exec_end l')"
    and b: "l_map_start l1 = hmm - ms"
    using place_dyn_exec [OF p pos] st x by (auto simp: cs)
  have h: "l_addr l' + ms = hmm" using a b st(2) by (simp add: cs)
  then show ?thesis using w by (simp add: cs)
qed

text \<open>
  C5: The masks stored in a loaded object describe that object.  When \<open>_dl_map_segments\<close> succeeds
  on a position-independent object whose first segment has address 0, its executable segment
  lies where the masks say: every masked value is in the window from \<open>l_exec_start\<close> to
  \<open>l_exec_end\<close>, every address of the executable segment at its load address is unchanged by
  masking, and the last byte of the segment is the AND mask.
\<close>

theorem dyn_masks_describe_segment:
  assumes run: "dl_map_segments K fd header True cs maplength holes l g s = Some (None, l', g', s')"
    and st: "find_exec_size cs = \<lparr>ms_size = sz, ms_mapstart = ms\<rparr>" "lc_mapstart (hd cs) = 0"
    and ok: "window_ok (dso_target K (hd cs) maplength fd g s) (ucast sz)"
  shows "unat (l_addr l' + ms) + unat sz = unat (l_exec_end l') + 1 \<and>
    range (mask_target (l_exec_start l') (l_exec_end l')) = {l_exec_start l'..l_exec_end l'} \<and>
    (\<forall>t. l_addr l' + ms \<le> t \<and> t \<le> l_exec_end l' \<longrightarrow>
      mask_target (l_exec_start l') (l_exec_end l') t = t)"
proof -
  let ?r = "(dso_target K (hd cs) maplength fd g s, sz)"
  have dok: "dso_ok ?r" using ok by (simp add: dso_ok_def)
  have w: "dso_window (fst ?r) (snd ?r) = Some (l_addr l' + ms, l_exec_start l', l_exec_end l')"
    using dyn_window [OF run st ok] by simp
  have "unat (l_addr l' + ms) + unat sz = unat (l_exec_end l') + 1" using dso.place_segment [OF dok w] by simp
  with dso.onto [OF dok w] dso.segment_fixed [OF dok w] show ?thesis by blast
qed

theorem dyn_masks_describe_segment_witness:
  "mask_target 0x7fffe7fb8000 0x7fffe7fbffff 0x7fffe7fbc123 = 0x7fffe7fbc123"
proof -
  have t1: "dso_target demo_kernel (hd demo_cmds) 0x6000 3 statics0 () = 0x7fffe7fc0000" by code_simp
  have k1: "window_ok 0x7fffe7fc0000 (ucast (0x5000 :: u32))" by (simp add: window_eval)
  have m0: "lc_mapstart (hd demo_cmds) = 0" by code_simp
  show ?thesis
    using dyn_masks_describe_segment [OF demo_load1 demo_exec m0] t1 k1 by simp
qed

text \<open>
  An object without an executable segment that is loaded after the first one is never mapped:
  the placement succeeds without a system call and without touching \<open>l_map_start\<close>, so the
  loader continues with the load address computed from the old value of that field.
\<close>

theorem no_exec_segment_not_mapped:
  assumes "\<forall>c\<in>set cs. lc_prot c \<le> 3" "st_to_load g > 1"
  shows "place_dyn K c cs maplength fd l g s = Some (None, l, g, s)"
proof -
  have "find_exec_size cs = \<lparr>ms_size = 0, ms_mapstart = 0\<rparr>"
    using assms(1) by (induction cs) auto
  then show ?thesis using assms(2) by (simp add: place_dyn_def)
qed

theorem no_exec_segment_not_mapped_witness:
  "place_dyn demo_kernel (hd demo_cmds) [hd demo_cmds] 0x1000 3 demo_map
     \<lparr>st_addr = 0x7fffe7fba000, st_to_load = 2\<rparr> () =
   Some (None, demo_map, \<lparr>st_addr = 0x7fffe7fba000, st_to_load = 2\<rparr>, ())"
  by (rule no_exec_segment_not_mapped) (simp_all add: demo_cmds_def)

section \<open>Alignment\<close>

definition mmap_fixed_law :: "'s sys \<Rightarrow> bool" where
  "mmap_fixed_law K \<longleftrightarrow>
    (\<forall>a len prot flags fd off s. flags AND MAP_FIXED \<noteq> 0 \<longrightarrow>
      fst (sys_mmap K a len prot flags fd off s) \<in> {a, MAP_FAILED})"

lemma unat_align_up:
  assumes "k < 64" "unat b + 2 ^ k \<le> 2 ^ 64"
  shows "unat (align_up b (2 ^ k)) = (unat b + (2 ^ k - 1)) div 2 ^ k * 2 ^ k"
proof -
  have "- (2 ^ k) = NOT (mask k :: u64)" by (simp add: not_eq_complement mask_eq_exp_minus_1)
  moreover have "unat (b + 2 ^ k - 1) = unat b + (2 ^ k - 1)"
  proof -
    have "b + 2 ^ k - 1 = b + mask k" by (simp add: mask_eq_exp_minus_1)
    moreover have "unat (mask k :: u64) = 2 ^ k - 1" using assms(1) by (intro unat_mask_le) simp
    ultimately show ?thesis
      using assms(2) by (simp only: unat_word_ariths(1)) simp
  qed
  ultimately show ?thesis by (simp add: align_up_def unat_and_not_mask)
qed

lemma round_up_bounds:
  fixes b p :: nat
  assumes "0 < p"
  shows "b \<le> (b + (p - 1)) div p * p" "(b + (p - 1)) div p * p < b + p"
proof -
  have e: "(b + (p - 1)) div p * p + (b + (p - 1)) mod p = b + (p - 1)" by simp
  have m: "(b + (p - 1)) mod p < p" using assms by simp
  show "b \<le> (b + (p - 1)) div p * p" using e m assms by linarith
  show "(b + (p - 1)) div p * p < b + p" using e assms by linarith
qed

definition reserve_length :: "loadcmd \<Rightarrow> u64 \<Rightarrow> u64" where
  "reserve_length c maplength =
    (if maplength \<ge> lc_mapalign c then maplength + lc_mapalign c else 2 * lc_mapalign c)"

definition reserve_start :: "'s sys \<Rightarrow> loadcmd \<Rightarrow> u64 \<Rightarrow> u64 \<Rightarrow> 's \<Rightarrow> u64" where
  "reserve_start K c mappref maplength s =
    fst (sys_mmap K mappref (reserve_length c maplength) PROT_NONE (MAP_ANONYMOUS OR MAP_COPY) (- 1) 0 s)"

lemma dl_map_segment_overaligned:
  assumes "mmap_fixed_law K" "sys_pagesize K < lc_mapalign c"
    and "fst (dl_map_segment K c mappref maplength fd s) \<noteq> MAP_FAILED"
  shows "fst (dl_map_segment K c mappref maplength fd s) =
    align_up (reserve_start K c mappref maplength s) (lc_mapalign c)"
proof -
  obtain b s1 where 1: "sys_mmap K mappref (reserve_length c maplength) 0 0x822 (- 1) 0 s = (b, s1)"
    by (rule prod.exhaust)
  obtain r s2 where 2: "sys_mmap K (align_up b (lc_mapalign c)) maplength (lc_prot c) 0x812 fd
      (lc_mapoff c) s1 = (r, s2)"
    by (rule prod.exhaust)
  have "fst (sys_mmap K (align_up b (lc_mapalign c)) maplength (lc_prot c) 0x812 fd (lc_mapoff c) s1)
      \<in> {align_up b (lc_mapalign c), MAP_FAILED}"
    using assms(1) by (simp add: mmap_fixed_law_def)
  then have "r = align_up b (lc_mapalign c) \<or> r = MAP_FAILED" unfolding 2 by simp
  moreover have "fst (dl_map_segment K c mappref maplength fd s) = (if b = MAP_FAILED then b else r)"
    using assms(2) [unfolded not_le [symmetric]] by (simp add: dl_map_segment_def Let_def 1 2 flip: reserve_length_def)
  moreover have "reserve_start K c mappref maplength s = b" by (simp add: reserve_start_def 1)
  ultimately show ?thesis using assms(3) by (simp split: if_splits)
qed

lemma reserve_length_room:
  assumes "lc_mapalign c = 2 ^ k" "k < 63" "unat maplength + 2 ^ k < 2 ^ 64"
  shows "unat maplength + 2 ^ k \<le> unat (reserve_length c maplength)"
proof (cases "lc_mapalign c \<le> maplength")
  case True
  have "unat (maplength + 2 ^ k) = unat maplength + 2 ^ k"
    using assms by (subst unat_word_ariths(1)) (simp add: unat_exp_less)
  then show ?thesis using True assms by (simp add: reserve_length_def)
next
  case False
  have "unat (2 * 2 ^ k :: u64) = 2 ^ Suc k"
    using assms(2) unat_exp_less [of "Suc k", where 'a = 64] by simp
  moreover have "unat maplength < 2 ^ k"
    using False assms(1,2) by (simp add: word_le_nat_alt unat_exp_less)
  ultimately show ?thesis using False assms(1) by (simp add: reserve_length_def)
qed

text \<open>
  A segment with an alignment above the page size is mapped at a multiple of its alignment and
  inside the address range that was reserved for it, for every kernel whose fixed mappings are
  placed at the requested address or fail.
\<close>

theorem dl_map_segment_aligned:
  assumes "mmap_fixed_law K" "sys_pagesize K < lc_mapalign c" "lc_mapalign c = 2 ^ k" "k < 63"
    and "unat maplength + 2 ^ k < 2 ^ 64"
    and "unat (reserve_start K c mappref maplength s) + unat (reserve_length c maplength) \<le> 2 ^ 64"
    and "dl_map_segment K c mappref maplength fd s = (r, s')" "r \<noteq> MAP_FAILED"
  shows "2 ^ k dvd unat r \<and> unat (reserve_start K c mappref maplength s) \<le> unat r \<and>
    unat r + unat maplength \<le>
      unat (reserve_start K c mappref maplength s) + unat (reserve_length c maplength)"
proof -
  let ?b = "reserve_start K c mappref maplength s"
  note room = reserve_length_room [OF assms(3,4,5)]
  have "r = align_up ?b (2 ^ k)"
    using dl_map_segment_overaligned [OF assms(1,2), of mappref maplength fd s] assms(3,7,8) by simp
  then have "unat r = (unat ?b + (2 ^ k - 1)) div 2 ^ k * 2 ^ k"
    using assms(4,6) room by (simp add: unat_align_up)
  with round_up_bounds [of "2 ^ k" "unat ?b"] room show ?thesis by auto
qed

definition demo_aligned :: loadcmd where
  "demo_aligned = \<lparr>lc_mapstart = 0, lc_mapend = 0x1000, lc_dataend = 0x1000, lc_allocend = 0x1000,
     lc_mapalign = 2 ^ 21, lc_mapoff = 0, lc_prot = 5\<rparr>"

theorem dl_map_segment_aligned_witness:
  "dl_map_segment demo_kernel demo_aligned 0x7ffff7fc0000 0x6000 3 () = (0x7ffff8000000, ()) \<and>
   2 ^ 21 dvd unat (0x7ffff8000000 :: u64)"
proof -
  have r: "dl_map_segment demo_kernel demo_aligned 0x7ffff7fc0000 0x6000 3 () = (0x7ffff8000000, ())"
    by code_simp
  have s: "reserve_start demo_kernel demo_aligned 0x7ffff7fc0000 0x6000 () = 0x7ffff7fc0000"
    "reserve_length demo_aligned 0x6000 = 0x400000"
    by code_simp+
  have k: "mmap_fixed_law demo_kernel"
    by (auto simp: mmap_fixed_law_def demo_kernel_def)
  have "2 ^ 21 dvd unat (0x7ffff8000000 :: u64)"
    using dl_map_segment_aligned [OF k _ _ _ _ _ r, of 21]
    by (simp add: s demo_kernel_def demo_aligned_def)
  with r show ?thesis by blast
qed

section \<open>Zero-filled memory\<close>

text \<open>
  The documented effect of the calls on memory, seen through a function that reads a byte of
  the kernel state: \<open>memset\<close> and a successful fixed anonymous mapping zero their range and keep
  what lies below it; changing protections or names keeps the contents.
\<close>

definition zeroed :: "('s \<Rightarrow> u64 \<Rightarrow> u8) \<Rightarrow> u64 \<Rightarrow> u64 \<Rightarrow> 's \<Rightarrow> 's \<Rightarrow> bool" where
  "zeroed mem a n s s' \<longleftrightarrow>
    (\<forall>x. (a \<le> x \<and> unat x < unat a + unat n \<longrightarrow> mem s' x = 0) \<and> (x < a \<longrightarrow> mem s' x = mem s x))"

definition zeroing_kernel :: "'s sys \<Rightarrow> ('s \<Rightarrow> u64 \<Rightarrow> u8) \<Rightarrow> bool" where
  "zeroing_kernel K mem \<longleftrightarrow>
    (\<forall>a n s. zeroed mem a n s (sys_memset0 K a n s)) \<and>
    (\<forall>a n prot s. fst (sys_mmap K a n prot 0x32 (- 1) 0 s) \<noteq> MAP_FAILED \<longrightarrow>
       zeroed mem a n s (snd (sys_mmap K a n prot 0x32 (- 1) 0 s))) \<and>
    (\<forall>a n prot s. mem (snd (sys_mprotect K a n prot s)) = mem s) \<and>
    (\<forall>a n nm s. mem (sys_set_vma_name K a n nm s) = mem s)"

lemma zero_last_page_zeroes:
  assumes "zeroing_kernel K mem" "zero_last_page K c zero zeropage s = (None, s')" "zero \<le> zeropage"
  shows "zeroed mem zero (zeropage - zero) s s'"
proof (cases "zeropage > zero")
  case True
  have k: "zeroed mem a n s (sys_memset0 K a n s)" "mem (snd (sys_mprotect K a n prot s)) = mem s"
    for a n prot s using assms(1) by (simp_all add: zeroing_kernel_def)
  have p: "mem s1 = mem s" if "sys_mprotect K a n prot s = (r, s1)" for a n prot s r s1
    using k(2) [of a n prot s] that by simp
  show ?thesis
    using True assms(2) k by (auto simp: zero_last_page_def Let_def zeroed_def dest!: p split: if_splits prod.splits)
next
  case False
  then show ?thesis using assms(2,3) by (auto simp: zero_last_page_def zeroed_def word_le_nat_alt)
qed

lemma map_zero_pages_zeroes:
  assumes "zeroing_kernel K mem" "map_zero_pages K nm c zeropage zeroend s = (None, s')" "zeropage \<le> zeroend"
  shows "zeroed mem zeropage (zeroend - zeropage) s s'"
proof (cases "zeroend > zeropage")
  case True
  obtain r s1 where m: "sys_mmap K zeropage (zeroend - zeropage) (lc_prot c) 0x32 (- 1) 0 s = (r, s1)"
    by (rule prod.exhaust)
  have "r \<noteq> MAP_FAILED" "mem s' = mem s1"
    using True assms(1,2) m by (auto simp: map_zero_pages_def zeroing_kernel_def split: if_splits)
  moreover have "r \<noteq> MAP_FAILED \<Longrightarrow> zeroed mem zeropage (zeroend - zeropage) s s1"
    using assms(1) m unfolding zeroing_kernel_def by (metis fst_conv snd_conv)
  ultimately show ?thesis by (simp add: zeroed_def)
next
  case False
  then show ?thesis using assms(2,3) by (auto simp: map_zero_pages_def zeroed_def word_le_nat_alt)
qed

lemma zeroed_join:
  assumes "zeroed mem a (b - a) s s1" "zeroed mem b (c - b) s1 s2" "a \<le> b" "b \<le> c"
  shows "zeroed mem a (c - a) s s2"
  unfolding zeroed_def
proof (intro allI conjI impI)
  fix x
  have u: "unat (b - a) = unat b - unat a" "unat (c - b) = unat c - unat b" "unat (c - a) = unat c - unat a"
    using assms(3,4) by (auto intro!: unat_minus_le)
  note le = assms(3,4) [unfolded word_le_nat_alt]
  show "mem s2 x = mem s x" if "x < a"
    using that assms by (auto simp: zeroed_def)
  show "mem s2 x = 0" if "a \<le> x \<and> unat x < unat a + unat (c - a)"
  proof (cases "x < b")
    case True
    then have "unat x < unat a + unat (b - a)" using u le by (simp add: word_less_nat_alt)
    then show ?thesis using assms(1,2) that True by (auto simp: zeroed_def)
  next
    case False
    then have "unat x < unat b + unat (c - b)" using that u le by (simp add: word_less_nat_alt)
    then show ?thesis using assms(2) False by (auto simp: zeroed_def not_less)
  qed
qed

text \<open>
  C18: After a segment is processed successfully, every byte between the end of its file data and
  the end of its allocation is zero and nothing below that range has changed, whatever the page
  size and for writable and read-only segments alike.
\<close>

theorem zero_fill_zeroes:
  assumes K: "zeroing_kernel K mem" and run: "zero_fill K l c s = (None, s')"
    and bss: "lc_dataend c < lc_allocend c" "l_addr l + lc_dataend c \<le> l_addr l + lc_allocend c"
    and page: "sys_pagesize K = 2 ^ p" "p < 64" "unat (l_addr l + lc_dataend c) + 2 ^ p \<le> 2 ^ 64"
  shows "zeroed mem (l_addr l + lc_dataend c) (lc_allocend c - lc_dataend c) s s'"
proof -
  define zero where "zero = l_addr l + lc_dataend c"
  define zeroend where "zeroend = l_addr l + lc_allocend c"
  define zp where "zp = (if zeroend < align_up zero (2 ^ p) then zeroend else align_up zero (2 ^ p))"
  have n: "zeroend - zero = lc_allocend c - lc_dataend c" by (simp add: zero_def zeroend_def)
  have "unat zero \<le> unat (align_up zero (2 ^ p))"
    using page round_up_bounds(1) [of "2 ^ p" "unat zero"] by (simp add: unat_align_up zero_def)
  then have le: "zero \<le> zp" "zp \<le> zeroend"
    using bss(2) by (auto simp: zp_def zero_def zeroend_def word_le_nat_alt word_less_nat_alt)
  have zpe: "zp = (let zeropage = (zero + sys_pagesize K - 1) AND NOT (sys_pagesize K - 1)
                   in if zeroend < zeropage then zeroend else zeropage)"
    by (simp add: zp_def align_up_def page minus_eq_not_minus_1 Let_def)
  obtain s1 where s1: "zero_last_page K c zero zp s = (None, s1)"
    "map_zero_pages K (l_name l) c zp zeroend s1 = (None, s')"
    using run bss(1) unfolding zero_fill_def zero_def [symmetric] zeroend_def [symmetric]
    by (auto simp: Let_def zpe split: prod.splits option.splits)
  from zeroed_join [OF zero_last_page_zeroes [OF K s1(1) le(1)] map_zero_pages_zeroes [OF K s1(2) le(2)] le]
  show ?thesis by (simp add: n flip: zero_def)
qed

definition clear :: "u64 \<Rightarrow> u64 \<Rightarrow> (u64 \<Rightarrow> u8) \<Rightarrow> u64 \<Rightarrow> u8" where
  "clear a n m x = (if a \<le> x \<and> unat x < unat a + unat n then 0 else m x)"

definition memory_kernel :: "(u64 \<Rightarrow> u8) sys" where
  "memory_kernel = \<lparr>sys_mmap = \<lambda>a len prot flags fd off m. (a, clear a len m),
     sys_munmap = \<lambda>a len m. m, sys_mprotect = \<lambda>a len prot m. (0, m),
     sys_memset0 = clear, sys_set_vma_name = \<lambda>a len nm m. m,
     sys_decorate_maps = True, sys_pagesize = 0x1000\<rparr>"

definition demo_data :: loadcmd where
  "demo_data = \<lparr>lc_mapstart = 0x6000, lc_mapend = 0x7000, lc_dataend = 0x6123, lc_allocend = 0x9010,
     lc_mapalign = 0x1000, lc_mapoff = 0x6000, lc_prot = 1\<rparr>"

theorem zero_fill_zeroes_witness:
  "fst (zero_fill memory_kernel demo_map demo_data (\<lambda>_. 7)) = None \<and>
   snd (zero_fill memory_kernel demo_map demo_data (\<lambda>_. 7)) 0x9000 = 0 \<and>
   snd (zero_fill memory_kernel demo_map demo_data (\<lambda>_. 7)) 0x6122 = 7"
proof -
  have K: "zeroing_kernel memory_kernel (\<lambda>m. m)"
    by (auto simp: zeroing_kernel_def memory_kernel_def zeroed_def clear_def)
  have e: "fst (zero_fill memory_kernel demo_map demo_data (\<lambda>_. 7)) = None"
    by (simp add: zero_fill_def zero_last_page_def map_zero_pages_def memory_kernel_def demo_map_def demo_data_def)
  then have "zero_fill memory_kernel demo_map demo_data (\<lambda>_. 7) =
    (None, snd (zero_fill memory_kernel demo_map demo_data (\<lambda>_. 7)))" by (simp add: prod_eq_iff)
  from zero_fill_zeroes [OF K this, of 12] e show ?thesis
    by (simp add: zeroed_def demo_map_def demo_data_def memory_kernel_def)
qed

section \<open>Names of zero-filled mappings\<close>

text \<open>
  The name built for a zero-filled mapping fits the 80-byte buffer with its terminator for
  every object name, and the part taken from the object name contains only printable characters
  outside the set the kernel reserves.
\<close>

theorem bss_name_fits:
  "length (bss_name nm) < 80 \<and>
   (\<forall>ch\<in>set (bss_name nm). 0x20 \<le> (of_char ch :: nat) \<and> (of_char ch :: nat) < 0x7f \<and>
      ch \<notin> set [CHR 0x5C, CHR 0x60, CHR ''$'', CHR ''['', CHR '']''])"
proof -
  have "0x20 \<le> (of_char (sanitize ch) :: nat) \<and> (of_char (sanitize ch) :: nat) < 0x7f \<and>
      sanitize ch \<notin> set [CHR 0x5C, CHR 0x60, CHR ''$'', CHR ''['', CHR '']'']" for ch
    by (simp add: sanitize_def)
  then show ?thesis by (auto simp: bss_name_def Let_def)
qed

theorem bss_name_fits_witness:
  "bss_name ''/opt/lib$x.so'' = '' glibc: .bss /opt/lib!x.so'' \<and> CHR ''$'' \<notin> set (bss_name ''/opt/lib$x.so'')"
proof -
  have "bss_name ''/opt/lib$x.so'' = '' glibc: .bss /opt/lib!x.so''" by code_simp
  moreover have "CHR ''$'' \<notin> set (bss_name ''/opt/lib$x.so'')"
    using bss_name_fits [of "''/opt/lib$x.so''"] by auto
  ultimately show ?thesis by blast
qed

end
