(* ===== verification/Loader_Main.thy ===== *)
theory Loader_Main
  imports Loader_Map
begin

text \<open>
  Moving the main binary (\<open>src/glibc-platypus/sysdeps/unix/sysv/linux/dl-sysdep.c\<close>): the part of
  \<open>_dl_sysdep_parse_arguments\<close> that scans the program headers, chooses a new place for the image,
  copies it, sets the protections and rewrites the arguments handed to \<open>dl_main\<close>.  The auxiliary
  vector and the program headers found in memory are inputs; the system calls are those of
  \<open>Loader_Map\<close> and \<open>memcpy\<close>.  Reading \<open>init_addr\<close> before a \<open>PT_PHDR\<close> entry has set it is the
  outcome \<open>None\<close>.
\<close>

section \<open>Data\<close>

record phdr =
  p_type :: u32
  p_flags :: u32
  p_vaddr :: u64
  p_memsz :: u64

abbreviation (input) "PT_LOAD \<equiv> (1 :: u32)"
abbreviation (input) "PT_PHDR \<equiv> (6 :: u32)"
abbreviation (input) "PF_X \<equiv> (1 :: u32)"
abbreviation (input) "PF_W \<equiv> (2 :: u32)"
abbreviation (input) "PF_R \<equiv> (4 :: u32)"

record dl_main_arguments =
  ar_phdr :: u64
  ar_phnum :: u32
  ar_user_entry :: u64
  ar_exec_start :: u64
  ar_exec_end :: u64

record main_scan =
  sc_found_exec :: bool
  sc_exec_range :: mitig_struct
  sc_init_addr :: "u64 option"
  sc_map_start :: u64
  sc_map_end :: u64
  sc_contiguous :: bool
  sc_expected :: u64
  sc_to_mitigate :: int

record 's sys_main = "'s sys" +
  sys_memcpy :: "u64 \<Rightarrow> u64 \<Rightarrow> u64 \<Rightarrow> 's \<Rightarrow> 's"

section \<open>Operations\<close>

definition get_protection_flags :: "u32 \<Rightarrow> int" where
  "get_protection_flags flags =
    (let prot = 0;
         prot = (if flags AND PF_R \<noteq> 0 then prot OR PROT_READ else prot);
         prot = (if flags AND PF_W \<noteq> 0 then prot OR PROT_WRITE else prot);
         prot = (if flags AND PF_X \<noteq> 0 then prot OR PROT_EXEC else prot)
     in prot)"

definition scan_init :: "int \<Rightarrow> main_scan" where
  "scan_init to_mitigate =
    \<lparr>sc_found_exec = False, sc_exec_range = \<lparr>ms_size = 0, ms_mapstart = 0\<rparr>, sc_init_addr = None,
     sc_map_start = NOT 0, sc_map_end = 0, sc_contiguous = True, sc_expected = 0,
     sc_to_mitigate = to_mitigate\<rparr>"

definition scan_load :: "u64 \<Rightarrow> u64 \<Rightarrow> phdr \<Rightarrow> main_scan \<Rightarrow> main_scan" where
  "scan_load pagesize init_addr ph sc =
    (let mapstart = init_addr + (p_vaddr ph AND NOT (pagesize - 1));
         sc = (if sc_map_start sc > mapstart then sc\<lparr>sc_map_start := mapstart\<rparr> else sc);
         sc = (if sc_contiguous sc \<and> sc_expected sc \<noteq> 0 \<and> sc_expected sc \<noteq> mapstart
               then sc\<lparr>sc_contiguous := False\<rparr> else sc);
         allocend = init_addr + p_vaddr ph + p_memsz ph;
         sc = (if sc_map_end sc < allocend then sc\<lparr>sc_map_end := allocend\<rparr> else sc);
         sc = sc\<lparr>sc_expected := (allocend + pagesize - 1) AND NOT (pagesize - 1)\<rparr>
     in if \<not> sc_found_exec sc \<and> p_flags ph AND PF_X \<noteq> 0
        then sc\<lparr>sc_found_exec := True,
                sc_exec_range := \<lparr>ms_size = ucast (allocend - mapstart), ms_mapstart = mapstart\<rparr>\<rparr>
        else sc)"

fun scan_phdrs :: "u64 \<Rightarrow> u64 \<Rightarrow> phdr list \<Rightarrow> main_scan \<Rightarrow> main_scan option" where
  "scan_phdrs pagesize args_phdr [] sc = Some sc"
| "scan_phdrs pagesize args_phdr (ph # phs) sc =
    (if p_type ph = PT_PHDR
     then scan_phdrs pagesize args_phdr phs
            (sc\<lparr>sc_init_addr := Some (args_phdr - p_vaddr ph), sc_to_mitigate := 1\<rparr>)
     else if p_type ph = PT_LOAD
     then case sc_init_addr sc of
            None \<Rightarrow> None
          | Some init_addr \<Rightarrow> scan_phdrs pagesize args_phdr phs (scan_load pagesize init_addr ph sc)
     else scan_phdrs pagesize args_phdr phs sc)"

fun protect_segments ::
    "('s, 'm) sys_main_scheme \<Rightarrow> u64 \<Rightarrow> phdr list \<Rightarrow> 's \<Rightarrow> 's" where
  "protect_segments K new_addr [] s = s"
| "protect_segments K new_addr (ph # phs) s =
    (if p_type ph = PT_LOAD
     then
       let prot = get_protection_flags (p_flags ph);
           seg_addr = new_addr + p_vaddr ph - p_vaddr ph mod 0x1000;
           seg_size = p_memsz ph + p_vaddr ph mod 0x1000;
           seg_size = seg_size + 0x1000 - seg_size mod 0x1000
       in protect_segments K new_addr phs (snd (sys_mprotect K seg_addr seg_size prot s))
     else protect_segments K new_addr phs s)"

text \<open>
  The initial stack is a list of words: the argument count, the arguments and a null word, the
  environment and a null word, the auxiliary vector.  Running off its end is \<open>None\<close>.
\<close>

fun skip_environ :: "u64 list \<Rightarrow> u64 list option" where
  "skip_environ [] = None"
| "skip_environ (w # ws) = (if w = 0 then Some ws else skip_environ ws)"

abbreviation (input) "AT_PHDR \<equiv> (3 :: nat)"
abbreviation (input) "AT_PHNUM \<equiv> (5 :: nat)"
abbreviation (input) "AT_PAGESZ \<equiv> (6 :: nat)"
abbreviation (input) "AT_ENTRY \<equiv> (9 :: nat)"
abbreviation (input) "AT_FPUCW \<equiv> (18 :: nat)"
abbreviation (input) "AT_MINSIGSTKSZ \<equiv> (51 :: nat)"

fun auxv_loop :: "u64 list \<Rightarrow> (nat \<Rightarrow> u64) \<Rightarrow> (nat \<Rightarrow> u64) option" where
  "auxv_loop [] vals = None"
| "auxv_loop [t] vals = (if t = 0 then Some vals else None)"
| "auxv_loop (t # v # ws) vals =
    (if t = 0 then Some vals
     else auxv_loop ws (if t \<le> 51 then vals(unat t := v) else vals))"

definition dl_parse_auxv :: "u64 \<Rightarrow> u64 \<Rightarrow> u64 list \<Rightarrow> (nat \<Rightarrow> u64) option" where
  "dl_parse_auxv entry_point minsigstksz av =
    auxv_loop av ((\<lambda>_. 0)(AT_ENTRY := entry_point, AT_PAGESZ := 0x1000, AT_FPUCW := 0x037f,
                          AT_MINSIGSTKSZ := minsigstksz))"

text \<open>
  The move itself, after the program headers were scanned.  The second loop reads the program
  headers of the image at \<open>init_addr\<close>, given as \<open>image_phdrs\<close>.
\<close>

definition move_main ::
    "('s, 'm) sys_main_scheme \<Rightarrow> main_scan \<Rightarrow> u64 \<Rightarrow> phdr list \<Rightarrow> (nat \<Rightarrow> u64) \<Rightarrow> dl_main_arguments \<Rightarrow> 's
      \<Rightarrow> (dl_main_arguments \<times> 's) option" where
  "move_main K sc init_addr image_phdrs vals args s = do {
     let exec_range = sc_exec_range sc;
     (hmm, exec_start, exec_end) \<leftarrow> main_window (ms_mapstart exec_range) (ms_size exec_range);
     let args = args\<lparr>ar_exec_end := exec_end, ar_exec_start := exec_start\<rparr>;
     let pref = hmm - (ms_mapstart exec_range - init_addr);
     let len = sc_map_end sc - sc_map_start sc;
     let (new_addr, s) = sys_mmap K pref len 3 (MAP_PRIVATE OR MAP_ANONYMOUS) (- 1) 0 s;
     let s = sys_memcpy K new_addr init_addr len s;
     let s = protect_segments K new_addr image_phdrs s;
     let args = args\<lparr>ar_phdr := vals AT_PHDR - init_addr + new_addr,
                     ar_user_entry := vals AT_ENTRY - init_addr + new_addr\<rparr>;
     let s = sys_munmap K init_addr (sc_map_end sc) s;
     Some (args, s)
   }"

definition dl_sysdep_parse_arguments ::
    "('s, 'm) sys_main_scheme \<Rightarrow> u64 \<Rightarrow> u64 \<Rightarrow> u64 list \<Rightarrow> (u64 \<Rightarrow> u32 \<Rightarrow> phdr list) \<Rightarrow> (u64 \<Rightarrow> phdr list)
      \<Rightarrow> int \<Rightarrow> dl_main_arguments \<Rightarrow> 's \<Rightarrow> (dl_main_arguments \<times> int \<times> 's) option" where
  "dl_sysdep_parse_arguments K entry_point minsigstksz stack phdrs_at image_phdrs to_mitigate args s =
    (case stack of
       [] \<Rightarrow> None
     | argc # rest \<Rightarrow> do {
         av \<leftarrow> skip_environ (drop (unat argc + 1) rest);
         vals \<leftarrow> dl_parse_auxv entry_point minsigstksz av;
         let args = args\<lparr>ar_phdr := vals AT_PHDR, ar_phnum := ucast (vals AT_PHNUM),
                         ar_user_entry := vals AT_ENTRY\<rparr>;
         if ar_user_entry args \<noteq> entry_point
         then do {
           sc \<leftarrow> scan_phdrs (vals AT_PAGESZ) (ar_phdr args) (phdrs_at (ar_phdr args) (ar_phnum args))
                   (scan_init to_mitigate);
           init_addr \<leftarrow> sc_init_addr sc;
           (args, s) \<leftarrow> move_main K sc init_addr (image_phdrs init_addr) vals args s;
           Some (args, sc_to_mitigate sc, s)
         }
         else Some (args, to_mitigate, s)
       })"

section \<open>The extent of the image\<close>

abbreviation seg_start :: "u64 \<Rightarrow> u64 \<Rightarrow> phdr \<Rightarrow> u64" where
  "seg_start pagesize init_addr ph \<equiv> init_addr + (p_vaddr ph AND NOT (pagesize - 1))"

abbreviation seg_end :: "u64 \<Rightarrow> phdr \<Rightarrow> u64" where
  "seg_end init_addr ph \<equiv> init_addr + p_vaddr ph + p_memsz ph"

lemma scan_load_extent:
  "sc_map_start (scan_load pagesize i ph sc) = min (sc_map_start sc) (seg_start pagesize i ph)"
  "sc_map_end (scan_load pagesize i ph sc) = max (sc_map_end sc) (seg_end i ph)"
  "sc_init_addr (scan_load pagesize i ph sc) = sc_init_addr sc"
  "sc_to_mitigate (scan_load pagesize i ph sc) = sc_to_mitigate sc"
  by (auto simp: scan_load_def Let_def min_def max_def)

lemma scan_load_exec:
  "sc_found_exec (scan_load pagesize i ph sc) \<longleftrightarrow> sc_found_exec sc \<or> p_flags ph AND PF_X \<noteq> 0"
  "sc_exec_range (scan_load pagesize i ph sc) =
    (if \<not> sc_found_exec sc \<and> p_flags ph AND PF_X \<noteq> 0
     then \<lparr>ms_size = ucast (seg_end i ph - seg_start pagesize i ph), ms_mapstart = seg_start pagesize i ph\<rparr>
     else sc_exec_range sc)"
  by (auto simp: scan_load_def Let_def)

lemma scan_phdrs_extent:
  assumes "scan_phdrs pagesize a phs sc = Some sc'" "sc_init_addr sc = Some i"
    and "\<forall>ph\<in>set phs. p_type ph \<noteq> PT_PHDR"
  shows "sc_init_addr sc' = Some i \<and> sc_to_mitigate sc' = sc_to_mitigate sc \<and>
    sc_map_start sc' \<le> sc_map_start sc \<and> sc_map_end sc \<le> sc_map_end sc' \<and>
    (\<forall>ph\<in>set phs. p_type ph = PT_LOAD \<longrightarrow>
      sc_map_start sc' \<le> seg_start pagesize i ph \<and> seg_end i ph \<le> sc_map_end sc')"
  using assms
proof (induction phs arbitrary: sc)
  case (Cons ph phs)
  show ?case
  proof (cases "p_type ph = PT_LOAD")
    case True
    then have "scan_phdrs pagesize a phs (scan_load pagesize i ph sc) = Some sc'"
      using Cons.prems by simp
    from Cons.IH [OF this] show ?thesis
      using Cons.prems True by (auto simp: scan_load_extent)
  qed (use Cons in auto)
qed simp

text \<open>
  C22: The program header scan finds the whole image: after a header table that starts with its
  own \<open>PT_PHDR\<close> entry the mitigation is switched on, the load bias is known, and the computed
  extent covers every loadable segment.
\<close>

theorem scan_covers_image:
  assumes "scan_phdrs pagesize a (ph0 # phs) (scan_init m) = Some sc"
    and "p_type ph0 = PT_PHDR" "\<forall>ph\<in>set phs. p_type ph \<noteq> PT_PHDR"
  shows "sc_init_addr sc = Some (a - p_vaddr ph0) \<and> sc_to_mitigate sc = 1 \<and>
    (\<forall>ph\<in>set phs. p_type ph = PT_LOAD \<longrightarrow>
      sc_map_start sc \<le> seg_start pagesize (a - p_vaddr ph0) ph \<and>
      seg_end (a - p_vaddr ph0) ph \<le> sc_map_end sc)"
proof -
  let ?sc = "(scan_init m)\<lparr>sc_init_addr := Some (a - p_vaddr ph0), sc_to_mitigate := 1\<rparr>"
  have "scan_phdrs pagesize a phs ?sc = Some sc" using assms(1,2) by simp
  from scan_phdrs_extent [OF this _ assms(3)] show ?thesis by simp
qed

definition demo_phdrs :: "phdr list" where
  "demo_phdrs =
    [\<lparr>p_type = 6, p_flags = 4, p_vaddr = 0x40, p_memsz = 0x2d8\<rparr>,
     \<lparr>p_type = 1, p_flags = 4, p_vaddr = 0, p_memsz = 0x628\<rparr>,
     \<lparr>p_type = 1, p_flags = 5, p_vaddr = 0x1630, p_memsz = 0x2100\<rparr>,
     \<lparr>p_type = 1, p_flags = 6, p_vaddr = 0x4db0, p_memsz = 0x260\<rparr>]"

lemma demo_scan:
  "scan_phdrs 0x1000 0x555555554040 demo_phdrs (scan_init 0) =
    Some \<lparr>sc_found_exec = True, sc_exec_range = \<lparr>ms_size = 0x2730, ms_mapstart = 0x555555555000\<rparr>,
      sc_init_addr = Some 0x555555554000, sc_map_start = 0x555555554000, sc_map_end = 0x555555559010,
      sc_contiguous = True, sc_expected = 0x55555555a000, sc_to_mitigate = 1\<rparr>"
  by code_simp

theorem scan_covers_image_witness:
  "seg_end 0x555555554000 (demo_phdrs ! 3) \<le> 0x555555559010"
proof -
  have "scan_phdrs 0x1000 0x555555554040 (hd demo_phdrs # tl demo_phdrs) (scan_init 0) =
      scan_phdrs 0x1000 0x555555554040 demo_phdrs (scan_init 0)"
    by (simp add: demo_phdrs_def)
  from scan_covers_image [OF this [unfolded demo_scan]] show ?thesis
    by (simp add: demo_phdrs_def)
qed

section \<open>The moved image\<close>

definition hint_law :: "('s, 'm) sys_main_scheme \<Rightarrow> bool" where
  "hint_law K \<longleftrightarrow> (\<forall>a len prot flags fd off s. fst (sys_mmap K a len prot flags fd off s) = a)"

lemma protect_segments_munmap:
  assumes "move_main K sc i img vals args s = Some (args', s')"
  shows "\<exists>s1. s' = sys_munmap K i (sc_map_end sc) s1"
  using assms by (auto simp: move_main_def Let_def split: bind_splits prod.splits)


text \<open>
  The request that should remove the old image names a wrong length: the end address of the
  image instead of its size.  For an image in the upper half of the user address space, where
  position-independent executables are mapped, the range reaches past the end of that address
  space, so the kernel rejects it and the old image stays mapped outside every mask window.
\<close>

theorem old_image_unmap_range:
  assumes "move_main K sc i img vals args s = Some (args', s')"
    and "2 ^ 46 \<le> unat i" "i \<le> sc_map_end sc"
  shows "\<exists>len s1. s' = sys_munmap K i len s1 \<and> 2 ^ 47 \<le> unat i + unat len"
  using protect_segments_munmap [OF assms(1)] assms(2,3) by (auto simp: word_le_nat_alt)

definition hinting_kernel :: "unit sys_main" where
  "hinting_kernel = \<lparr>sys_mmap = \<lambda>a len prot flags fd off s. (a, s),
     sys_munmap = \<lambda>a len s. s, sys_mprotect = \<lambda>a len prot s. (0, s),
     sys_memset0 = \<lambda>a len s. s, sys_set_vma_name = \<lambda>a len nm s. s,
     sys_decorate_maps = False, sys_pagesize = 0x1000, sys_memcpy = \<lambda>d a len s. s\<rparr>"

definition demo_args :: dl_main_arguments where
  "demo_args = \<lparr>ar_phdr = 0, ar_phnum = 0, ar_user_entry = 0, ar_exec_start = 0, ar_exec_end = 0\<rparr>"

definition demo_vals :: "nat \<Rightarrow> u64" where
  "demo_vals = (\<lambda>_. 0)(3 := 0x555555554040, 9 := 0x555555555630)"

definition demo_found :: main_scan where
  "demo_found = \<lparr>sc_found_exec = True, sc_exec_range = \<lparr>ms_size = 0x2730, ms_mapstart = 0x555555555000\<rparr>,
      sc_init_addr = Some 0x555555554000, sc_map_start = 0x555555554000, sc_map_end = 0x555555559010,
      sc_contiguous = True, sc_expected = 0x55555555a000, sc_to_mitigate = 1\<rparr>"

lemma demo_move:
  "move_main hinting_kernel demo_found 0x555555554000 demo_phdrs demo_vals demo_args () =
    Some (\<lparr>ar_phdr = 0x55554554c040, ar_phnum = 0, ar_user_entry = 0x55554554d630,
           ar_exec_start = 0x55554554c000, ar_exec_end = 0x55554554ffff\<rparr>, ())"
  by code_simp


theorem old_image_unmap_range_witness:
  "\<exists>len s1. () = sys_munmap hinting_kernel 0x555555554000 len s1 \<and> 2 ^ 47 \<le> unat (0x555555554000 :: u64) + unat len"
  using old_image_unmap_range [OF demo_move] by (simp add: demo_found_def)

definition ignoring_kernel :: "unit sys_main" where
  "ignoring_kernel = hinting_kernel\<lparr>sys_mmap := \<lambda>a len prot flags fd off s. (0x7ffff7d00000, s)\<rparr>"

text \<open>
  The masks of the main binary do not depend on where the kernel placed the copy: the
  result of \<open>mmap\<close> is not compared with the requested address.  With a kernel that ignores the
  hint, the entry point the loader jumps to is not an address of the window the masks admit.
\<close>

theorem unchecked_hint_breaks_masks:
  "\<exists>args'. move_main ignoring_kernel demo_found 0x555555554000 demo_phdrs demo_vals demo_args () = Some (args', ()) \<and>
     mask_target (ar_exec_start args') (ar_exec_end args') (ar_user_entry args') \<noteq> ar_user_entry args'"
proof -
  have "move_main ignoring_kernel demo_found 0x555555554000 demo_phdrs demo_vals demo_args () =
    Some (\<lparr>ar_phdr = 0x7ffff7d00040, ar_phnum = 0, ar_user_entry = 0x7ffff7d01630,
           ar_exec_start = 0x55554554c000, ar_exec_end = 0x55554554ffff\<rparr>, ())"
    by code_simp
  moreover have "mask_target 0x55554554c000 0x55554554ffff 0x7ffff7d01630 \<noteq> 0x7ffff7d01630" by code_simp
  ultimately show ?thesis by simp
qed

end
