(* ===== verification/Loader_Reloc.thy ===== *)
theory Loader_Reloc
  imports Loader_Map
begin

text \<open>
  Dynamic relocations (\<open>src/glibc-platypus/sysdeps/x86_64/dl-machine.h\<close>): \<open>elf_machine_rela\<close> with
  the relocation types Platypus adds, \<open>elf_machine_rela_relative\<close> and \<open>elf_machine_lazy_rel\<close>, in
  the configuration of the shared loader on x86-64 (not the bootstrap).  Memory is a function
  from addresses to bytes.  Symbol resolution, indirect function resolvers and thread-local
  storage are fields of an environment record; dereferencing a null pointer is the outcome
  \<open>Crash\<close>, a call that does not return the outcome \<open>Fatal\<close>.
\<close>

section \<open>Data\<close>

record esym =
  st_name :: string
  st_type :: nat
  st_shndx :: u16
  st_value :: u64
  st_size :: u64

record rela =
  r_offset :: u64
  r_info :: u64
  r_addend :: u64

record reloc_map = link_map +
  l_id :: nat
  l_tls_modid :: u64
  l_tls_offset :: u64
  l_relocated :: bool
  l_is_executable :: bool
  l_has_jump_slot_reloc :: bool
  l_mach_plt :: u64
  l_mach_gotplt :: u64

datatype reloc_msg =
    Relink_Ifunc string
  | Overflow_32 string
  | Overflow_PC32 string
  | Different_Size string

datatype reloc_fatal = Ifunc_In_Executable string | Bad_Type u64 bool | Static_Tls_Error

record reloc_state =
  rs_mem :: mem
  rs_map :: reloc_map
  rs_placeholder_plts :: "u64 list"
  rs_log :: "reloc_msg list"

datatype outcome = Done reloc_state | Fatal reloc_fatal | Crash

text \<open>
  What the relocation code calls: \<open>RESOLVE_MAP\<close>, the indirect function resolvers, the static TLS
  allocation (the offset of the object afterwards, or nothing), the TLS descriptor allocation,
  the addresses of the three descriptor entry points, and the global flags it reads.
\<close>

record reloc_env =
  en_resolve :: "reloc_map \<Rightarrow> esym option \<Rightarrow> u64 \<Rightarrow> reloc_map option \<times> esym option"
  en_call :: "u64 \<Rightarrow> u64"
  en_check_static_tls :: "reloc_map \<Rightarrow> u64 option"
  en_try_static_tls :: "reloc_map \<Rightarrow> u64 option"
  en_make_tlsdesc_dynamic :: "reloc_map \<Rightarrow> u64 \<Rightarrow> u64"
  en_tlsdesc_undefweak :: u64
  en_tlsdesc_dynamic :: u64
  en_tlsdesc_return :: u64
  en_dl_verbose :: bool
  en_to_mitigate :: bool

abbreviation (input) "R_NONE \<equiv> (0 :: u64)"
abbreviation (input) "R_64 \<equiv> (1 :: u64)"
abbreviation (input) "R_PC32 \<equiv> (2 :: u64)"
abbreviation (input) "R_COPY \<equiv> (5 :: u64)"
abbreviation (input) "R_GLOB_DAT \<equiv> (6 :: u64)"
abbreviation (input) "R_JUMP_SLOT \<equiv> (7 :: u64)"
abbreviation (input) "R_RELATIVE \<equiv> (8 :: u64)"
abbreviation (input) "R_32 \<equiv> (10 :: u64)"
abbreviation (input) "R_DTPMOD64 \<equiv> (16 :: u64)"
abbreviation (input) "R_DTPOFF64 \<equiv> (17 :: u64)"
abbreviation (input) "R_TPOFF64 \<equiv> (18 :: u64)"
abbreviation (input) "R_SIZE32 \<equiv> (32 :: u64)"
abbreviation (input) "R_SIZE64 \<equiv> (33 :: u64)"
abbreviation (input) "R_TLSDESC \<equiv> (36 :: u64)"
abbreviation (input) "R_IRELATIVE \<equiv> (37 :: u64)"
abbreviation (input) "R_RELATIVE64 \<equiv> (38 :: u64)"
abbreviation (input) "R_EXPERIMENT \<equiv> (1337 :: u64)"
abbreviation (input) "R_ORMASK \<equiv> (1338 :: u64)"
abbreviation (input) "R_ANDMASK \<equiv> (1339 :: u64)"
abbreviation (input) "R_CALLBACK_TABLE \<equiv> (1340 :: u64)"
abbreviation (input) "R_CALLBACK_MAYBE \<equiv> (1341 :: u64)"
abbreviation (input) "R_DSO_BASE \<equiv> (1342 :: u64)"

definition elf_r_type :: "u64 \<Rightarrow> u64" where
  "elf_r_type info = info AND 0xffffffff"

section \<open>Helpers of the relocation code\<close>

definition set64 :: "u64 \<Rightarrow> u64 \<Rightarrow> reloc_state \<Rightarrow> reloc_state" where
  "set64 a v s = s\<lparr>rs_mem := store64 a v (rs_mem s)\<rparr>"

definition set32 :: "u64 \<Rightarrow> u32 \<Rightarrow> reloc_state \<Rightarrow> reloc_state" where
  "set32 a v s = s\<lparr>rs_mem := store32 a v (rs_mem s)\<rparr>"

definition log_msg :: "reloc_msg \<Rightarrow> reloc_state \<Rightarrow> reloc_state" where
  "log_msg e s = s\<lparr>rs_log := rs_log s @ [e]\<rparr>"

fun symbol_address :: "reloc_map option \<Rightarrow> esym option \<Rightarrow> u64 option" where
  "symbol_address m None = Some 0"
| "symbol_address m (Some sy) =
    (if st_shndx sy = 0xfff1 then Some (st_value sy)
     else case m of None \<Rightarrow> None | Some sym_map \<Rightarrow> Some (l_addr sym_map + st_value sy))"

definition is_placeholder_name :: "esym option \<Rightarrow> bool" where
  "is_placeholder_name s = (case s of None \<Rightarrow> False | Some sy \<Rightarrow> take 11 (st_name sy) = ''placeholder'')"

fun fill_placeholder :: "u64 \<Rightarrow> u64 list \<Rightarrow> u64 list" where
  "fill_placeholder v [] = []"
| "fill_placeholder v (p # ps) = (if p = 0 then v # ps else p # fill_placeholder v ps)"

text \<open>The value of the symbol after an indirect function was resolved.\<close>

definition resolve_ifunc ::
    "reloc_env \<Rightarrow> reloc_map option \<Rightarrow> esym option \<Rightarrow> esym option \<Rightarrow> bool \<Rightarrow> u64 \<Rightarrow> reloc_state
      \<Rightarrow> (u64 \<times> reloc_state) + reloc_fatal option" where
  "resolve_ifunc E sym_map sy refsym skip_ifunc value s =
    (case sy of
       None \<Rightarrow> Inl (value, s)
     | Some y \<Rightarrow>
         if st_type y = 10 \<and> st_shndx y \<noteq> 0 \<and> \<not> skip_ifunc
         then
           case (sym_map, refsym) of
             (Some m, Some r) \<Rightarrow>
               if l_id m \<noteq> l_id (rs_map s) \<and> \<not> l_relocated m
               then
                 if l_is_executable m then Inr (Some (Ifunc_In_Executable (st_name r)))
                 else Inl (en_call E value, log_msg (Relink_Ifunc (st_name r)) s)
               else Inl (en_call E value, s)
           | _ \<Rightarrow> Inr None
         else Inl (value, s))"

definition reloc_plt_got :: "bool \<Rightarrow> u64 \<Rightarrow> u64 \<Rightarrow> reloc_state \<Rightarrow> reloc_state" where
  "reloc_plt_got is_placeholder reloc_addr value s =
    set64 reloc_addr value
      (if is_placeholder
       then s\<lparr>rs_placeholder_plts :=
                fill_placeholder (l_addr (rs_map s) + load64 reloc_addr (rs_mem s)) (rs_placeholder_plts s)\<rparr>
       else s)"

definition reloc_tlsdesc ::
    "reloc_env \<Rightarrow> reloc_map option \<Rightarrow> esym option \<Rightarrow> rela \<Rightarrow> u64 \<Rightarrow> reloc_state \<Rightarrow> outcome" where
  "reloc_tlsdesc E sym_map sy reloc td s =
    (case sy of
       None \<Rightarrow> Done (set64 td (en_tlsdesc_undefweak E) (set64 (td + 8) (r_addend reloc) s))
     | Some y \<Rightarrow>
         (case sym_map of
            None \<Rightarrow> Crash
          | Some m \<Rightarrow>
              (case en_try_static_tls E m of
                 None \<Rightarrow>
                   Done (set64 td (en_tlsdesc_dynamic E)
                     (set64 (td + 8) (en_make_tlsdesc_dynamic E m (st_value y + r_addend reloc)) s))
               | Some tls_offset \<Rightarrow>
                   Done (set64 td (en_tlsdesc_return E)
                     (set64 (td + 8) (st_value y - tls_offset + r_addend reloc) s)))))"

definition reloc_32 :: "esym option \<Rightarrow> rela \<Rightarrow> u64 \<Rightarrow> u64 \<Rightarrow> reloc_state \<Rightarrow> outcome" where
  "reloc_32 refsym reloc reloc_addr value s =
    (let value = value + r_addend reloc;
         s = set32 reloc_addr (ucast value) s
     in if value > 0xffffffff
        then case refsym of None \<Rightarrow> Crash | Some r \<Rightarrow> Done (log_msg (Overflow_32 (st_name r)) s)
        else Done s)"

definition reloc_pc32 :: "esym option \<Rightarrow> rela \<Rightarrow> u64 \<Rightarrow> u64 \<Rightarrow> reloc_state \<Rightarrow> outcome" where
  "reloc_pc32 refsym reloc reloc_addr value s =
    (let value = value + (r_addend reloc - reloc_addr);
         s = set32 reloc_addr (ucast value) s
     in if value \<noteq> scast (ucast value :: u32)
        then case refsym of None \<Rightarrow> Crash | Some r \<Rightarrow> Done (log_msg (Overflow_PC32 (st_name r)) s)
        else Done s)"

definition reloc_copy ::
    "reloc_env \<Rightarrow> esym option \<Rightarrow> esym option \<Rightarrow> u64 \<Rightarrow> u64 \<Rightarrow> reloc_state \<Rightarrow> outcome" where
  "reloc_copy E sy refsym reloc_addr value s =
    (case sy of
       None \<Rightarrow> Done s
     | Some y \<Rightarrow>
         (case refsym of
            None \<Rightarrow> Crash
          | Some r \<Rightarrow>
              let n = min (st_size y) (st_size r);
                  s = s\<lparr>rs_mem := store_bytes reloc_addr (load_bytes value (unat n) (rs_mem s)) (rs_mem s)\<rparr>
              in if st_size y > st_size r \<or> st_size y < st_size r \<and> en_dl_verbose E
                 then Done (log_msg (Different_Size (st_name r)) s)
                 else Done s))"

section \<open>The relocation function\<close>

definition reloc_switch ::
    "reloc_env \<Rightarrow> bool \<Rightarrow> rela \<Rightarrow> u64 \<Rightarrow> reloc_map option \<Rightarrow> esym option \<Rightarrow> esym option \<Rightarrow> bool \<Rightarrow> u64
      \<Rightarrow> reloc_state \<Rightarrow> outcome" where
  "reloc_switch E is_placeholder reloc reloc_addr sym_map sy refsym skip_ifunc value s =
    (let r_type = elf_r_type (r_info reloc); map = rs_map s in
     if r_type = R_JUMP_SLOT
     then Done (reloc_plt_got is_placeholder reloc_addr value
                 (s\<lparr>rs_map := map\<lparr>l_has_jump_slot_reloc := True\<rparr>\<rparr>))
     else if r_type = R_GLOB_DAT
     then Done (reloc_plt_got is_placeholder reloc_addr value s)
     else if r_type = R_CALLBACK_TABLE \<or> r_type = R_CALLBACK_MAYBE
     then (case sym_map of
             None \<Rightarrow> Crash
           | Some m \<Rightarrow> Done (set64 reloc_addr (r_addend reloc + l_addr m) s))
     else if r_type = R_SIZE64
     then (case sy of
             None \<Rightarrow> Crash
           | Some y \<Rightarrow> Done (set64 reloc_addr (st_size y + r_addend reloc) s))
     else if r_type = R_DTPMOD64
     then (case sym_map of
             None \<Rightarrow> Done s
           | Some m \<Rightarrow> Done (set64 reloc_addr (l_tls_modid m) s))
     else if r_type = R_DTPOFF64
     then (case sy of
             None \<Rightarrow> Done s
           | Some y \<Rightarrow> Done (set64 reloc_addr (st_value y + r_addend reloc) s))
     else if r_type = R_TLSDESC then reloc_tlsdesc E sym_map sy reloc reloc_addr s
     else if r_type = R_TPOFF64
     then (case sy of
             None \<Rightarrow> Done s
           | Some y \<Rightarrow>
               (case sym_map of
                  None \<Rightarrow> Crash
                | Some m \<Rightarrow>
                    (case en_check_static_tls E m of
                       None \<Rightarrow> Fatal Static_Tls_Error
                     | Some tls_offset \<Rightarrow>
                         Done (set64 reloc_addr (st_value y + r_addend reloc - tls_offset) s))))
     else if r_type = R_ORMASK
     then Done (set64 reloc_addr (if en_to_mitigate E then l_exec_start map else 0) s)
     else if r_type = R_ANDMASK
     then Done (set64 reloc_addr (if en_to_mitigate E then l_exec_end map else 0xffffffffffffffff) s)
     else if r_type = R_64 \<or> r_type = R_DSO_BASE \<or> r_type = R_EXPERIMENT
     then Done (set64 reloc_addr (value + r_addend reloc) s)
     else if r_type = R_SIZE32
     then (case sy of
             None \<Rightarrow> Crash
           | Some y \<Rightarrow> reloc_32 refsym reloc reloc_addr (st_size y) s)
     else if r_type = R_32 then reloc_32 refsym reloc reloc_addr value s
     else if r_type = R_PC32 then reloc_pc32 refsym reloc reloc_addr value s
     else if r_type = R_COPY then reloc_copy E sy refsym reloc_addr value s
     else if r_type = R_IRELATIVE
     then
       let value = l_addr map + r_addend reloc
       in Done (set64 reloc_addr (if skip_ifunc then value else en_call E value) s)
     else Fatal (Bad_Type r_type False))"

definition elf_machine_rela ::
    "reloc_env \<Rightarrow> rela \<Rightarrow> esym option \<Rightarrow> u64 \<Rightarrow> bool \<Rightarrow> reloc_state \<Rightarrow> outcome" where
  "elf_machine_rela E reloc sy reloc_addr skip_ifunc s =
    (let is_placeholder = is_placeholder_name sy;
         r_type = elf_r_type (r_info reloc);
         map = rs_map s
     in if r_type = R_RELATIVE \<or> r_type = R_RELATIVE64
        then Done (set64 reloc_addr (l_addr map + r_addend reloc) s)
        else if r_type = R_NONE then Done s
        else
          let refsym = sy;
              (sym_map, sy) = en_resolve E map sy r_type
          in case symbol_address sym_map sy of
               None \<Rightarrow> Crash
             | Some value \<Rightarrow>
                 (case resolve_ifunc E sym_map sy refsym skip_ifunc value s of
                    Inr None \<Rightarrow> Crash
                  | Inr (Some err) \<Rightarrow> Fatal err
                  | Inl (value, s) \<Rightarrow>
                      reloc_switch E is_placeholder reloc reloc_addr sym_map sy refsym skip_ifunc value s))"

definition elf_machine_rela_relative :: "u64 \<Rightarrow> rela \<Rightarrow> u64 \<Rightarrow> mem \<Rightarrow> mem option" where
  "elf_machine_rela_relative addr reloc reloc_addr m =
    (if elf_r_type (r_info reloc) = R_RELATIVE64 then Some (store64 reloc_addr (addr + r_addend reloc) m)
     else if elf_r_type (r_info reloc) = R_RELATIVE then Some (store64 reloc_addr (addr + r_addend reloc) m)
     else None)"

definition elf_machine_lazy_rel ::
    "reloc_env \<Rightarrow> u64 \<Rightarrow> rela \<Rightarrow> (u64 \<Rightarrow> esym) \<Rightarrow> bool \<Rightarrow> reloc_state \<Rightarrow> outcome" where
  "elf_machine_lazy_rel E addr reloc symtab skip_ifunc s =
    (let reloc_addr = addr + r_offset reloc;
         r_type = elf_r_type (r_info reloc);
         map = rs_map s
     in if r_type = R_JUMP_SLOT
        then
          if l_mach_plt map = 0
          then Done (set64 reloc_addr (load64 reloc_addr (rs_mem s) + addr) s)
          else Done (set64 reloc_addr (l_mach_plt map + (reloc_addr - l_mach_gotplt map) * 2) s)
        else if r_type = R_TLSDESC
        then elf_machine_rela E reloc (Some (symtab (drop_bit 32 (r_info reloc)))) reloc_addr skip_ifunc s
        else if r_type = R_IRELATIVE
        then
          let value = l_addr map + r_addend reloc
          in Done (set64 reloc_addr (if skip_ifunc then value else en_call E value) s)
        else Fatal (Bad_Type r_type True))"

section \<open>Lemmas\<close>

lemma set64_simps [simp]:
  "rs_mem (set64 a v s) = store64 a v (rs_mem s)" "rs_map (set64 a v s) = rs_map s"
  "rs_placeholder_plts (set64 a v s) = rs_placeholder_plts s" "rs_log (set64 a v s) = rs_log s"
  by (simp_all add: set64_def)

lemma set32_simps [simp]:
  "rs_mem (set32 a v s) = store32 a v (rs_mem s)" "rs_map (set32 a v s) = rs_map s"
  "rs_placeholder_plts (set32 a v s) = rs_placeholder_plts s" "rs_log (set32 a v s) = rs_log s"
  by (simp_all add: set32_def)

lemma log_msg_simps [simp]:
  "rs_mem (log_msg e s) = rs_mem s" "rs_map (log_msg e s) = rs_map s"
  "rs_placeholder_plts (log_msg e s) = rs_placeholder_plts s"
  by (simp_all add: log_msg_def)

lemma store64_out: "8 \<le> unat (x - a) \<Longrightarrow> store64 a v m x = m x"
  by (rule store_bytes_out) simp_all

lemma store32_out: "4 \<le> unat (x - a) \<Longrightarrow> store32 a v m x = m x"
  by (rule store_bytes_out) simp_all

lemma resolve_ifunc_mem: "resolve_ifunc E m y r skip v s = Inl (v', s') \<Longrightarrow> rs_mem s' = rs_mem s \<and> rs_map s' = rs_map s"
  by (auto simp: resolve_ifunc_def split: option.splits if_splits)

text \<open>A reference that resolves to an ordinary symbol of a loaded object.\<close>

definition resolves :: "reloc_env \<Rightarrow> reloc_map \<Rightarrow> esym option \<Rightarrow> u64 \<Rightarrow> bool" where
  "resolves E mp sy t \<longleftrightarrow>
    (case en_resolve E mp sy t of (Some m, Some y) \<Rightarrow> st_type y \<noteq> 10 | _ \<Rightarrow> False)"

lemma rela_resolved:
  assumes "resolves E (rs_map s) sy (elf_r_type (r_info rl))" "elf_r_type (r_info rl) \<notin> {R_NONE, R_RELATIVE, R_RELATIVE64}"
  obtains m y val where
    "elf_machine_rela E rl sy a skip s = reloc_switch E (is_placeholder_name sy) rl a (Some m) (Some y) sy skip val s"
    "en_resolve E (rs_map s) sy (elf_r_type (r_info rl)) = (Some m, Some y)"
    "symbol_address (Some m) (Some y) = Some val"
proof -
  obtain m y where r: "en_resolve E (rs_map s) sy (elf_r_type (r_info rl)) = (Some m, Some y)" "st_type y \<noteq> 10"
    using assms(1) by (auto simp: resolves_def split: prod.splits option.splits)
  have "\<exists>val. symbol_address (Some m) (Some y) = Some val" by simp
  then obtain val where v: "symbol_address (Some m) (Some y) = Some val" by blast
  have "elf_machine_rela E rl sy a skip s = reloc_switch E (is_placeholder_name sy) rl a (Some m) (Some y) sy skip val s"
    using r v assms(2) by (simp add: elf_machine_rela_def resolve_ifunc_def Let_def del: symbol_address.simps)
  with r v show thesis by (intro that)
qed

lemma rela_ormask:
  assumes "elf_r_type (r_info rl) = R_ORMASK" "resolves E (rs_map s) sy R_ORMASK"
  shows "elf_machine_rela E rl sy a skip s =
    Done (set64 a (if en_to_mitigate E then l_exec_start (rs_map s) else 0) s)"
  by (rule rela_resolved [of E s sy rl a skip]) (use assms in \<open>simp_all add: reloc_switch_def\<close>)

lemma rela_andmask:
  assumes "elf_r_type (r_info rl) = R_ANDMASK" "resolves E (rs_map s) sy R_ANDMASK"
  shows "elf_machine_rela E rl sy a skip s =
    Done (set64 a (if en_to_mitigate E then l_exec_end (rs_map s) else 0xffffffffffffffff) s)"
  by (rule rela_resolved [of E s sy rl a skip]) (use assms in \<open>simp_all add: reloc_switch_def\<close>)

lemma mask_target_neutral: "mask_target 0 0xffffffffffffffff t = t"
proof -
  have "(0xffffffffffffffff :: u64) = - 1" by simp
  then show ?thesis unfolding mask_target_def by (simp only: or.right_neutral and.right_neutral)
qed

text \<open>
  C19: The two mask relocations arm the instrumentation of an object.  After the OR mask and the
  AND mask of an object are relocated, code that reads them back masks every target with the
  window of that object when the mitigation is on, and leaves every target alone when it is off
  (an unmodified program).
\<close>

theorem mask_relocs_effect:
  assumes "elf_r_type (r_info r1) = R_ORMASK" "resolves E (rs_map s) y1 R_ORMASK"
    and "elf_r_type (r_info r2) = R_ANDMASK" "resolves E (rs_map s) y2 R_ANDMASK"
    and "8 \<le> unat (a2 - a1)" "8 \<le> unat (a1 - a2)"
  shows "\<exists>s1 s2. elf_machine_rela E r1 y1 a1 skip s = Done s1 \<and> elf_machine_rela E r2 y2 a2 skip s1 = Done s2 \<and>
    (\<forall>t. mask_target (load64 a1 (rs_mem s2)) (load64 a2 (rs_mem s2)) t =
      (if en_to_mitigate E then mask_target (l_exec_start (rs_map s)) (l_exec_end (rs_map s)) t else t))"
proof -
  let ?s1 = "set64 a1 (if en_to_mitigate E then l_exec_start (rs_map s) else 0) s"
  let ?s2 = "set64 a2 (if en_to_mitigate E then l_exec_end (rs_map s) else 0xffffffffffffffff) ?s1"
  have "elf_machine_rela E r1 y1 a1 skip s = Done ?s1" by (rule rela_ormask [OF assms(1,2)])
  moreover have "elf_machine_rela E r2 y2 a2 skip ?s1 = Done ?s2"
    using rela_andmask [of r2 E ?s1 y2 a2 skip] assms(3,4) by simp
  moreover have "load64 a1 (rs_mem ?s2) = (if en_to_mitigate E then l_exec_start (rs_map s) else 0)"
    using assms(5,6) by (simp only: set64_simps load64_store64_other load64_store64)
  moreover have "load64 a2 (rs_mem ?s2) = (if en_to_mitigate E then l_exec_end (rs_map s) else 0xffffffffffffffff)"
    by (simp only: set64_simps load64_store64)
  ultimately show ?thesis
    by (intro exI [of _ ?s1] exI [of _ ?s2]) (simp only: mask_target_neutral split: if_split, simp)
qed

definition demo_env :: reloc_env where
  "demo_env = \<lparr>en_resolve = \<lambda>m y t. (Some m, y), en_call = \<lambda>a. a, en_check_static_tls = \<lambda>m. None,
     en_try_static_tls = \<lambda>m. None, en_make_tlsdesc_dynamic = \<lambda>m v. v, en_tlsdesc_undefweak = 0,
     en_tlsdesc_dynamic = 0, en_tlsdesc_return = 0, en_dl_verbose = False, en_to_mitigate = True\<rparr>"

definition demo_sym :: "string \<Rightarrow> esym" where
  "demo_sym n = \<lparr>st_name = n, st_type = 1, st_shndx = 0, st_value = 0, st_size = 8\<rparr>"

definition demo_reloc_state :: reloc_state where
  "demo_reloc_state = \<lparr>rs_mem = \<lambda>_. 0,
     rs_map = \<lparr>l_addr = 0x7fffe7fba000, l_name = ''libdemo.so'', l_map_start = 0x7fffe7fba000,
       l_map_end = 0x7fffe7fc0000, l_contiguous = True, l_phdr = 64, l_exec_start = 0x7fffe7fb8000,
       l_exec_end = 0x7fffe7fbffff, l_id = 1, l_tls_modid = 0, l_tls_offset = 0, l_relocated = False,
       l_is_executable = False, l_has_jump_slot_reloc = False, l_mach_plt = 0, l_mach_gotplt = 0\<rparr>,
     rs_placeholder_plts = replicate 10 0, rs_log = []\<rparr>"

theorem mask_relocs_effect_witness:
  "\<exists>s1 s2. elf_machine_rela demo_env \<lparr>r_offset = 0x100, r_info = 1338, r_addend = 0\<rparr> (Some (demo_sym ''or_mask''))
       0x100 False demo_reloc_state = Done s1 \<and>
     elf_machine_rela demo_env \<lparr>r_offset = 0x108, r_info = 1339, r_addend = 0\<rparr> (Some (demo_sym ''and_mask''))
       0x108 False s1 = Done s2 \<and>
     mask_target (load64 0x100 (rs_mem s2)) (load64 0x108 (rs_mem s2)) 0x1234 = 0x7fffe7fb9234"
proof -
  let ?r1 = "\<lparr>r_offset = 0x100, r_info = 1338, r_addend = 0\<rparr>" and ?r2 = "\<lparr>r_offset = 0x108, r_info = 1339, r_addend = 0\<rparr>"
  have t: "elf_r_type (r_info ?r1) = 1338" "elf_r_type (r_info ?r2) = 1339" by code_simp+
  have y: "resolves demo_env (rs_map demo_reloc_state) (Some (demo_sym ''or_mask'')) 1338"
    "resolves demo_env (rs_map demo_reloc_state) (Some (demo_sym ''and_mask'')) 1339"
    by (simp_all add: resolves_def demo_env_def demo_sym_def)
  have m: "mask_target 0x7fffe7fb8000 0x7fffe7fbffff 0x1234 = 0x7fffe7fb9234" by code_simp
  have "en_to_mitigate demo_env" "l_exec_start (rs_map demo_reloc_state) = 0x7fffe7fb8000"
    "l_exec_end (rs_map demo_reloc_state) = 0x7fffe7fbffff"
    by (simp_all add: demo_env_def demo_reloc_state_def)
  then show ?thesis
    using mask_relocs_effect [OF t(1) y(1) t(2) y(2), of "0x108" "0x100" False] m by force
qed

lemma rela_frame_mem:
  assumes "elf_machine_rela E rl sy a skip s = Done s'"
    and "elf_r_type (r_info rl) \<notin> {R_COPY, R_TLSDESC}" "8 \<le> unat (x - a)"
  shows "rs_mem s' x = rs_mem s x"
proof -
  have 1: "rs_mem s' x = rs_mem s0 x"
    if "reloc_switch E p rl a m y r skip val s0 = Done s'" for p m y r val s0
    using that assms(2,3)
    by (auto simp: reloc_switch_def reloc_plt_got_def reloc_32_def reloc_pc32_def Let_def
        store64_out store32_out split: if_splits option.splits)
  show ?thesis
    using assms 1
    by (auto simp: elf_machine_rela_def Let_def store64_out dest!: resolve_ifunc_mem
        split: if_splits prod.splits option.splits sum.splits)
qed

abbreviation same_map :: "reloc_state \<Rightarrow> reloc_state \<Rightarrow> bool" where
  "same_map s s' \<equiv> (rs_map s')\<lparr>l_has_jump_slot_reloc := True\<rparr> = (rs_map s)\<lparr>l_has_jump_slot_reloc := True\<rparr>"

lemma reloc_parts_map:
  "reloc_tlsdesc E m y rl a s = Done s' \<Longrightarrow> rs_map s' = rs_map s"
  "reloc_32 r rl a v s = Done s' \<Longrightarrow> rs_map s' = rs_map s"
  "reloc_pc32 r rl a v s = Done s' \<Longrightarrow> rs_map s' = rs_map s"
  "reloc_copy E y r a v s = Done s' \<Longrightarrow> rs_map s' = rs_map s"
  "rs_map (reloc_plt_got p a v s) = rs_map s"
  by (auto simp: reloc_tlsdesc_def reloc_32_def reloc_pc32_def reloc_copy_def reloc_plt_got_def Let_def split: option.splits if_splits)

lemma reloc_switch_map: "reloc_switch E p rl a m y r skip val s = Done s' \<Longrightarrow> same_map s s'"
  unfolding reloc_switch_def Let_def
  by (auto simp: reloc_parts_map(5) dest: reloc_parts_map(1-4) split: if_split_asm option.split_asm)

lemma rela_map_kept:
  assumes "elf_machine_rela E rl sy a skip s = Done s'"
  shows "same_map s s'"
  using assms by (auto simp: elf_machine_rela_def Let_def dest!: resolve_ifunc_mem dest: reloc_switch_map
      split: if_splits prod.splits option.splits sum.splits)

text \<open>
  C23: A relocation touches only the eight bytes it names.  Whatever its type (copy relocations and
  TLS descriptors apart, which are larger), whatever symbol resolution returns, the memory outside
  the relocated word is unchanged.
\<close>

theorem rela_frame:
  assumes "elf_machine_rela E rl sy a skip s = Done s'"
    and "elf_r_type (r_info rl) \<notin> {R_COPY, R_TLSDESC}" "8 \<le> unat (x - a)"
  shows "rs_mem s' x = rs_mem s x"
  using assms by (rule rela_frame_mem)

theorem rela_frame_witness:
  "elf_machine_rela demo_env \<lparr>r_offset = 0x100, r_info = 8, r_addend = 0x10\<rparr> None 0x100 False demo_reloc_state =
     Done (set64 0x100 0x7fffe7fba010 demo_reloc_state) \<and>
   rs_mem (set64 0x100 0x7fffe7fba010 demo_reloc_state) 0x108 = rs_mem demo_reloc_state 0x108"
proof -
  let ?r = "\<lparr>r_offset = 0x100, r_info = 8, r_addend = 0x10\<rparr>"
  have t: "elf_r_type (r_info ?r) = 8" by code_simp
  have d: "elf_machine_rela demo_env ?r None 0x100 False demo_reloc_state =
      Done (set64 0x100 0x7fffe7fba010 demo_reloc_state)"
    using t by (simp add: elf_machine_rela_def demo_reloc_state_def)
  show ?thesis using rela_frame [OF d, of "0x108"] d t by simp
qed

lemma fill_placeholder_free:
  "0 \<in> set ps \<Longrightarrow> \<exists>i<length ps. ps ! i = 0 \<and> (\<forall>j<i. ps ! j \<noteq> 0) \<and> fill_placeholder v ps = ps[i := v]"
proof (induction ps)
  case (Cons p ps)
  show ?case
  proof (cases "p = 0")
    case True
    then show ?thesis by (intro exI [of _ 0]) simp
  next
    case False
    then obtain i where "i < length ps" "ps ! i = 0" "\<forall>j<i. ps ! j \<noteq> 0" "fill_placeholder v ps = ps[i := v]"
      using Cons by auto
    then show ?thesis using False by (intro exI [of _ "Suc i"]) (auto simp: less_Suc_eq_0_disj)
  qed
qed simp

lemma fill_placeholder_full: "0 \<notin> set ps \<Longrightarrow> fill_placeholder v ps = ps"
  by (induction ps) auto



text \<open>
  Only the relocation types the loader knows are ever applied; any other type stops the load.
\<close>

theorem rela_known_types:
  assumes "elf_machine_rela E rl sy a skip s = Done s'"
  shows "elf_r_type (r_info rl) \<in> {R_NONE, R_64, R_PC32, R_COPY, R_GLOB_DAT, R_JUMP_SLOT, R_RELATIVE, R_32,
    R_DTPMOD64, R_DTPOFF64, R_TPOFF64, R_SIZE32, R_SIZE64, R_TLSDESC, R_IRELATIVE, R_RELATIVE64,
    R_EXPERIMENT, R_ORMASK, R_ANDMASK, R_CALLBACK_TABLE, R_CALLBACK_MAYBE, R_DSO_BASE}"
proof (rule ccontr)
  assume *: "\<not> ?thesis"
  have "reloc_switch E p rl a m y r skip val s0 = Fatal (Bad_Type (elf_r_type (r_info rl)) False)" for p m y r val s0
    using * by (simp add: reloc_switch_def Let_def)
  then show False
    using assms * by (auto simp: elf_machine_rela_def Let_def split: if_splits prod.splits option.splits sum.splits)
qed

theorem rela_known_types_witness:
  "elf_machine_rela demo_env \<lparr>r_offset = 0x100, r_info = 8, r_addend = 0x10\<rparr> None 0x100 False demo_reloc_state =
     Done (set64 0x100 0x7fffe7fba010 demo_reloc_state) \<and>
   \<not> (\<exists>s'. elf_machine_rela demo_env \<lparr>r_offset = 0x100, r_info = 99, r_addend = 0\<rparr> None 0x100 False
          demo_reloc_state = Done s')"
proof -
  have "elf_machine_rela demo_env \<lparr>r_offset = 0x100, r_info = 8, r_addend = 0x10\<rparr> None 0x100 False demo_reloc_state =
     Done (set64 0x100 0x7fffe7fba010 demo_reloc_state)"
    by (simp add: elf_machine_rela_def elf_r_type_def demo_reloc_state_def)
  moreover have "elf_machine_rela demo_env \<lparr>r_offset = 0x100, r_info = 99, r_addend = 0\<rparr> None 0x100 False
      demo_reloc_state \<noteq> Done s'" for s'
    using rela_known_types [of demo_env "\<lparr>r_offset = 0x100, r_info = 99, r_addend = 0\<rparr>" None "0x100" False
        demo_reloc_state s'] by (auto simp: elf_r_type_def)
  ultimately show ?thesis by blast
qed

end
