(* ===== verification/Loader_Hash.thy ===== *)
theory Loader_Hash
  imports Platypus_Prelude
begin

text \<open>
  The two symbol hash functions of the loader (\<open>src/glibc-platypus/sysdeps/generic/dl-new-hash.h\<close> and
  \<open>dl-hash.h\<close>), which are written in an unrolled and a strength-reduced form, and their
  equivalence with the definitions the ELF documents give.  A C string is the list of its bytes
  before the terminating zero.
\<close>

section \<open>The GNU hash\<close>

fun new_hash_loop :: "u32 \<Rightarrow> u8 list \<Rightarrow> u32" where
  "new_hash_loop h [] = h"
| "new_hash_loop h [c0] = h * 32 + (ucast c0 + h)"
| "new_hash_loop h (c0 # c1 # s) =
    new_hash_loop (h * (33 * 33) + ((ucast c1 + ucast c0) + ucast c0 * 32)) s"

definition dl_new_hash :: "u8 list \<Rightarrow> u32" where
  "dl_new_hash s = new_hash_loop 5381 s"

text \<open>The simple implementation the source quotes.\<close>

definition new_hash_simple :: "u8 list \<Rightarrow> u32" where
  "new_hash_simple s = foldl (\<lambda>h c. h * 33 + ucast c) 5381 s"

lemma new_hash_loop_foldl: "new_hash_loop h s = foldl (\<lambda>h c. h * 33 + ucast c) h s"
  by (induction h s rule: new_hash_loop.induct) (simp_all add: algebra_simps)

section \<open>The System V hash\<close>

fun elf_hash_loop :: "u64 \<Rightarrow> u8 list \<Rightarrow> u64" where
  "elf_hash_loop h [] = h"
| "elf_hash_loop h (c # s) =
    (let h = push_bit 4 h + ucast c;
         hi = h AND 0xf0000000
     in elf_hash_loop (h XOR drop_bit 24 hi) s)"

definition dl_elf_hash :: "u8 list \<Rightarrow> u32" where
  "dl_elf_hash name =
    (case name of
       [] \<Rightarrow> 0
     | a # n1 \<Rightarrow>
       (let h = ucast a :: u64 in
        case n1 of
          [] \<Rightarrow> ucast h
        | b # n2 \<Rightarrow>
          (let h = push_bit 4 h + ucast b in
           case n2 of
             [] \<Rightarrow> ucast h
           | c # n3 \<Rightarrow>
             (let h = push_bit 4 h + ucast c in
              case n3 of
                [] \<Rightarrow> ucast h
              | d # n4 \<Rightarrow>
                (let h = push_bit 4 h + ucast d in
                 case n4 of
                   [] \<Rightarrow> ucast h
                 | e # n5 \<Rightarrow>
                   (let h = push_bit 4 h + ucast e
                    in ucast (elf_hash_loop h n5 AND 0x0fffffff)))))))"

text \<open>
  One step of the algorithm of the ELF specification on 32-bit words, and the specified function.
\<close>

definition abi_step :: "u32 \<Rightarrow> u8 \<Rightarrow> u32" where
  "abi_step h c =
    (let h = push_bit 4 h + ucast c;
         hi = h AND 0xf0000000;
         h = (if hi \<noteq> 0 then h XOR drop_bit 24 hi else h)
     in h AND NOT hi)"

definition elf_hash_abi :: "u8 list \<Rightarrow> u32" where
  "elf_hash_abi name = foldl abi_step 0 name"

lemma hi_bits: "(0xf0000000 :: u64) = push_bit 28 (mask 4)" "(0xf0000000 :: u32) = push_bit 28 (mask 4)"
  by (simp_all add: mask_eq_exp_minus_1 push_bit_eq_mult)

lemma low_bits: "(0x0fffffff :: u64) = mask 28"
  by (simp add: mask_eq_exp_minus_1)

lemma ucast_step: "(ucast (push_bit 4 H + ucast (c :: u8) :: u64) :: u32) = push_bit 4 (ucast H) + ucast c"
proof -
  have add: "(ucast (a + b :: u64) :: u32) = ucast a + ucast b" for a b
    by (simp add: word_unat_eq_iff unat_word_ariths unsigned_ucast_eq take_bit_eq_mod mod_simps mod_mod_cancel)
  have "(ucast (push_bit 4 H) :: u32) = push_bit 4 (ucast H)"
    by (rule bit_word_eqI) (auto simp: bit_simps)
  moreover have "(ucast (ucast c :: u64) :: u32) = ucast c"
    by (rule bit_word_eqI) (auto simp: bit_simps)
  ultimately show ?thesis by (simp only: add)
qed

lemma abi_step_small:
  assumes "unat h < 2 ^ 23"
  shows "abi_step h c = push_bit 4 h + ucast c" "unat (abi_step h c) \<le> 16 * unat h + 255"
proof -
  have c: "unat c < 2 ^ LENGTH(8)" by (rule unsigned_less)
  then have uc: "unat (ucast c :: u32) = unat c" by (simp add: unsigned_ucast_eq take_bit_nat_eq_self)
  have "unat (push_bit 4 h) = 16 * unat h"
    using assms by (simp add: push_bit_eq_mult unat_word_ariths(2))
  then have u: "unat (push_bit 4 h + ucast c) = 16 * unat h + unat c"
    using assms c uc by (simp add: unat_word_ariths(1))
  have "take_bit 28 (push_bit 4 h + ucast c) = push_bit 4 h + ucast c"
    using u c assms by (simp only: word_unat_eq_iff unat_take_bit_mod) simp
  then have "bit (push_bit 4 h + ucast c) n \<Longrightarrow> n < 28" for n by (metis bit_take_bit_iff)
  then have "(push_bit 4 h + ucast c) AND 0xf0000000 = 0"
    unfolding hi_bits by (auto simp: bit_eq_iff bit_simps dest: leD)
  then show s: "abi_step h c = push_bit 4 h + ucast c"
    unfolding abi_step_def Let_def by simp
  show "unat (abi_step h c) \<le> 16 * unat h + 255" unfolding s using u c by simp
qed

lemma loop_step:
  fixes H :: u64 and c :: u8
  defines "X \<equiv> push_bit 4 H + ucast c"
  shows "ucast (take_bit 28 (X XOR drop_bit 24 (X AND 0xf0000000))) = abi_step (ucast (take_bit 28 H)) c"
proof -
  define x :: u32 where "x = push_bit 4 (ucast (take_bit 28 H)) + ucast c"
  have "push_bit 4 (ucast H :: u32) = push_bit 4 (ucast (take_bit 28 H))"
    by (rule bit_word_eqI) (auto simp: bit_simps)
  then have x: "x = ucast X" unfolding x_def X_def by (simp only: ucast_step)
  have "abi_step (ucast (take_bit 28 H)) c = (x XOR drop_bit 24 (x AND 0xf0000000)) AND NOT (x AND 0xf0000000)"
  proof (cases "x AND 0xf0000000 = 0")
    case True
    then show ?thesis unfolding abi_step_def Let_def x_def [symmetric] by (simp only: if_False simp_thms) simp
  qed (simp only: abi_step_def Let_def x_def [symmetric] if_True simp_thms)
  also have "\<dots> = ucast (take_bit 28 (X XOR drop_bit 24 (X AND 0xf0000000)))"
    unfolding hi_bits by (rule bit_word_eqI) (auto simp: x bit_simps)
  finally show ?thesis by simp
qed

lemma elf_hash_loop_abi:
  "ucast (take_bit 28 (elf_hash_loop H s)) = foldl abi_step (ucast (take_bit 28 H)) s"
proof (induction s arbitrary: H)
  case (Cons c s)
  have "ucast (take_bit 28 (elf_hash_loop H (c # s))) =
      foldl abi_step (ucast (take_bit 28 ((push_bit 4 H + ucast c) XOR drop_bit 24 ((push_bit 4 H + ucast c) AND 0xf0000000)))) s"
    by (simp only: elf_hash_loop.simps Let_def Cons)
  then show ?case by (simp only: loop_step foldl_Cons)
qed simp

text \<open>The first five characters cannot reach the bits the step folds back.\<close>

abbreviation shift_in :: "u64 \<Rightarrow> u8 \<Rightarrow> u64" where
  "shift_in h c \<equiv> push_bit 4 h + ucast c"

lemma abi_prefix:
  "length s \<le> 5 \<Longrightarrow> ucast (foldl shift_in 0 s) = foldl abi_step 0 s \<and>
    unat (foldl abi_step 0 s) \<le> 17 * (16 ^ length s - 1)"
proof (induction s rule: rev_induct)
  case (snoc c s)
  let ?h = "foldl abi_step 0 s"
  have IH: "ucast (foldl shift_in 0 s) = ?h" "unat ?h \<le> 17 * (16 ^ length s - 1)"
    using snoc by simp_all
  have "(16::nat) ^ length s \<le> 16 ^ 4" using snoc.prems by (intro power_increasing) simp_all
  then have h: "unat ?h < 2 ^ 23" using IH(2) by simp
  have "1 \<le> (16::nat) ^ length s" by simp
  then have "16 * (17 * (16 ^ length s - 1)) + 255 = 17 * ((16::nat) ^ Suc (length s) - 1)"
    by (simp add: diff_mult_distrib2)
  then show ?case
    using abi_step_small [OF h, of c] IH by (simp add: ucast_step)
qed simp

lemma list5_cases:
  obtains "s = []" | a where "s = [a]" | a b where "s = [a, b]" | a b c where "s = [a, b, c]"
  | a b c d where "s = [a, b, c, d]" | a b c d e n where "s = a # b # c # d # e # n"
  by (metis list.exhaust)

lemma dl_elf_hash_eq:
  "dl_elf_hash s =
    (if length s < 5 then ucast (foldl shift_in 0 s)
     else ucast (take_bit 28 (elf_hash_loop (foldl shift_in 0 (take 5 s)) (drop 5 s))))"
proof -
  have "dl_elf_hash (a # b # c # d # e # n5) =
      ucast (elf_hash_loop (foldl shift_in 0 [a, b, c, d, e]) n5 AND 0x0fffffff)" for a b c d e n5
    by (simp only: dl_elf_hash_def list.case Let_def foldl_Cons foldl_Nil push_bit_of_0 add_0)
  then have "dl_elf_hash (a # b # c # d # e # n5) =
      ucast (take_bit 28 (elf_hash_loop (foldl shift_in 0 [a, b, c, d, e]) n5))" for a b c d e n5
    unfolding low_bits take_bit_eq_mask by simp
  then show ?thesis
    by (cases s rule: list5_cases) (simp_all add: dl_elf_hash_def)
qed

text \<open>
  C25: The unrolled GNU hash computes the same value as the simple loop quoted in the source, for
  every string.
\<close>

theorem dl_new_hash_correct: "dl_new_hash s = new_hash_simple s"
  by (simp only: dl_new_hash_def new_hash_simple_def new_hash_loop_foldl)

text \<open>
  The System V hash, which skips the fold for the first five characters, folds without
  clearing and masks once at the end, equals the function of the ELF specification on 32-bit
  words, for every string.
\<close>

theorem dl_elf_hash_correct: "dl_elf_hash s = elf_hash_abi s"
proof (cases "length s < 5")
  case True
  then show ?thesis using abi_prefix [of s] by (simp add: dl_elf_hash_eq elf_hash_abi_def)
next
  case False
  let ?H = "foldl shift_in 0 (take 5 s)"
  have l: "length (take 5 s) = 5" using False by simp
  have p: "ucast ?H = foldl abi_step 0 (take 5 s)" "unat (foldl abi_step 0 (take 5 s)) \<le> 17 * (16 ^ 5 - 1)"
    using abi_prefix [of "take 5 s"] unfolding l by simp_all
  have "take_bit 28 (ucast ?H :: u32) = ucast ?H"
    using p by (simp only: word_unat_eq_iff unat_take_bit_mod) simp
  moreover have "(ucast (take_bit 28 ?H) :: u32) = take_bit 28 (ucast ?H)"
    by (rule bit_word_eqI) (auto simp: bit_simps)
  ultimately have "ucast (take_bit 28 ?H) = foldl abi_step 0 (take 5 s)" using p(1) by simp
  then have "dl_elf_hash s = foldl abi_step (foldl abi_step 0 (take 5 s)) (drop 5 s)"
    using False by (simp only: dl_elf_hash_eq if_False elf_hash_loop_abi)
  then show ?thesis unfolding elf_hash_abi_def by (metis append_take_drop_id foldl_append)
qed

end
