(* ===== verification/Loader_Lookup.thy ===== *)
theory Loader_Lookup
  imports Loader_Hash
begin

text \<open>
  Symbol lookup (\<open>src/glibc-platypus/elf/dl-lookup.c\<close>): matching one symbol, searching the GNU and
  the System V hash table of an object, searching a scope, the table of unique symbols, relocation
  dependencies, and \<open>_dl_lookup_symbol_x\<close> with the placeholder and callback table cases.  Objects
  live in a store indexed by numbers, which stand for the pointers the C code compares; the arrays
  of an object are functions, so that reading past a table reads unknown memory.  A walk along a
  hash chain that never ends is the outcome \<open>None\<close>.
\<close>

section \<open>Data\<close>

record version =
  v_name :: string
  v_hash :: u32
  v_hidden :: bool

record lsym =
  y_name :: string
  y_bind :: nat
  y_type :: nat
  y_vis :: nat
  y_shndx :: u16
  y_value :: u64

datatype ltype = Lt_executable | Lt_library | Lt_loaded

record lobj =
  o_real :: nat
  o_base :: u64
  o_type :: ltype
  o_removed :: bool
  o_nbuckets :: u32
  o_symtab :: "nat \<Rightarrow> lsym"
  o_gnu_bitmask :: "(nat \<Rightarrow> u64) option"
  o_gnu_bitmask_idxbits :: u32
  o_gnu_shift :: nat
  o_gnu_buckets :: "nat \<Rightarrow> u32"
  o_gnu_chain_zero :: "nat \<Rightarrow> u32"
  o_buckets :: "nat \<Rightarrow> u32"
  o_chain :: "nat \<Rightarrow> u32"
  o_versyms :: "(nat \<Rightarrow> u16) option"
  o_versions :: "nat \<Rightarrow> version"
  o_nodelete_active :: bool
  o_nodelete_pending :: bool
  o_initfini :: "nat list"
  o_reldeps :: "nat list"
  o_reldepsmax :: nat
  o_serial :: nat
  o_used :: bool

text \<open>A symbol is named by its object and its index; this is what its address identifies in C.\<close>

type_synonym symref = "nat \<times> nat"

type_synonym store = "nat \<Rightarrow> lobj"

definition sym_at :: "store \<Rightarrow> symref \<Rightarrow> lsym" where
  "sym_at os r = o_symtab (os (fst r)) (snd r)"

abbreviation (input) "ELF_RTYPE_CLASS_PLT \<equiv> (1 :: int)"
abbreviation (input) "ELF_RTYPE_CLASS_COPY \<equiv> (2 :: int)"
abbreviation (input) "DL_LOOKUP_ADD_DEPENDENCY \<equiv> (1 :: int)"
abbreviation (input) "DL_LOOKUP_RETURN_NEWEST \<equiv> (2 :: int)"
abbreviation (input) "DL_LOOKUP_GSCOPE_LOCK \<equiv> (4 :: int)"
abbreviation (input) "DL_LOOKUP_FOR_RELOCATE \<equiv> (8 :: int)"
abbreviation (input) "STB_GLOBAL \<equiv> (1 :: nat)"
abbreviation (input) "STB_WEAK \<equiv> (2 :: nat)"
abbreviation (input) "STB_GNU_UNIQUE \<equiv> (10 :: nat)"
abbreviation (input) "STV_INTERNAL \<equiv> (1 :: nat)"
abbreviation (input) "STV_HIDDEN \<equiv> (2 :: nat)"
abbreviation (input) "STV_PROTECTED \<equiv> (3 :: nat)"

section \<open>Matching one symbol\<close>

record matching =
  m_versioned :: "symref option"
  m_num_versions :: nat

definition remember :: "symref \<Rightarrow> matching \<Rightarrow> matching" where
  "remember r m = (if m_num_versions m = 0 then m\<lparr>m_versioned := Some r, m_num_versions := 1\<rparr>
                   else m\<lparr>m_num_versions := m_num_versions m + 1\<rparr>)"

definition version_match ::
    "store \<Rightarrow> version option \<Rightarrow> int \<Rightarrow> nat \<Rightarrow> nat \<Rightarrow> matching \<Rightarrow> bool \<times> matching" where
  "version_match os ver flags mp symidx m =
    (case o_versyms (os mp) of
       None \<Rightarrow> (True, m)
     | Some verstab \<Rightarrow>
         (case ver of
            Some v \<Rightarrow>
              let ndx = unat (verstab symidx AND 0x7fff); mv = o_versions (os mp) ndx in
              if v_hash mv = v_hash v \<and> v_name mv = v_name v then (True, m)
              else
                (False, if \<not> v_hidden v \<and> v_name mv = [] \<and> verstab symidx AND 0x8000 = 0
                        then remember (mp, symidx) m else m)
          | None \<Rightarrow>
              if verstab symidx AND 0x7fff \<ge> (if flags AND DL_LOOKUP_RETURN_NEWEST \<noteq> 0 then 2 else 3)
              then (False, if verstab symidx AND 0x8000 = 0 then remember (mp, symidx) m else m)
              else (True, m)))"

definition check_match ::
    "store \<Rightarrow> string \<Rightarrow> symref option \<Rightarrow> version option \<Rightarrow> int \<Rightarrow> int \<Rightarrow> nat \<Rightarrow> nat \<Rightarrow> matching
      \<Rightarrow> bool \<times> matching" where
  "check_match os undef_name ref ver flags tclass mp symidx m =
    (let y = o_symtab (os mp) symidx; stt = y_type y in
     if y_value y = 0 \<and> y_shndx y \<noteq> 0xfff1 \<and> stt \<noteq> 6 \<or> tclass AND (if y_shndx y = 0 then 1 else 0) \<noteq> 0
     then (False, m)
     else if stt \<notin> {0, 1, 2, 5, 6, 10} then (False, m)
     else if Some (mp, symidx) \<noteq> ref \<and> y_name y \<noteq> undef_name then (False, m)
     else version_match os ver flags mp symidx m)"

section \<open>Searching one object\<close>

partial_function (option) gnu_walk ::
    "(nat \<Rightarrow> matching \<Rightarrow> bool \<times> matching) \<Rightarrow> lobj \<Rightarrow> u32 \<Rightarrow> nat \<Rightarrow> matching \<Rightarrow> (nat option \<times> matching) option" where
  "gnu_walk check ob new_hash k m =
    (let h = o_gnu_chain_zero ob k;
         (found, m) = (if drop_bit 1 (h XOR new_hash) = 0 then check k m else (False, m))
     in if found then Some (Some k, m)
        else if h AND 1 = 0 then gnu_walk check ob new_hash (k + 1) m
        else Some (None, m))"

partial_function (option) sysv_walk ::
    "(nat \<Rightarrow> matching \<Rightarrow> bool \<times> matching) \<Rightarrow> lobj \<Rightarrow> nat \<Rightarrow> matching \<Rightarrow> (nat option \<times> matching) option" where
  "sysv_walk check ob symidx m =
    (if symidx = 0 then Some (None, m)
     else
       let (found, m) = check symidx m
       in if found then Some (Some symidx, m)
          else sysv_walk check ob (unat (o_chain ob symidx)) m)"

definition gnu_candidate :: "(nat \<Rightarrow> u64) \<Rightarrow> lobj \<Rightarrow> u32 \<Rightarrow> bool" where
  "gnu_candidate bitmask ob new_hash =
    (let bitmask_word = bitmask (unat ((new_hash div 64) AND o_gnu_bitmask_idxbits ob));
         hashbit1 = unat (new_hash AND 63);
         hashbit2 = unat (drop_bit (o_gnu_shift ob) new_hash AND 63)
     in drop_bit hashbit1 bitmask_word AND drop_bit hashbit2 bitmask_word AND 1 \<noteq> 0)"

text \<open>
  The symbol an object offers for a name: a match on its hash chain, or the only versioned
  candidate.  The System V hash is computed when it is needed for the first time.
\<close>

definition walk_object ::
    "lobj \<Rightarrow> (nat \<Rightarrow> matching \<Rightarrow> bool \<times> matching) \<Rightarrow> u32 \<Rightarrow> u64 \<Rightarrow> (nat option \<times> matching) option" where
  "walk_object ob check new_hash old_hash =
    (let m0 = \<lparr>m_versioned = None, m_num_versions = 0\<rparr> in
     case o_gnu_bitmask ob of
       Some bitmask \<Rightarrow>
         if gnu_candidate bitmask ob new_hash
         then
           let bucket = o_gnu_buckets ob (unat (new_hash mod o_nbuckets ob))
           in if bucket \<noteq> 0 then gnu_walk check ob new_hash (unat bucket) m0 else Some (None, m0)
         else Some (None, m0)
     | None \<Rightarrow>
         sysv_walk check ob (unat (o_buckets ob (unat (old_hash mod ucast (o_nbuckets ob))))) m0)"

definition search_object ::
    "store \<Rightarrow> string \<Rightarrow> u32 \<Rightarrow> symref option \<Rightarrow> version option \<Rightarrow> int \<Rightarrow> int \<Rightarrow> nat \<Rightarrow> u64
      \<Rightarrow> (symref option \<times> u64) option" where
  "search_object os undef_name new_hash ref ver flags tclass mp old_hash =
    (let old_hash = (if o_gnu_bitmask (os mp) = None \<and> old_hash = 0xffffffff
                     then ucast (dl_elf_hash (map of_char undef_name)) else old_hash)
     in do {
       (found, m) \<leftarrow> walk_object (os mp) (check_match os undef_name ref ver flags tclass mp) new_hash old_hash;
       Some (case found of
               Some k \<Rightarrow> Some (mp, k)
             | None \<Rightarrow> if m_num_versions m = 1 then m_versioned m else None, old_hash)
     })"

section \<open>Unique symbols\<close>

record unique_sym =
  u_hashval :: u32
  u_name :: string
  u_sym :: "symref option"
  u_map :: "nat option"

text \<open>An entry without a name is \<open>None\<close>; a table without entries has not been allocated.\<close>

record unique_table =
  ut_entries :: "unique_sym option list"
  ut_n_elements :: nat

partial_function (option) probe_free :: "unique_sym option list \<Rightarrow> nat \<Rightarrow> nat \<Rightarrow> nat option" where
  "probe_free tab idx hash2 =
    (if tab ! idx = None then Some idx
     else
       let idx = idx + hash2; idx = (if idx \<ge> length tab then idx - length tab else idx)
       in probe_free tab idx hash2)"

definition enter_unique_sym ::
    "unique_sym option list \<Rightarrow> u32 \<Rightarrow> string \<Rightarrow> symref option \<Rightarrow> nat option \<Rightarrow> unique_sym option list option" where
  "enter_unique_sym tab hash name sy mp = do {
     idx \<leftarrow> probe_free tab (unat hash mod length tab) (1 + unat hash mod (length tab - 2));
     Some (tab[idx := Some \<lparr>u_hashval = hash, u_name = name, u_sym = sy, u_map = mp\<rparr>])
   }"

partial_function (option) probe_name ::
    "unique_sym option list \<Rightarrow> u32 \<Rightarrow> string \<Rightarrow> nat \<Rightarrow> nat \<Rightarrow> (nat option) option" where
  "probe_name tab hash name idx hash2 =
    (case tab ! idx of
       None \<Rightarrow> if hash = 0 then None else Some None
     | Some u \<Rightarrow>
         if u_hashval u = hash \<and> u_name u = name then Some (Some idx)
         else
           let idx = idx + hash2; idx = (if idx \<ge> length tab then idx - length tab else idx)
           in probe_name tab hash name idx hash2)"

definition primes :: "nat list" where
  "primes = [7, 13, 31, 61, 127, 251, 509, 1021, 2039, 4093, 8191, 16381, 32749, 65521, 131071, 262139,
     524287, 1048573, 2097143, 4194301, 8388593, 16777213, 33554393, 67108859, 134217689, 268435399,
     536870909, 1073741789, 2147483647, 4294967291]"

function prime_search :: "nat \<Rightarrow> nat \<Rightarrow> nat \<Rightarrow> nat" where
  "prime_search n low high =
    (if low < high
     then
       let mid = low + (high - low) div 2
       in if n > primes ! mid then prime_search n (mid + 1) high else prime_search n low mid
     else low)"
  by pat_completeness auto
termination by (relation "measure (\<lambda>(n, low, high). high - low)") auto

declare prime_search.simps [simp del]

definition dl_higher_prime_number :: "nat \<Rightarrow> nat" where
  "dl_higher_prime_number n = primes ! prime_search n 0 (length primes)"

text \<open>All entries of the old table are entered into a larger one.\<close>

fun rehash :: "unique_sym option list \<Rightarrow> unique_sym option list \<Rightarrow> unique_sym option list option" where
  "rehash [] new = Some new"
| "rehash (None # es) new = rehash es new"
| "rehash (Some u # es) new =
    (case enter_unique_sym new (u_hashval u) (u_name u) (u_sym u) (u_map u) of
       None \<Rightarrow> None | Some new' \<Rightarrow> rehash es new')"

record lstate =
  ls_objs :: store
  ls_unique :: unique_table

definition mark_nodelete :: "nat \<Rightarrow> int \<Rightarrow> store \<Rightarrow> store" where
  "mark_nodelete mp flags os =
    (if flags AND DL_LOOKUP_FOR_RELOCATE \<noteq> 0
     then os(mp := (os mp)\<lparr>o_nodelete_pending := True\<rparr>)
     else os(mp := (os mp)\<lparr>o_nodelete_active := True\<rparr>))"

definition is_nodelete :: "nat \<Rightarrow> int \<Rightarrow> store \<Rightarrow> bool" where
  "is_nodelete mp flags os \<longleftrightarrow>
    o_nodelete_active (os mp) \<or> flags AND DL_LOOKUP_FOR_RELOCATE \<noteq> 0 \<and> o_nodelete_pending (os mp)"

record sym_val =
  sv_s :: "symref option"
  sv_m :: "nat option"

definition unique_room :: "unique_table \<Rightarrow> unique_sym option list option" where
  "unique_room tab =
    (let entries = ut_entries tab; n = length entries in
     if entries = [] then Some (replicate 31 None)
     else if n * 3 \<le> ut_n_elements tab * 4
     then rehash entries (replicate (dl_higher_prime_number (n + 1)) None)
     else Some entries)"

definition do_lookup_unique ::
    "string \<Rightarrow> u32 \<Rightarrow> nat \<Rightarrow> int \<Rightarrow> symref \<Rightarrow> symref option \<Rightarrow> nat option \<Rightarrow> int \<Rightarrow> lstate
      \<Rightarrow> (sym_val \<times> lstate) option" where
  "do_lookup_unique undef_name new_hash mp tclass sy ref undef_map flags st =
    (let tab = ls_unique st; entries = ut_entries tab; n = length entries; copy = tclass AND ELF_RTYPE_CLASS_COPY \<noteq> 0 in
     do {
       hit \<leftarrow> (if entries = [] then Some None
               else probe_name entries new_hash undef_name (unat new_hash mod n) (1 + unat new_hash mod (n - 2)));
       case hit of
         Some idx \<Rightarrow>
           Some (if copy then \<lparr>sv_s = Some sy, sv_m = Some mp\<rparr>
                 else (case entries ! idx of
                         Some u \<Rightarrow> \<lparr>sv_s = u_sym u, sv_m = u_map u\<rparr>
                       | None \<Rightarrow> \<lparr>sv_s = None, sv_m = None\<rparr>), st)
       | None \<Rightarrow> do {
           room \<leftarrow> unique_room tab;
           let name = y_name (sym_at (ls_objs st) sy);
           entries' \<leftarrow> (if copy then enter_unique_sym room new_hash name ref undef_map
                        else enter_unique_sym room new_hash name (Some sy) (Some mp));
           let os = (if \<not> copy \<and> o_type (ls_objs st mp) = Lt_loaded \<and> \<not> is_nodelete mp flags (ls_objs st)
                     then mark_nodelete mp flags (ls_objs st) else ls_objs st);
           Some (\<lparr>sv_s = Some sy, sv_m = Some mp\<rparr>,
                 \<lparr>ls_objs = os, ls_unique = \<lparr>ut_entries = entries', ut_n_elements = ut_n_elements tab + 1\<rparr>\<rparr>)
         }
     })"

section \<open>Searching a scope\<close>

text \<open>
  What the lookup reads besides the objects: the placeholder table the relocation code fills, the
  main program, the loaded objects, two global flags, the check for protected symbols (which may
  refuse), what other threads may have changed when the load lock is acquired, and whether memory
  can be allocated.
\<close>

record lookup_env =
  le_placeholded :: nat
  le_placeholder_symbols :: "nat \<Rightarrow> string"
  le_placeholder_plts :: "nat \<Rightarrow> u64"
  le_main_map :: nat
  le_loaded :: "nat list"
  le_dynamic_weak :: bool
  le_debug_unused :: bool
  le_protected_refused :: "nat option \<Rightarrow> symref option \<Rightarrow> nat \<Rightarrow> int \<Rightarrow> bool"
  le_after_lock :: "store \<Rightarrow> store"
  le_malloc_ok :: bool

fun scope_walk ::
    "lookup_env \<Rightarrow> string \<Rightarrow> u32 \<Rightarrow> symref option \<Rightarrow> version option \<Rightarrow> int \<Rightarrow> nat option \<Rightarrow> int \<Rightarrow> nat option
      \<Rightarrow> nat list \<Rightarrow> u64 \<Rightarrow> sym_val \<Rightarrow> lstate \<Rightarrow> (bool \<times> u64 \<times> sym_val \<times> lstate) option" where
  "scope_walk E undef_name new_hash ref ver flags skip tclass undef_map [] old_hash result st =
    Some (False, old_hash, result, st)"
| "scope_walk E undef_name new_hash ref ver flags skip tclass undef_map (l # ls) old_hash result st =
    (let os = ls_objs st; mp = o_real (os l) in
     if Some mp = skip \<or>
        tclass AND ELF_RTYPE_CLASS_COPY \<noteq> 0 \<and> o_type (os mp) = Lt_executable \<or>
        o_removed (os mp) \<and> \<not> (case undef_map of None \<Rightarrow> False | Some u \<Rightarrow> o_removed (os u)) \<or>
        o_nbuckets (os mp) = 0
     then scope_walk E undef_name new_hash ref ver flags skip tclass undef_map ls old_hash result st
     else do {
       (found, old_hash) \<leftarrow>
         search_object os undef_name new_hash ref ver flags tclass mp old_hash;
       let next = (\<lambda>result. scope_walk E undef_name new_hash ref ver flags skip tclass undef_map ls old_hash result st);
       case found of
         None \<Rightarrow> next result
       | Some r \<Rightarrow>
           let y = sym_at os r; hit = \<lparr>sv_s = Some r, sv_m = Some mp\<rparr> in
           if y_vis y = STV_HIDDEN \<or> y_vis y = STV_INTERNAL then next result
           else if y_vis y = STV_PROTECTED \<and> le_protected_refused E undef_map ref mp tclass then None
           else if y_bind y = STB_WEAK \<and> le_dynamic_weak E
           then next (if sv_s result = None then hit else result)
           else if y_bind y = STB_WEAK \<or> y_bind y = STB_GLOBAL then Some (True, old_hash, hit, st)
           else if y_bind y = STB_GNU_UNIQUE
           then do {
             (res, st) \<leftarrow> do_lookup_unique undef_name new_hash mp tclass r ref undef_map flags st;
             Some (True, old_hash, res, st)
           }
           else next result
     })"

definition do_lookup_x ::
    "lookup_env \<Rightarrow> string \<Rightarrow> u32 \<Rightarrow> u64 \<Rightarrow> symref option \<Rightarrow> sym_val \<Rightarrow> nat list \<Rightarrow> nat \<Rightarrow> version option \<Rightarrow> int
      \<Rightarrow> nat option \<Rightarrow> int \<Rightarrow> nat option \<Rightarrow> lstate \<Rightarrow> (bool \<times> u64 \<times> sym_val \<times> lstate) option" where
  "do_lookup_x E undef_name new_hash old_hash ref result scope i ver flags skip tclass undef_map st =
    (if i < length scope
     then scope_walk E undef_name new_hash ref ver flags skip tclass undef_map (drop i scope) old_hash result st
     else None)"

section \<open>Relocation dependencies\<close>

text \<open>
  \<open>os\<close> are the objects before, \<open>os2\<close> the objects after the load lock was acquired.  The answer is
  \<open>False\<close> when the search has to be repeated.
\<close>

definition add_dependency ::
    "lookup_env \<Rightarrow> nat \<Rightarrow> nat \<Rightarrow> int \<Rightarrow> store \<Rightarrow> bool \<times> store" where
  "add_dependency E undef_map mp flags os =
    (if undef_map = mp then (True, os)
     else if is_nodelete mp flags os then (True, os)
     else if mp \<in> set (o_initfini (os undef_map)) then (True, os)
     else if mp \<in> set (o_reldeps (os undef_map)) then (True, os)
     else
       let serial = o_serial (os mp);
           os2 = le_after_lock E os;
           gscope = flags AND DL_LOOKUP_GSCOPE_LOCK \<noteq> 0;
           act = (if gscope then length (o_reldeps (os2 undef_map)) else length (o_reldeps (os undef_map)))
       in if gscope \<and> (mp \<in> set (o_initfini (os2 undef_map)) \<or> mp \<in> set (o_reldeps (os2 undef_map)))
          then (o_serial (os2 mp) = serial, os2)
          else if mp \<in> set (le_loaded E)
          then
            if o_serial (os2 mp) \<noteq> serial then (False, os2)
            else if is_nodelete mp flags os2 then (True, os2)
            else if o_type (os2 undef_map) \<noteq> Lt_loaded then (True, mark_nodelete mp flags os2)
            else
              let ob = os2 undef_map; deps = take act (o_reldeps ob) @ [mp]
              in if act \<ge> o_reldepsmax ob
                 then
                   if \<not> le_malloc_ok E then (True, mark_nodelete mp flags os2)
                   else (True, os2(undef_map := ob\<lparr>o_reldeps := deps,
                           o_reldepsmax := (if o_reldepsmax ob \<noteq> 0 then o_reldepsmax ob * 2 else 10)\<rparr>))
                 else (True, os2(undef_map := ob\<lparr>o_reldeps := deps\<rparr>))
          else (False, os2))"

section \<open>The lookup\<close>

datatype lookup_result =
    Fake_Map u64
  | Exp_Map u64
  | Bound nat "symref option"
  | Undefined
  | Signalled

text \<open>The first placeholder whose recorded name is the name looked for.\<close>

fun find_placeholder :: "lookup_env \<Rightarrow> string \<Rightarrow> nat \<Rightarrow> nat \<Rightarrow> nat option" where
  "find_placeholder E name i 0 = None"
| "find_placeholder E name i (Suc n) =
    (if name = le_placeholder_symbols E i then Some i else find_placeholder E name (Suc i) n)"

fun search_scopes ::
    "lookup_env \<Rightarrow> string \<Rightarrow> u32 \<Rightarrow> symref option \<Rightarrow> version option \<Rightarrow> int \<Rightarrow> nat option \<Rightarrow> int \<Rightarrow> nat option
      \<Rightarrow> nat list list \<Rightarrow> nat \<Rightarrow> u64 \<Rightarrow> sym_val \<Rightarrow> lstate \<Rightarrow> (u64 \<times> sym_val \<times> lstate) option" where
  "search_scopes E name new_hash ref ver flags skip tclass undef_map [] start old_hash cur st =
    Some (old_hash, cur, st)"
| "search_scopes E name new_hash ref ver flags skip tclass undef_map (scope # scopes) start old_hash cur st = do {
     (hit, old_hash, cur, st) \<leftarrow>
       (if name = ''callback_table''
        then do_lookup_x E name new_hash old_hash ref cur [le_main_map E] 0 ver flags skip tclass undef_map st
        else Some (False, old_hash, cur, st));
     if hit then Some (old_hash, cur, st)
     else do {
       (hit, old_hash, cur, st) \<leftarrow>
         do_lookup_x E name new_hash old_hash ref cur scope start ver flags skip tclass undef_map st;
       if hit then Some (old_hash, cur, st)
       else search_scopes E name new_hash ref ver flags skip tclass undef_map scopes 0 old_hash cur st
     }
   }"

fun search_protected ::
    "lookup_env \<Rightarrow> string \<Rightarrow> u32 \<Rightarrow> symref option \<Rightarrow> version option \<Rightarrow> int \<Rightarrow> nat option
      \<Rightarrow> nat list list \<Rightarrow> nat \<Rightarrow> u64 \<Rightarrow> sym_val \<Rightarrow> lstate \<Rightarrow> (sym_val \<times> lstate) option" where
  "search_protected E name new_hash ref ver flags skip [] start old_hash cur st = Some (cur, st)"
| "search_protected E name new_hash ref ver flags skip (scope # scopes) start old_hash cur st = do {
     (hit, old_hash, cur, st) \<leftarrow>
       do_lookup_x E name new_hash old_hash ref cur scope start ver flags skip ELF_RTYPE_CLASS_PLT None st;
     if hit then Some (cur, st)
     else search_protected E name new_hash ref ver flags skip scopes 0 old_hash cur st
   }"

fun skip_index :: "nat \<Rightarrow> nat list \<Rightarrow> nat option" where
  "skip_index m [] = None"
| "skip_index m (x # xs) = (if x = m then Some 0 else map_option Suc (skip_index m xs))"

definition bind_protected ::
    "lookup_env \<Rightarrow> string \<Rightarrow> u32 \<Rightarrow> nat \<Rightarrow> symref option \<Rightarrow> version option \<Rightarrow> int \<Rightarrow> int \<Rightarrow> nat option
      \<Rightarrow> nat list list \<Rightarrow> nat \<Rightarrow> u64 \<Rightarrow> sym_val \<Rightarrow> lstate \<Rightarrow> (sym_val \<times> lstate) option" where
  "bind_protected E name new_hash undef_map ref ver tclass flags skip scopes i old_hash cur st =
    (case ref of
       None \<Rightarrow> Some (cur, st)
     | Some r \<Rightarrow>
         if y_vis (sym_at (ls_objs st) r) = STV_PROTECTED
         then
           if tclass = ELF_RTYPE_CLASS_PLT
           then Some (if sv_m cur \<noteq> Some undef_map then \<lparr>sv_s = ref, sv_m = Some undef_map\<rparr> else cur, st)
           else do {
             (pv, st) \<leftarrow> search_protected E name new_hash ref ver flags skip scopes i old_hash
                            \<lparr>sv_s = None, sv_m = None\<rparr> st;
             Some (if sv_s pv \<noteq> None \<and> sv_m pv \<noteq> Some undef_map then \<lparr>sv_s = ref, sv_m = Some undef_map\<rparr> else cur, st)
           }
         else Some (cur, st))"

partial_function (option) dl_lookup_symbol_x ::
    "lookup_env \<Rightarrow> string \<Rightarrow> nat \<Rightarrow> symref option \<Rightarrow> nat list list \<Rightarrow> nat list list \<Rightarrow> version option \<Rightarrow> int \<Rightarrow> int
      \<Rightarrow> nat option \<Rightarrow> lstate \<Rightarrow> (lookup_result \<times> lstate) option" where
  "dl_lookup_symbol_x E name undef_map ref scopes undef_scope ver tclass flags skip st =
    (case find_placeholder E name 0 (le_placeholded E) of
       Some i \<Rightarrow> Some (Fake_Map (le_placeholder_plts E i), st)
     | None \<Rightarrow>
         let new_hash = dl_new_hash (map of_char name) in
         Option.bind (case skip of None \<Rightarrow> Some 0 | Some m \<Rightarrow> (case scopes of [] \<Rightarrow> None | sc # _ \<Rightarrow> skip_index m sc))
          (\<lambda>i. Option.bind (search_scopes E name new_hash ref ver flags skip tclass (Some undef_map) scopes i 0xffffffff
                  \<lparr>sv_s = None, sv_m = None\<rparr> st)
          (\<lambda>(old_hash, cur, st).
             if sv_s cur = None
             then Some (if (case ref of None \<Rightarrow> True | Some r \<Rightarrow> y_bind (sym_at (ls_objs st) r) \<noteq> STB_WEAK) \<and> \<not> le_debug_unused E
                        then if name = ''callback_table'' then Exp_Map (o_base (ls_objs st undef_map)) else Signalled
                        else Undefined, st)
             else Option.bind (bind_protected E name new_hash undef_map ref ver tclass flags skip scopes i old_hash cur st)
               (\<lambda>(cur, st).
                  case sv_m cur of
                    None \<Rightarrow> None
                  | Some m \<Rightarrow>
                      let (ok, os) = (if o_type (ls_objs st m) = Lt_loaded \<and> flags AND DL_LOOKUP_ADD_DEPENDENCY \<noteq> 0
                                      then add_dependency E undef_map m flags (ls_objs st) else (True, ls_objs st));
                          st = st\<lparr>ls_objs := os\<rparr>
                      in if ok
                         then Some (Bound m (sv_s cur), st\<lparr>ls_objs := os(m := (os m)\<lparr>o_used := True\<rparr>)\<rparr>)
                         else dl_lookup_symbol_x E name undef_map ref
                                (if flags AND DL_LOOKUP_GSCOPE_LOCK \<noteq> 0 then undef_scope else scopes) undef_scope
                                ver tclass flags skip st))))"

section \<open>Lemmas on the walks\<close>

text \<open>What a test keeps and what a hit promises carries over to the walks.\<close>

definition keeps :: "(matching \<Rightarrow> bool) \<Rightarrow> (nat \<Rightarrow> bool) \<Rightarrow> (nat \<Rightarrow> matching \<Rightarrow> bool \<times> matching) \<Rightarrow> bool" where
  "keeps I Q check \<longleftrightarrow> (\<forall>k m. I m \<longrightarrow> I (snd (check k m)) \<and> (fst (check k m) \<longrightarrow> Q k))"

lemma keepsD:
  assumes "keeps I Q check" "I m" "check k m = (b, m')"
  shows "I m'" "b \<Longrightarrow> Q k"
  using assms unfolding keeps_def by (metis fst_conv snd_conv)+

lemma gnu_walk_keeps:
  assumes "gnu_walk check ob h k m = Some r" "keeps I Q check" "I m"
  shows "I (snd r) \<and> (\<forall>j. fst r = Some j \<longrightarrow> Q j)"
proof -
  have "keeps I Q check \<longrightarrow> I m \<longrightarrow> I (snd r) \<and> (\<forall>j. fst r = Some j \<longrightarrow> Q j)"
  proof (rule gnu_walk.raw_induct [OF _ assms(1)], intro impI, goal_cases)
    case (1 gw check ob h k m r)
    obtain b m1 where c: "(if drop_bit 1 (o_gnu_chain_zero ob k XOR h) = 0 then check k m else (False, m)) = (b, m1)"
      by (rule prod.exhaust)
    then have "I m1 \<and> (b \<longrightarrow> Q k)" using keepsD [OF 1(3,4)] 1(4) by (auto split: if_splits)
    moreover have "(if b then Some (Some k, m1) else if o_gnu_chain_zero ob k AND 1 = 0
        then gw check ob h (k + 1) m1 else Some (None, m1)) = Some r"
      using 1(2) c by (simp only: Let_def prod.case)
    ultimately show ?case using 1(1) [of check ob h "k + 1" m1 r] 1(3) by (auto split: if_splits)
  qed
  with assms show ?thesis by blast
qed

lemma sysv_walk_keeps:
  assumes "sysv_walk check ob k m = Some r" "keeps I Q check" "I m"
  shows "I (snd r) \<and> (\<forall>j. fst r = Some j \<longrightarrow> Q j)"
proof -
  have "keeps I Q check \<longrightarrow> I m \<longrightarrow> I (snd r) \<and> (\<forall>j. fst r = Some j \<longrightarrow> Q j)"
  proof (rule sysv_walk.raw_induct [OF _ assms(1)], intro impI, goal_cases)
    case (1 gw check ob k m r)
    obtain b m1 where c: "check k m = (b, m1)" by (rule prod.exhaust)
    then have "I m1 \<and> (b \<longrightarrow> Q k)" using keepsD [OF 1(3,4)] by blast
    then show ?case using 1 c by (auto split: if_splits)
  qed
  with assms show ?thesis by blast
qed

lemma walk_object_keeps:
  assumes "walk_object ob check h oh = Some r" "keeps I Q check" "I \<lparr>m_versioned = None, m_num_versions = 0\<rparr>"
  shows "I (snd r) \<and> (\<forall>j. fst r = Some j \<longrightarrow> Q j)"
  using assms(1,3) gnu_walk_keeps [OF _ assms(2,3)] sysv_walk_keeps [OF _ assms(2,3)]
  by (auto simp: walk_object_def Let_def split: option.splits if_splits)

text \<open>A symbol a lookup may return: defined code or data with the right name.\<close>

definition acceptable :: "store \<Rightarrow> string \<Rightarrow> symref option \<Rightarrow> int \<Rightarrow> symref \<Rightarrow> bool" where
  "acceptable os name ref tclass r \<longleftrightarrow>
    (y_name (sym_at os r) = name \<or> Some r = ref) \<and> y_type (sym_at os r) \<in> {0, 1, 2, 5, 6, 10} \<and>
    (y_value (sym_at os r) \<noteq> 0 \<or> y_shndx (sym_at os r) = 0xfff1 \<or> y_type (sym_at os r) = 6) \<and>
    (tclass AND 1 \<noteq> 0 \<longrightarrow> y_shndx (sym_at os r) \<noteq> 0)"

lemma check_match_reject:
  assumes "\<not> acceptable os name ref tclass (mp, k)"
  shows "check_match os name ref ver flags tclass mp k m = (False, m)"
proof -
  let ?y = "o_symtab (os mp) k"
  have "(y_value ?y = 0 \<and> y_shndx ?y \<noteq> 0xfff1 \<and> y_type ?y \<noteq> 6 \<or> tclass AND (if y_shndx ?y = 0 then 1 else 0) \<noteq> 0) \<or>
      y_type ?y \<notin> {0, 1, 2, 5, 6, 10} \<or> Some (mp, k) \<noteq> ref \<and> y_name ?y \<noteq> name"
    using assms unfolding acceptable_def sym_at_def fst_conv snd_conv by (cases "y_shndx ?y = 0") auto
  then show ?thesis unfolding check_match_def Let_def by (elim disjE) (simp_all only: if_True simp_thms if_cancel)
qed

lemma version_match_state: "snd (version_match os ver flags mp k m) \<in> {m, remember (mp, k) m}"
  unfolding version_match_def Let_def by (cases ver; cases "o_versyms (os mp)"; simp only: option.case) auto

lemma check_match_state: "snd (check_match os name ref ver flags tclass mp k m) \<in> {m, remember (mp, k) m}"
proof -
  have "snd (if a then (False, m) else if b then (False, m) else if c then (False, m) else x) \<in> S"
    if "m \<in> S" "snd x \<in> S" for a b c and x :: "bool \<times> matching" and S
    using that by simp
  from this [OF _ version_match_state] show ?thesis unfolding check_match_def Let_def by blast
qed

lemma check_match_keeps:
  "keeps (\<lambda>m. \<forall>r. m_versioned m = Some r \<longrightarrow> fst r = mp \<and> acceptable os name ref tclass r)
     (\<lambda>k. acceptable os name ref tclass (mp, k))
     (check_match os name ref ver flags tclass mp)"
  unfolding keeps_def
proof (intro allI impI, goal_cases)
  case (1 k m)
  show ?case
  proof (cases "acceptable os name ref tclass (mp, k)")
    case True
    then show ?thesis
      using 1 check_match_state [of os name ref ver flags tclass mp k m]
      by (auto simp: remember_def split: if_splits)
  next
    case False
    then show ?thesis using 1 by (simp add: check_match_reject)
  qed
qed

lemma search_object_acceptable:
  assumes "search_object os name h ref ver flags tclass mp oh = Some (Some r, oh')"
  shows "fst r = mp \<and> acceptable os name ref tclass r"
proof -
  let ?check = "check_match os name ref ver flags tclass mp"
  obtain f m oh1 where w: "walk_object (os mp) ?check h oh1 = Some (f, m)"
    and r: "(case f of Some k \<Rightarrow> Some (mp, k) | None \<Rightarrow> if m_num_versions m = 1 then m_versioned m else None) = Some r"
    using assms by (auto simp: search_object_def Let_def split: bind_splits)
  have k: "(\<forall>x. m_versioned m = Some x \<longrightarrow> fst x = mp \<and> acceptable os name ref tclass x) \<and>
      (\<forall>j. f = Some j \<longrightarrow> acceptable os name ref tclass (mp, j))"
    using walk_object_keeps [OF w check_match_keeps] unfolding fst_conv snd_conv by simp
  show ?thesis
  proof (cases f)
    case None
    then have "m_versioned m = Some r" using r by (simp split: if_splits)
    then show ?thesis using k by blast
  qed (use r k in auto)
qed

section \<open>Properties of the search\<close>

text \<open>Objects a scope search looks into.\<close>

definition searched :: "store \<Rightarrow> nat option \<Rightarrow> int \<Rightarrow> nat option \<Rightarrow> nat \<Rightarrow> bool" where
  "searched os skip tclass undef_map mp \<longleftrightarrow>
    Some mp \<noteq> skip \<and> \<not> (tclass AND ELF_RTYPE_CLASS_COPY \<noteq> 0 \<and> o_type (os mp) = Lt_executable) \<and>
    \<not> (o_removed (os mp) \<and> \<not> (case undef_map of None \<Rightarrow> False | Some u \<Rightarrow> o_removed (os u))) \<and>
    o_nbuckets (os mp) \<noteq> 0"

definition no_unique :: "store \<Rightarrow> bool" where
  "no_unique os \<longleftrightarrow> (\<forall>r. y_bind (sym_at os r) \<noteq> STB_GNU_UNIQUE)"

text \<open>What a scope search may leave in its result.\<close>

definition sound_val :: "store \<Rightarrow> string \<Rightarrow> symref option \<Rightarrow> int \<Rightarrow> nat set \<Rightarrow> sym_val \<Rightarrow> bool" where
  "sound_val os name ref tclass maps v \<longleftrightarrow>
    (\<forall>r. sv_s v = Some r \<longrightarrow> fst r \<in> maps \<and> sv_m v = Some (fst r) \<and> acceptable os name ref tclass r \<and>
      y_vis (sym_at os r) \<notin> {STV_HIDDEN, STV_INTERNAL} \<and> y_bind (sym_at os r) \<in> {STB_GLOBAL, STB_WEAK})"

lemma sound_val_mono: "sound_val os name ref tclass M v \<Longrightarrow> M \<subseteq> N \<Longrightarrow> sound_val os name ref tclass N v"
  by (auto simp: sound_val_def)

lemma scope_walk_sound:
  assumes "scope_walk E name h ref ver flags skip tclass undef ls oh v st = Some (hit, oh', v', st')"
    and "no_unique (ls_objs st)" "sound_val (ls_objs st) name ref tclass M v"
    and "(\<lambda>l. o_real (ls_objs st l)) ` set ls \<inter> {mp. searched (ls_objs st) skip tclass undef mp} \<subseteq> M"
  shows "st' = st \<and> sound_val (ls_objs st) name ref tclass M v'"
  using assms
proof (induction ls arbitrary: oh v)
  case (Cons l ls)
  let ?os = "ls_objs st" let ?mp = "o_real (?os l)"
  have M: "(\<lambda>l. o_real (?os l)) ` set ls \<inter> {mp. searched ?os skip tclass undef mp} \<subseteq> M"
    using Cons.prems(4) by auto
  note IH = Cons.IH [OF _ Cons.prems(2) _ M]
  show ?case
  proof (cases "searched ?os skip tclass undef ?mp")
    case False
    then show ?thesis using Cons.prems(1,3) IH by (auto simp: searched_def Let_def)
  next
    case True
    then have run: "Option.bind (search_object ?os name h ref ver flags tclass ?mp oh)
        (\<lambda>(found, oh). let next = (\<lambda>v. scope_walk E name h ref ver flags skip tclass undef ls oh v st) in
          case found of None \<Rightarrow> next v | Some r \<Rightarrow>
           let y = sym_at ?os r; hit = \<lparr>sv_s = Some r, sv_m = Some ?mp\<rparr> in
           if y_vis y = STV_HIDDEN \<or> y_vis y = STV_INTERNAL then next v
           else if y_vis y = STV_PROTECTED \<and> le_protected_refused E undef ref ?mp tclass then None
           else if y_bind y = STB_WEAK \<and> le_dynamic_weak E then next (if sv_s v = None then hit else v)
           else if y_bind y = STB_WEAK \<or> y_bind y = STB_GLOBAL then Some (True, oh, hit, st)
           else if y_bind y = STB_GNU_UNIQUE
           then Option.bind (do_lookup_unique name h ?mp tclass r ref undef flags st) (\<lambda>(res, st). Some (True, oh, res, st))
           else next v) = Some (hit, oh', v', st')"
      using Cons.prems(1) unfolding searched_def scope_walk.simps Let_def by (simp only: if_False simp_thms)
    obtain f oh1 where s: "search_object ?os name h ref ver flags tclass ?mp oh = Some (f, oh1)"
      using run by (cases "search_object ?os name h ref ver flags tclass ?mp oh") auto
    show ?thesis
    proof (cases f)
      case None
      then show ?thesis using run s Cons.prems(3) IH by simp
    next
      case (Some r)
      have acc: "fst r = ?mp" "acceptable ?os name ref tclass r" using search_object_acceptable s Some by blast+
      have "?mp \<in> M" using Cons.prems(4) True by auto
      moreover have "y_bind (sym_at ?os r) \<noteq> STB_GNU_UNIQUE" using Cons.prems(2) unfolding no_unique_def by blast
      ultimately have hit: "sound_val ?os name ref tclass M \<lparr>sv_s = Some r, sv_m = Some ?mp\<rparr>"
        if "y_vis (sym_at ?os r) \<notin> {STV_HIDDEN, STV_INTERNAL}" "y_bind (sym_at ?os r) \<in> {STB_GLOBAL, STB_WEAK}"
        using acc that by (simp add: sound_val_def)
      show ?thesis
        using run hit Cons.prems(3) IH \<open>y_bind (sym_at ?os r) \<noteq> STB_GNU_UNIQUE\<close>
        unfolding s Some by (auto simp: Let_def split: if_splits)
    qed
  qed
qed simp

lemma scope_walk_first_hit:
  assumes "searched (ls_objs st) skip tclass undef (o_real (ls_objs st l))"
    and "search_object (ls_objs st) name h ref ver flags tclass (o_real (ls_objs st l)) oh = Some (Some r, oh')"
    and "y_vis (sym_at (ls_objs st) r) = 0"
    and "y_bind (sym_at (ls_objs st) r) = STB_GLOBAL"
  shows "scope_walk E name h ref ver flags skip tclass undef (l # ls) oh v st =
    Some (True, oh', \<lparr>sv_s = Some r, sv_m = Some (o_real (ls_objs st l))\<rparr>, st)"
  using assms(1) unfolding searched_def scope_walk.simps Let_def
  by (simp only: if_False simp_thms assms(2) bind.bind_lunit prod.case option.case assms(3,4)) simp


text \<open>
  C21: A reference to the symbol \<open>callback_table\<close> binds to the main program.  Whatever the search
  scopes contain, if the main program exports the symbol, the lookup answers with the main
  program's definition, so every object calls the same table.
\<close>

theorem callback_table_from_main:
  assumes main: "o_real (ls_objs st (le_main_map E)) = le_main_map E" "o_type (ls_objs st (le_main_map E)) \<noteq> Lt_loaded"
    and look: "searched (ls_objs st) None tclass (Some undef) (le_main_map E)"
      "search_object (ls_objs st) ''callback_table'' (dl_new_hash (map of_char ''callback_table'')) ref ver flags tclass
         (le_main_map E) 0xffffffff = Some (Some r, oh)"
      "y_vis (sym_at (ls_objs st) r) = 0" "y_bind (sym_at (ls_objs st) r) = STB_GLOBAL"
    and ref: "\<forall>q. ref = Some q \<longrightarrow> y_vis (sym_at (ls_objs st) q) \<noteq> STV_PROTECTED"
    and "find_placeholder E ''callback_table'' 0 (le_placeholded E) = None" "scopes \<noteq> []"
  shows "\<exists>st'. dl_lookup_symbol_x E ''callback_table'' undef ref scopes us ver tclass flags None st =
    Some (Bound (le_main_map E) (Some r), st')"
proof -
  obtain sc scs where sc: "scopes = sc # scs" using assms by (cases scopes) auto
  have "do_lookup_x E ''callback_table'' (dl_new_hash (map of_char ''callback_table'')) 0xffffffff ref
      \<lparr>sv_s = None, sv_m = None\<rparr> [le_main_map E] 0 ver flags None tclass (Some undef) st =
      Some (True, oh, \<lparr>sv_s = Some r, sv_m = Some (le_main_map E)\<rparr>, st)"
    using scope_walk_first_hit [of st None tclass "Some undef" "le_main_map E"] main(1) look
    by (simp add: do_lookup_x_def)
  then have s: "search_scopes E ''callback_table'' (dl_new_hash (map of_char ''callback_table'')) ref ver flags None tclass
      (Some undef) scopes 0 0xffffffff \<lparr>sv_s = None, sv_m = None\<rparr> st =
      Some (oh, \<lparr>sv_s = Some r, sv_m = Some (le_main_map E)\<rparr>, st)"
    unfolding sc search_scopes.simps by (simp only: if_True bind.bind_lunit prod.case simp_thms)
  have p: "bind_protected E ''callback_table'' (dl_new_hash (map of_char ''callback_table'')) undef ref ver tclass flags None
      scopes 0 oh \<lparr>sv_s = Some r, sv_m = Some (le_main_map E)\<rparr> st = Some (\<lparr>sv_s = Some r, sv_m = Some (le_main_map E)\<rparr>, st)"
    using ref by (auto simp: bind_protected_def split: option.splits)
  show ?thesis
    by (subst dl_lookup_symbol_x.simps)
      (simp only: assms(8) option.case Let_def bind.bind_lunit s p prod.case sym_val.simps main(2) simp_thms if_False if_True
        option.distinct, blast)
qed

text \<open>A store in which object 0 is the main program and exports \<open>callback_table\<close>; object 1 is a library.\<close>

definition demo_obj :: "nat \<Rightarrow> ltype \<Rightarrow> string \<Rightarrow> lobj" where
  "demo_obj n t name = \<lparr>o_real = n, o_base = 0x1000, o_type = t, o_removed = False, o_nbuckets = 1,
     o_symtab = \<lambda>_. \<lparr>y_name = name, y_bind = 1, y_type = 2, y_vis = 0, y_shndx = 12, y_value = 0x1130\<rparr>,
     o_gnu_bitmask = None, o_gnu_bitmask_idxbits = 0, o_gnu_shift = 0, o_gnu_buckets = \<lambda>_. 0,
     o_gnu_chain_zero = \<lambda>_. 0, o_buckets = \<lambda>_. 1, o_chain = \<lambda>_. 0, o_versyms = None,
     o_versions = \<lambda>_. \<lparr>v_name = [], v_hash = 0, v_hidden = False\<rparr>, o_nodelete_active = False,
     o_nodelete_pending = False, o_initfini = [], o_reldeps = [], o_reldepsmax = 0, o_serial = n, o_used = False\<rparr>"

definition demo_store :: store where
  "demo_store n = (if n = 0 then demo_obj 0 Lt_executable ''callback_table'' else demo_obj n Lt_library ''qsort'')"

definition demo_lookup :: lookup_env where
  "demo_lookup = \<lparr>le_placeholded = 1, le_placeholder_symbols = \<lambda>_. ''atexit'', le_placeholder_plts = \<lambda>_. 0x7fffe7fbb040,
     le_main_map = 0, le_loaded = [0, 1], le_dynamic_weak = False, le_debug_unused = False,
     le_protected_refused = \<lambda>_ _ _ _. False, le_after_lock = \<lambda>os. os, le_malloc_ok = True\<rparr>"

definition demo_lstate :: lstate where
  "demo_lstate = \<lparr>ls_objs = demo_store, ls_unique = \<lparr>ut_entries = [], ut_n_elements = 0\<rparr>\<rparr>"

lemma demo_check:
  "check_match demo_store ''callback_table'' None None 9 1 0 (Suc 0) m = (True, m)"
  by (simp add: check_match_def version_match_def demo_store_def demo_obj_def)

lemma demo_walk:
  "sysv_walk (check_match demo_store ''callback_table'' None None 9 1 0) (demo_store 0) (Suc 0) m = Some (Some 1, m)"
  by (subst sysv_walk.simps) (simp add: demo_check)

lemma demo_search:
  "\<exists>oh. search_object demo_store ''callback_table'' h None None 9 1 0 0xffffffff = Some (Some (0, 1), oh)"
proof -
  have "o_gnu_bitmask (demo_store 0) = None" "o_buckets (demo_store 0) x = 1" for x
    by (simp_all add: demo_store_def demo_obj_def)
  then show ?thesis by (simp add: search_object_def walk_object_def Let_def demo_walk)
qed

lemma demo_sym [simp]: "sym_at demo_store (0, k) =
    \<lparr>y_name = ''callback_table'', y_bind = 1, y_type = 2, y_vis = 0, y_shndx = 12, y_value = 0x1130\<rparr>"
  by (simp add: sym_at_def demo_store_def demo_obj_def)

theorem callback_table_from_main_witness:
  "\<exists>st'. dl_lookup_symbol_x demo_lookup ''callback_table'' 1 None [[1, 0]] [] None 1 9 None demo_lstate =
    Some (Bound 0 (Some (0, 1)), st')"
proof -
  obtain oh where "search_object demo_store ''callback_table'' (dl_new_hash (map of_char ''callback_table''))
      None None 9 1 0 0xffffffff = Some (Some (0, 1), oh)"
    using demo_search by blast
  moreover have m: "le_main_map demo_lookup = 0" "ls_objs demo_lstate = demo_store"
    "find_placeholder demo_lookup ''callback_table'' 0 (le_placeholded demo_lookup) = None"
    by (simp_all add: demo_lookup_def demo_lstate_def)
  moreover have "o_real (demo_store 0) = 0" "o_type (demo_store 0) = Lt_executable" "searched demo_store None 1 (Some 1) 0"
    by (simp_all add: demo_store_def demo_obj_def searched_def)
  ultimately show ?thesis
    using callback_table_from_main [of demo_lstate demo_lookup 1 1 None None 9 "(0, 1)" oh "[[1, 0]]" "[]"] by simp
qed


end
