(* ===== verification/Loader_Unique.thy ===== *)
theory Loader_Unique
  imports Loader_Lookup
begin

text \<open>
  Properties of the lookup state (\<open>src/glibc-platypus/elf/dl-lookup.c\<close>, \<open>elf/dl-misc.c\<close>): the open
  addressing table of unique symbols, the prime sizes it grows to, relocation dependencies, and the
  special cases of \<open>_dl_lookup_symbol_x\<close>.
\<close>

section \<open>Probing\<close>

definition key_at :: "unique_sym option list \<Rightarrow> nat \<Rightarrow> u32 \<Rightarrow> string \<Rightarrow> bool" where
  "key_at tab i h nm \<longleftrightarrow> (\<exists>u. tab ! i = Some u \<and> u_hashval u = h \<and> u_name u = nm)"

definition has_key :: "unique_sym option list \<Rightarrow> u32 \<Rightarrow> string \<Rightarrow> bool" where
  "has_key tab h nm \<longleftrightarrow> (\<exists>i<length tab. key_at tab i h nm)"

definition next_slot :: "nat \<Rightarrow> nat \<Rightarrow> nat \<Rightarrow> nat" where
  "next_slot n h2 i = (if i + h2 \<ge> n then i + h2 - n else i + h2)"

lemma next_slot_less: "i < n \<Longrightarrow> h2 \<le> n \<Longrightarrow> next_slot n h2 i < n"
  by (auto simp: next_slot_def)

lemma next_slot_mod: "i < n \<Longrightarrow> h2 < n \<Longrightarrow> next_slot n h2 i = (i + h2) mod n"
  by (auto simp: next_slot_def mod_if)

lemma probe_free_unfold:
  "probe_free tab i h2 = (if tab ! i = None then Some i else probe_free tab (next_slot (length tab) h2 i) h2)"
  by (subst probe_free.simps) (simp add: Let_def next_slot_def)

lemma probe_name_unfold:
  "probe_name tab h nm i h2 =
    (case tab ! i of
       None \<Rightarrow> if h = 0 then None else Some None
     | Some u \<Rightarrow> if u_hashval u = h \<and> u_name u = nm then Some (Some i)
                 else probe_name tab h nm (next_slot (length tab) h2 i) h2)"
  by (subst probe_name.simps) (simp only: Let_def next_slot_def)

text \<open>The slots a probe visits, as a counted search.\<close>

fun probes :: "nat \<Rightarrow> nat \<Rightarrow> nat \<Rightarrow> nat \<Rightarrow> nat" where
  "probes n h2 i 0 = i"
| "probes n h2 i (Suc k) = probes n h2 (next_slot n h2 i) k"

lemma probes_less: "i < n \<Longrightarrow> h2 \<le> n \<Longrightarrow> probes n h2 i k < n"
  by (induction k arbitrary: i) (simp_all add: next_slot_less)

lemma probes_mod: "i < n \<Longrightarrow> h2 < n \<Longrightarrow> probes n h2 i k = (i + k * h2) mod n"
proof (induction k arbitrary: i)
  case (Suc k)
  then show ?case by (simp add: next_slot_less next_slot_mod mod_simps algebra_simps)
qed simp

lemma probe_free_steps:
  assumes "probe_free tab i h2 = Some j"
  shows "\<exists>k. probes (length tab) h2 i k = j \<and> tab ! j = None \<and> (\<forall>k'<k. tab ! probes (length tab) h2 i k' \<noteq> None)"
proof (rule probe_free.raw_induct [OF _ assms], goal_cases)
  case (1 pf tab i h2 j)
  show ?case
  proof (cases "tab ! i = None")
    case True
    then show ?thesis using 1(2) by (intro exI [of _ 0]) simp
  next
    case False
    then have "pf tab (next_slot (length tab) h2 i) h2 = Some j"
      using 1(2) by (simp only: if_False Let_def next_slot_def)
    from 1(1) [OF this] obtain k where "probes (length tab) h2 (next_slot (length tab) h2 i) k = j" "tab ! j = None"
      "\<forall>k'<k. tab ! probes (length tab) h2 (next_slot (length tab) h2 i) k' \<noteq> None" by blast
    then show ?thesis using False by (intro exI [of _ "Suc k"]) (auto simp: less_Suc_eq_0_disj)
  qed
qed

lemma probe_free_run:
  assumes "tab ! probes (length tab) h2 i k = None" "\<forall>k'<k. tab ! probes (length tab) h2 i k' \<noteq> None"
  shows "probe_free tab i h2 = Some (probes (length tab) h2 i k)"
  using assms
proof (induction k arbitrary: i)
  case 0
  then show ?case by (simp add: probe_free_unfold)
next
  case (Suc k)
  have "tab ! i \<noteq> None" using Suc.prems(2) by (metis probes.simps(1) zero_less_Suc)
  moreover have "\<forall>k'<k. tab ! probes (length tab) h2 (next_slot (length tab) h2 i) k' \<noteq> None"
    using Suc.prems(2) by (metis Suc_less_eq probes.simps(2))
  ultimately show ?case using Suc.IH Suc.prems(1) by (auto simp: probe_free_unfold [of tab i])
qed

lemma probe_name_run:
  assumes "key_at tab (probes (length tab) h2 i k) h nm"
    "\<forall>k'<k. tab ! probes (length tab) h2 i k' \<noteq> None \<and> \<not> key_at tab (probes (length tab) h2 i k') h nm"
  shows "probe_name tab h nm i h2 = Some (Some (probes (length tab) h2 i k))"
  using assms
proof (induction k arbitrary: i)
  case 0
  then show ?case by (auto simp: probe_name_unfold key_at_def)
next
  case (Suc k)
  have "tab ! i \<noteq> None \<and> \<not> key_at tab i h nm" using Suc.prems(2) by (metis probes.simps(1) zero_less_Suc)
  moreover have "\<forall>k'<k. tab ! probes (length tab) h2 (next_slot (length tab) h2 i) k' \<noteq> None \<and>
      \<not> key_at tab (probes (length tab) h2 (next_slot (length tab) h2 i) k') h nm"
    using Suc.prems(2) by (metis Suc_less_eq probes.simps(2))
  ultimately show ?case
    using Suc.IH Suc.prems(1) by (subst probe_name_unfold) (auto simp: key_at_def split: option.splits)
qed

lemma probe_name_steps:
  assumes "probe_name tab h nm i h2 = Some r"
  shows "\<forall>j. r = Some j \<longrightarrow> (\<exists>k. probes (length tab) h2 i k = j \<and> key_at tab j h nm \<and>
      (\<forall>k'<k. tab ! probes (length tab) h2 i k' \<noteq> None \<and> \<not> key_at tab (probes (length tab) h2 i k') h nm))"
proof (rule probe_name.raw_induct [OF _ assms], goal_cases)
  case (1 pn tab h nm i h2 r)
  show ?case
  proof (cases "tab ! i = None \<or> key_at tab i h nm")
    case True
    then show ?thesis
      using 1(2) by (auto simp: key_at_def split: if_splits intro!: exI [of _ 0])
  next
    case False
    then have "pn tab h nm (next_slot (length tab) h2 i) h2 = Some r"
      using 1(2) by (cases "tab ! i") (auto simp: key_at_def Let_def next_slot_def)
    from 1(1) [OF this] show ?thesis
    proof (intro allI impI, goal_cases)
      case (1 j)
      then obtain k where "probes (length tab) h2 (next_slot (length tab) h2 i) k = j" "key_at tab j h nm"
        "\<forall>k'<k. tab ! probes (length tab) h2 (next_slot (length tab) h2 i) k' \<noteq> None \<and>
          \<not> key_at tab (probes (length tab) h2 (next_slot (length tab) h2 i) k') h nm" by blast
      then show ?case using False by (intro exI [of _ "Suc k"]) (auto simp: less_Suc_eq_0_disj)
    qed
  qed
qed

section \<open>Entering and finding\<close>

abbreviation start_slot :: "'a list \<Rightarrow> u32 \<Rightarrow> nat" where
  "start_slot tab h \<equiv> unat h mod length tab"

abbreviation slot_step :: "'a list \<Rightarrow> u32 \<Rightarrow> nat" where
  "slot_step tab h \<equiv> 1 + unat h mod (length tab - 2)"

lemma slot_bounds:
  assumes "3 \<le> length tab"
  shows "start_slot tab h < length tab" "0 < slot_step tab h" "slot_step tab h < length tab"
proof -
  have "unat h mod (length tab - 2) < length tab - 2" using assms by simp
  then show "slot_step tab h < length tab" by linarith
  show "start_slot tab h < length tab" by (rule mod_less_divisor) (use assms in linarith)
qed simp

definition lookup_unique :: "unique_sym option list \<Rightarrow> u32 \<Rightarrow> string \<Rightarrow> (nat option) option" where
  "lookup_unique tab h nm = probe_name tab h nm (start_slot tab h) (slot_step tab h)"

lemma enter_unique_symD:
  assumes "enter_unique_sym tab h nm sy mp = Some tab'" "3 \<le> length tab"
  obtains k j where "j = probes (length tab) (slot_step tab h) (start_slot tab h) k" "j < length tab" "tab ! j = None"
    "\<forall>k'<k. tab ! probes (length tab) (slot_step tab h) (start_slot tab h) k' \<noteq> None"
    "tab' = tab[j := Some \<lparr>u_hashval = h, u_name = nm, u_sym = sy, u_map = mp\<rparr>]"
proof -
  obtain j where j: "probe_free tab (start_slot tab h) (slot_step tab h) = Some j"
    and t: "tab' = tab[j := Some \<lparr>u_hashval = h, u_name = nm, u_sym = sy, u_map = mp\<rparr>]"
    using assms(1) by (auto simp: enter_unique_sym_def split: bind_splits)
  from probe_free_steps [OF j] obtain k where "probes (length tab) (slot_step tab h) (start_slot tab h) k = j"
    "tab ! j = None" "\<forall>k'<k. tab ! probes (length tab) (slot_step tab h) (start_slot tab h) k' \<noteq> None" by blast
  moreover have "j < length tab"
    using calculation(1) probes_less slot_bounds [OF assms(2), of h] by (metis less_imp_le)
  ultimately show thesis using t that by blast
qed

lemma enter_unique_sym_found:
  assumes "enter_unique_sym tab h nm sy mp = Some tab'" "3 \<le> length tab" "\<not> has_key tab h nm"
  shows "\<exists>j. lookup_unique tab' h nm = Some (Some j) \<and>
    tab' ! j = Some \<lparr>u_hashval = h, u_name = nm, u_sym = sy, u_map = mp\<rparr>"
proof -
  obtain k j where j: "j = probes (length tab) (slot_step tab h) (start_slot tab h) k" "j < length tab" "tab ! j = None"
    and occ: "\<forall>k'<k. tab ! probes (length tab) (slot_step tab h) (start_slot tab h) k' \<noteq> None"
    and t: "tab' = tab[j := Some \<lparr>u_hashval = h, u_name = nm, u_sym = sy, u_map = mp\<rparr>]"
    using enter_unique_symD [OF assms(1,2)] by blast
  have keep: "tab' ! probes (length tab) (slot_step tab h) (start_slot tab h) k' = tab ! probes (length tab) (slot_step tab h) (start_slot tab h) k'"
    if "k' < k" for k'
    using occ j(3) that unfolding t by (metis nth_list_update_neq)
  have "\<not> key_at tab' (probes (length tab) (slot_step tab h) (start_slot tab h) k') h nm" if "k' < k" for k'
    using keep [OF that] assms(3) probes_less slot_bounds [OF assms(2), of h]
    unfolding has_key_def key_at_def by (metis less_imp_le)
  then have "probe_name tab' h nm (start_slot tab h) (slot_step tab h) = Some (Some j)"
    using probe_name_run [of tab' "slot_step tab h" "start_slot tab h" k h nm] keep occ j
    by (auto simp: t key_at_def)
  then show ?thesis using j by (intro exI [of _ j]) (simp add: lookup_unique_def t)
qed

lemma enter_unique_sym_keeps:
  assumes "enter_unique_sym tab h nm sy mp = Some tab'" "3 \<le> length tab"
    and "lookup_unique tab h' nm' = Some (Some i)"
  shows "lookup_unique tab' h' nm' = Some (Some i) \<and> tab' ! i = tab ! i"
proof -
  obtain j where j: "j < length tab" "tab ! j = None"
    and t: "tab' = tab[j := Some \<lparr>u_hashval = h, u_name = nm, u_sym = sy, u_map = mp\<rparr>]"
    using enter_unique_symD [OF assms(1,2)] by blast
  obtain k where i: "probes (length tab) (slot_step tab h') (start_slot tab h') k = i" "key_at tab i h' nm'"
    and path: "\<forall>k'<k. tab ! probes (length tab) (slot_step tab h') (start_slot tab h') k' \<noteq> None \<and>
      \<not> key_at tab (probes (length tab) (slot_step tab h') (start_slot tab h') k') h' nm'"
    using probe_name_steps [OF assms(3) [unfolded lookup_unique_def]] by blast
  have same: "tab' ! x = tab ! x" if "tab ! x \<noteq> None" for x
    using that j(2) unfolding t by (metis nth_list_update_neq)
  have "tab ! i \<noteq> None" using i(2) by (auto simp: key_at_def)
  then have ki: "tab' ! i = tab ! i" by (rule same)
  have "probe_name tab' h' nm' (start_slot tab h') (slot_step tab h') = Some (Some i)"
    using probe_name_run [of tab' "slot_step tab h'" "start_slot tab h'" k h' nm'] i path same ki
    unfolding key_at_def by (auto simp: t)
  then show ?thesis using ki by (simp add: lookup_unique_def t)
qed

text \<open>
  C26: The table of unique symbols is a map.  A symbol entered under a new hash and name is found by
  the lookup that follows, and every symbol that was found before is still found, in its place.
\<close>

theorem unique_table_roundtrip:
  assumes "enter_unique_sym tab h nm sy mp = Some tab'" "3 \<le> length tab" "\<not> has_key tab h nm"
  shows "(\<exists>j. lookup_unique tab' h nm = Some (Some j) \<and>
      tab' ! j = Some \<lparr>u_hashval = h, u_name = nm, u_sym = sy, u_map = mp\<rparr>) \<and>
    (\<forall>h' nm' i. lookup_unique tab h' nm' = Some (Some i) \<longrightarrow>
      lookup_unique tab' h' nm' = Some (Some i) \<and> tab' ! i = tab ! i)"
  using enter_unique_sym_found [OF assms] enter_unique_sym_keeps [OF assms(1,2)] by blast

definition sample_table :: "unique_sym option list" where
  "sample_table = [None, None, None, Some \<lparr>u_hashval = 8, u_name = ''a'', u_sym = Some (1, 2), u_map = Some 1\<rparr>, None]"

lemma sample_table_key: "length sample_table = 5" "\<not> has_key sample_table 8 ''b''"
  by (auto simp: sample_table_def has_key_def key_at_def nth_Cons' split: if_splits)

lemma sample_table_probes:
  "enter_unique_sym sample_table 8 ''b'' (Some (2, 4)) (Some 2) =
    Some (sample_table[1 := Some \<lparr>u_hashval = 8, u_name = ''b'', u_sym = Some (2, 4), u_map = Some 2\<rparr>])"
  "lookup_unique sample_table 8 ''a'' = Some (Some 3)"
proof -
  have "probe_free sample_table 3 3 = Some 1"
    by (subst probe_free_unfold, simp add: sample_table_def next_slot_def)
      (subst probe_free_unfold, simp)
  moreover have "unat (8 :: u32) mod length sample_table = 3" "1 + unat (8 :: u32) mod (length sample_table - 2) = 3"
    by (simp_all add: sample_table_key)
  ultimately show "enter_unique_sym sample_table 8 ''b'' (Some (2, 4)) (Some 2) =
    Some (sample_table[1 := Some \<lparr>u_hashval = 8, u_name = ''b'', u_sym = Some (2, 4), u_map = Some 2\<rparr>])"
    by (simp only: enter_unique_sym_def bind.bind_lunit)
  show "lookup_unique sample_table 8 ''a'' = Some (Some 3)"
    unfolding lookup_unique_def by (subst probe_name_unfold) (simp add: sample_table_def)
qed

lemma unique_table_roundtrip_witness:
  "\<exists>tab'. enter_unique_sym sample_table 8 ''b'' (Some (2, 4)) (Some 2) = Some tab' \<and>
    (\<exists>j. lookup_unique tab' 8 ''b'' = Some (Some j) \<and>
      tab' ! j = Some \<lparr>u_hashval = 8, u_name = ''b'', u_sym = Some (2, 4), u_map = Some 2\<rparr>) \<and>
    lookup_unique tab' 8 ''a'' = Some (Some 3)"
  using unique_table_roundtrip [of sample_table 8 "''b''" "Some (2, 4)" "Some 2"] sample_table_key sample_table_probes by simp

end
