(* ===== verification/Loader_Tls.thy ===== *)
theory Loader_Tls
  imports Platypus_Prelude
begin

text \<open>
  Static thread-local storage (\<open>src/glibc-platypus/elf/dl-reloc.c\<close>): \<open>_dl_try_allocate_static_tls\<close>
  and \<open>_dl_allocate_static_tls\<close> in the configuration of x86-64, where the thread control block is
  at the thread pointer and the blocks of the modules lie below it (\<open>TLS_TCB_AT_TP\<close>).  The size of
  the control block is a parameter.  The initialisation of a block in the running threads is
  recorded as a list of calls.
\<close>

section \<open>The allocation\<close>

datatype tls_call = Update_Slotinfo u64 u64 | Init_Static_Tls u64

record tls_state =
  tls_static_size :: u64
  tls_static_used :: u64
  tls_static_align :: u64
  tls_static_optional :: u64
  tls_generation :: u64
  tls_dtv_counter :: u64
  tls_calls :: "tls_call list"

record tls_map =
  tm_offset :: u64
  tm_align :: u64
  tm_blocksize :: u64
  tm_firstbyte_offset :: u64
  tm_modid :: u64
  tm_real_relocated :: bool
  tm_need_tls_init :: bool

abbreviation (input) "FORCED_DYNAMIC_TLS_OFFSET \<equiv> (0xffffffffffffffff :: u64)"

definition finish_static_tls :: "tls_map \<Rightarrow> tls_state \<Rightarrow> tls_map \<times> tls_state" where
  "finish_static_tls mp s =
    (if tm_real_relocated mp
     then (mp, s\<lparr>tls_calls := tls_calls s
                  @ (if tls_dtv_counter s \<noteq> tls_generation s then [Update_Slotinfo (tm_modid mp) (tls_generation s)] else [])
                  @ [Init_Static_Tls (tm_modid mp)]\<rparr>)
     else (mp\<lparr>tm_need_tls_init := True\<rparr>, s))"

text \<open>The outcome \<open>None\<close> is the division by a zero alignment.\<close>

definition dl_try_allocate_static_tls ::
    "u64 \<Rightarrow> bool \<Rightarrow> tls_map \<Rightarrow> tls_state \<Rightarrow> (int \<times> tls_map \<times> tls_state) option" where
  "dl_try_allocate_static_tls tcb_size optional mp s =
    (if tm_offset mp = FORCED_DYNAMIC_TLS_OFFSET \<or> tm_align mp > tls_static_align s then Some (-1, mp, s)
     else
       let freebytes = tls_static_size s - tls_static_used s in
       if freebytes < tcb_size then Some (-1, mp, s)
       else
         let freebytes = freebytes - tcb_size;
             blsize = tm_blocksize mp + tm_firstbyte_offset mp
         in if freebytes < blsize then Some (-1, mp, s)
            else if tm_align mp = 0 then None
            else
              let n = (freebytes - blsize) div tm_align mp;
                  use = freebytes - n * tm_align mp - tm_firstbyte_offset mp
              in if optional \<and> use > tls_static_optional s then Some (-1, mp, s)
                 else
                   let s = (if optional then s\<lparr>tls_static_optional := tls_static_optional s - use\<rparr> else s);
                       offset = tls_static_used s + use
                   in Some (0, finish_static_tls (mp\<lparr>tm_offset := offset\<rparr>) (s\<lparr>tls_static_used := offset\<rparr>)))"

datatype tls_result = Tls_Ok tls_map tls_state | Tls_Signalled

definition dl_allocate_static_tls :: "u64 \<Rightarrow> tls_map \<Rightarrow> tls_state \<Rightarrow> tls_result option" where
  "dl_allocate_static_tls tcb_size mp s =
    (if tm_offset mp = FORCED_DYNAMIC_TLS_OFFSET then Some Tls_Signalled
     else map_option (\<lambda>(r, mp, s). if r \<noteq> 0 then Tls_Signalled else Tls_Ok mp s)
            (dl_try_allocate_static_tls tcb_size False mp s))"

section \<open>Where a block is placed\<close>

text \<open>The arithmetic of the allocation on numbers.\<close>

lemma block_use_bounds:
  fixes free bl fb al :: nat
  assumes "bl + fb \<le> free" "0 < al"
  shows "((free - (bl + fb)) div al) * al + fb + bl \<le> free"
proof -
  have "((free - (bl + fb)) div al) * al \<le> free - (bl + fb)" by simp
  then show ?thesis using assms by linarith
qed

lemma block_use_words:
  fixes free bl fb al :: u64
  assumes "unat bl + unat fb \<le> unat free" "al \<noteq> 0"
  defines "n \<equiv> (free - (bl + fb)) div al"
  shows "unat (free - n * al - fb) = unat free - unat n * unat al - unat fb"
    "unat n = (unat free - (unat bl + unat fb)) div unat al"
proof -
  have s: "unat (bl + fb) = unat bl + unat fb"
    using assms(1) unat_u64_less [of free] by (subst unat_add_lem [THEN iffD1]) auto
  then have d: "unat (free - (bl + fb)) = unat free - (unat bl + unat fb)"
    using assms(1) by (simp add: unat_sub word_le_nat_alt)
  then show n: "unat n = (unat free - (unat bl + unat fb)) div unat al" by (simp add: n_def unat_div)
  have "unat n * unat al + unat fb + unat bl \<le> unat free"
    unfolding n by (rule block_use_bounds) (use assms in \<open>auto simp: unat_gt_0\<close>)
  moreover from this have "unat (n * al) = unat n * unat al"
    using unat_u64_less [of free] by (subst unat_mult_lem [THEN iffD1]) auto
  ultimately show "unat (free - n * al - fb) = unat free - unat n * unat al - unat fb"
    by (simp add: unat_sub word_le_nat_alt)
qed


definition tls_sane :: "tls_map \<Rightarrow> bool" where
  "tls_sane mp \<longleftrightarrow> unat (tm_blocksize mp) + unat (tm_firstbyte_offset mp) < 2 ^ 64"

definition tls_room :: "u64 \<Rightarrow> tls_state \<Rightarrow> bool" where
  "tls_room tcb_size s \<longleftrightarrow> unat (tls_static_used s) + unat tcb_size \<le> unat (tls_static_size s)"

lemma finish_static_tls_fields [simp]:
  "tm_offset (fst (finish_static_tls mp s)) = tm_offset mp"
  "tm_blocksize (fst (finish_static_tls mp s)) = tm_blocksize mp"
  "tm_firstbyte_offset (fst (finish_static_tls mp s)) = tm_firstbyte_offset mp"
  "tls_static_used (snd (finish_static_tls mp s)) = tls_static_used s"
  "tls_static_size (snd (finish_static_tls mp s)) = tls_static_size s"
  by (simp_all add: finish_static_tls_def)

lemma try_allocate_success:
  assumes "dl_try_allocate_static_tls tcb_size optional mp s = Some (0, mp', s')"
  defines "free \<equiv> tls_static_size s - tls_static_used s - tcb_size"
  defines "use \<equiv> free - (free - (tm_blocksize mp + tm_firstbyte_offset mp)) div tm_align mp * tm_align mp - tm_firstbyte_offset mp"
  shows "tcb_size \<le> tls_static_size s - tls_static_used s" "tm_blocksize mp + tm_firstbyte_offset mp \<le> free"
    "tm_align mp \<noteq> 0" "tm_offset mp' = tls_static_used s + use" "tls_static_used s' = tls_static_used s + use"
    "tls_static_size s' = tls_static_size s" "tm_blocksize mp' = tm_blocksize mp" "tm_firstbyte_offset mp' = tm_firstbyte_offset mp"
proof -
  define s1 where "s1 = (if optional then s\<lparr>tls_static_optional := tls_static_optional s - use\<rparr> else s)"
  have s1: "tls_static_used s1 = tls_static_used s" "tls_static_size s1 = tls_static_size s" by (simp_all add: s1_def)
  have "\<not> tls_static_size s - tls_static_used s < tcb_size \<and> \<not> free < tm_blocksize mp + tm_firstbyte_offset mp \<and> tm_align mp \<noteq> 0 \<and>
    (mp', s') = finish_static_tls (mp\<lparr>tm_offset := tls_static_used s + use\<rparr>) (s1\<lparr>tls_static_used := tls_static_used s + use\<rparr>)"
    using assms(1) unfolding dl_try_allocate_static_tls_def Let_def free_def [symmetric] use_def [symmetric] s1_def [symmetric] s1
    by (simp split: if_splits)
  moreover from this have "mp' = fst (finish_static_tls (mp\<lparr>tm_offset := tls_static_used s + use\<rparr>) (s1\<lparr>tls_static_used := tls_static_used s + use\<rparr>))"
    "s' = snd (finish_static_tls (mp\<lparr>tm_offset := tls_static_used s + use\<rparr>) (s1\<lparr>tls_static_used := tls_static_used s + use\<rparr>))"
    by (metis fst_conv, metis snd_conv)
  ultimately show "tcb_size \<le> tls_static_size s - tls_static_used s" "tm_blocksize mp + tm_firstbyte_offset mp \<le> free"
    "tm_align mp \<noteq> 0" "tm_offset mp' = tls_static_used s + use" "tls_static_used s' = tls_static_used s + use"
    "tls_static_size s' = tls_static_size s" "tm_blocksize mp' = tm_blocksize mp" "tm_firstbyte_offset mp' = tm_firstbyte_offset mp"
    by (simp_all add: s1 not_less)
qed

lemma try_allocate_placed:
  assumes "dl_try_allocate_static_tls tcb_size optional mp s = Some (0, mp', s')" "tls_sane mp" "tls_room tcb_size s"
  shows "tm_offset mp' = tls_static_used s'"
    "unat (tls_static_used s) + unat (tm_blocksize mp) \<le> unat (tls_static_used s')"
    "unat (tls_static_used s') + unat (tm_firstbyte_offset mp) + unat tcb_size \<le> unat (tls_static_size s)"
    "unat (tm_align mp) dvd unat (tls_static_size s) - unat tcb_size - unat (tm_firstbyte_offset mp) - unat (tls_static_used s')"
proof -
  define free where "free = tls_static_size s - tls_static_used s - tcb_size"
  define bl where "bl = tm_blocksize mp" define fb where "fb = tm_firstbyte_offset mp" define al where "al = tm_align mp"
  define n where "n = (free - (bl + fb)) div al" define use where "use = free - n * al - fb"
  note f = try_allocate_success [OF assms(1), folded free_def bl_def fb_def al_def, folded n_def, folded use_def]
  have free: "unat free = unat (tls_static_size s) - unat (tls_static_used s) - unat tcb_size"
    using assms(3) f(1) unfolding free_def tls_room_def by (simp add: unat_sub word_le_nat_alt)
  have "unat (bl + fb) = unat bl + unat fb"
    using assms(2) by (subst unat_add_lem [THEN iffD1]) (simp_all add: tls_sane_def bl_def fb_def)
  then have fits: "unat bl + unat fb \<le> unat free" using f(2) by (simp add: word_le_nat_alt)
  note u = block_use_words [OF fits f(3), folded n_def]
  have b: "unat n * unat al + unat fb + unat bl \<le> unat free"
    unfolding u(2) using fits f(3) by (intro block_use_bounds) (auto simp: unat_gt_0)
  have use: "unat use = unat free - unat n * unat al - unat fb" using u(1) by (simp add: use_def)
  have off: "unat (tls_static_used s') = unat (tls_static_used s) + unat use"
    unfolding f(5) using use free b assms(3) unat_u64_less [of "tls_static_size s"]
    by (subst unat_add_lem [THEN iffD1]) (simp_all add: tls_room_def)
  show "tm_offset mp' = tls_static_used s'" using f(4,5) by simp
  show "unat (tls_static_used s) + unat (tm_blocksize mp) \<le> unat (tls_static_used s')" using off use b by (simp add: bl_def)
  show "unat (tls_static_used s') + unat (tm_firstbyte_offset mp) + unat tcb_size \<le> unat (tls_static_size s)"
    using off use b free assms(3) by (simp add: fb_def tls_room_def)
  have "unat (tls_static_size s) - unat tcb_size - unat fb - unat (tls_static_used s') = unat n * unat al"
    using off use b free assms(3) by (simp add: tls_room_def)
  then show "unat (tm_align mp) dvd unat (tls_static_size s) - unat tcb_size - unat (tm_firstbyte_offset mp) - unat (tls_static_used s')"
    by (simp add: fb_def al_def)
qed


lemma try_allocate_code: "dl_try_allocate_static_tls tcb_size optional mp s = Some (r, mp', s') \<Longrightarrow> r = 0 \<or> (r, mp', s') = (-1, mp, s)"
  by (auto simp: dl_try_allocate_static_tls_def Let_def split: if_splits)

text \<open>A sequence of requests, in any order and number; the placed objects are collected.\<close>

fun place_all :: "u64 \<Rightarrow> (bool \<times> tls_map) list \<Rightarrow> tls_state \<Rightarrow> (tls_map list \<times> tls_state) option" where
  "place_all tcb_size [] s = Some ([], s)"
| "place_all tcb_size ((optional, mp) # rest) s =
    Option.bind (dl_try_allocate_static_tls tcb_size optional mp s)
     (\<lambda>(r, mp', s'). Option.bind (place_all tcb_size rest s')
       (\<lambda>(placed, s''). Some (if r = 0 then mp' # placed else placed, s'')))"

abbreviation block_end :: "tls_map \<Rightarrow> nat" where
  "block_end mp \<equiv> unat (tm_offset mp)"

lemma place_all_above:
  assumes "place_all tcb_size reqs s = Some (placed, s')" "\<forall>(b, mp) \<in> set reqs. tls_sane mp" "tls_room tcb_size s"
  shows "sorted_wrt (\<lambda>a b. block_end a + unat (tm_blocksize b) \<le> block_end b) placed \<and>
    (\<forall>b \<in> set placed. unat (tls_static_used s) + unat (tm_blocksize b) \<le> block_end b \<and>
       block_end b + unat (tm_firstbyte_offset b) + unat tcb_size \<le> unat (tls_static_size s))"
  using assms
proof (induction tcb_size reqs s arbitrary: placed s' rule: place_all.induct)
  case (2 tcb_size optional mp rest s)
  then obtain r mp1 s1 placed1 where t: "dl_try_allocate_static_tls tcb_size optional mp s = Some (r, mp1, s1)"
    and p: "place_all tcb_size rest s1 = Some (placed1, s')" "placed = (if r = 0 then mp1 # placed1 else placed1)"
    by (auto split: bind_splits)
  have sane: "tls_sane mp" "\<forall>(b, mp) \<in> set rest. tls_sane mp" using 2(3) by auto
  note IH = 2(1) [OF t refl refl p(1) sane(2)]
  consider "r = 0" | "r \<noteq> 0" "s1 = s" using try_allocate_code [OF t] by auto
  then show ?case
  proof cases
    case 1
    note a = try_allocate_placed [OF t [unfolded 1] sane(1) 2(4)] and f = try_allocate_success [OF t [unfolded 1]]
    have "tls_room tcb_size s1" using a(3) f(6) by (simp add: tls_room_def)
    from IH [OF this] show ?thesis using a f(6-8) p(2) 1 by fastforce
  qed (use IH 2(4) p(2) in auto)
qed auto

text \<open>
  C31: The static TLS blocks of the loaded objects do not overlap.  Every object that
  \<open>_dl_try_allocate_static_tls\<close> places, in any sequence of requests, optional or not, gets a block
  above the ones in use before, ending below the thread control block, and disjoint from the
  blocks of all other objects.
\<close>

theorem static_tls_disjoint:
  assumes "place_all tcb_size reqs s = Some (placed, s')"
    and "\<forall>(b, mp) \<in> set reqs. unat (tm_blocksize mp) + unat (tm_firstbyte_offset mp) < 2 ^ 64"
    and "unat (tls_static_used s) + unat tcb_size \<le> unat (tls_static_size s)"
    and "i < j" "j < length placed"
  shows "unat (tls_static_used s) \<le> block_end (placed ! i) - unat (tm_blocksize (placed ! i)) \<and>
    block_end (placed ! i) \<le> block_end (placed ! j) - unat (tm_blocksize (placed ! j)) \<and>
    block_end (placed ! j) + unat tcb_size \<le> unat (tls_static_size s)"
proof -
  note a = place_all_above [OF assms(1), unfolded tls_sane_def tls_room_def, OF assms(2,3)]
  then have "block_end (placed ! i) + unat (tm_blocksize (placed ! j)) \<le> block_end (placed ! j)"
    using assms(4,5) by (auto simp: sorted_wrt_iff_nth_less)
  moreover have "placed ! i \<in> set placed" "placed ! j \<in> set placed" using assms(4,5) by auto
  ultimately show ?thesis using a by fastforce
qed

definition demo_tls :: tls_state where
  "demo_tls = \<lparr>tls_static_size = 4096, tls_static_used = 160, tls_static_align = 64, tls_static_optional = 512,
     tls_generation = 1, tls_dtv_counter = 1, tls_calls = []\<rparr>"

definition demo_module :: "u64 \<Rightarrow> tls_map" where
  "demo_module n = \<lparr>tm_offset = 0, tm_align = 16, tm_blocksize = n, tm_firstbyte_offset = 0, tm_modid = 2,
     tm_real_relocated = False, tm_need_tls_init = False\<rparr>"

theorem static_tls_disjoint_witness:
  "\<exists>a b s'. place_all 2304 [(False, demo_module 40), (False, demo_module 4000), (True, demo_module 72)] demo_tls = Some ([a, b], s') \<and>
    tm_offset a = 208 \<and> tm_offset b = 288 \<and> block_end a \<le> block_end b - 72"
proof -
  obtain a b s' where r: "place_all 2304 [(False, demo_module 40), (False, demo_module 4000), (True, demo_module 72)] demo_tls = Some ([a, b], s')"
    and f: "tm_offset a = 208" "tm_offset b = 288" "tm_blocksize b = 72"
    by (simp add: dl_try_allocate_static_tls_def Let_def demo_tls_def demo_module_def finish_static_tls_def)
  have "block_end a \<le> block_end b - unat (tm_blocksize b)"
    using static_tls_disjoint [OF r, of 0 1] by (simp add: demo_module_def demo_tls_def)
  then show ?thesis using r f by auto
qed

end
