(* ===== verification/Loader_Placeholder.thy ===== *)
theory Loader_Placeholder
  imports Loader_Lookup
begin

text \<open>
  Symbol resolution of relocations (\<open>src/glibc-platypus/elf/dl-reloc.c\<close>): counting the symbols of
  an object from its hash tables (\<open>get_dynsymtab_and_count_from_link_map\<close>) and \<open>resolve_map\<close>, which
  Platypus extends with the forwarding of the placeholder symbols: the \<open>k\<close>-th placeholder of the
  main program, named \<open>placeholder<k>_<name>\<close>, resolves to the function \<open><name>\<close>, and the name is
  recorded so that a later lookup of \<open><name>\<close> answers with the placeholder's PLT entry
  (\<open>elf/placeholder-arr.c\<close> holds the tables).
\<close>

section \<open>Counting symbols\<close>

type_synonym words = "u64 \<Rightarrow> u32"

record dyn_info =
  di_syms :: "u64 option"
  di_hash :: u64
  di_gnu_hash :: u64

abbreviation (input) "DT_HASH \<equiv> (4 :: u64)"
abbreviation (input) "DT_SYMTAB \<equiv> (6 :: u64)"
abbreviation (input) "DT_GNU_HASH \<equiv> (0x6ffffef5 :: u64)"

fun scan_dynamic :: "(u64 \<times> u64) list \<Rightarrow> dyn_info \<Rightarrow> dyn_info" where
  "scan_dynamic [] d = d"
| "scan_dynamic ((tag, val) # rest) d =
    (if tag = 0 then d
     else scan_dynamic rest
       (if tag = DT_SYMTAB then d\<lparr>di_syms := Some val\<rparr>
        else if tag = DT_HASH then d\<lparr>di_hash := val\<rparr>
        else if tag = DT_GNU_HASH then d\<lparr>di_gnu_hash := val\<rparr>
        else d))"

definition word_at :: "words \<Rightarrow> u64 \<Rightarrow> u64 \<Rightarrow> u32" where
  "word_at w a i = w (a + 4 * i)"

fun max_bucket :: "words \<Rightarrow> u64 \<Rightarrow> nat \<Rightarrow> nat \<Rightarrow> u32 \<Rightarrow> u32" where
  "max_bucket w buckets i 0 max_sym = max_sym"
| "max_bucket w buckets i (Suc n) max_sym =
    max_bucket w buckets (Suc i) n
      (if word_at w buckets (of_nat i) > max_sym then word_at w buckets (of_nat i) else max_sym)"

partial_function (option) chain_end :: "words \<Rightarrow> u64 \<Rightarrow> u32 \<Rightarrow> u32 option" where
  "chain_end w chain_base idx =
    (if word_at w chain_base (ucast idx) AND 1 \<noteq> 0 then Some idx else chain_end w chain_base (idx + 1))"

definition gnu_symbol_count :: "words \<Rightarrow> u64 \<Rightarrow> u32 option" where
  "gnu_symbol_count w gnu =
    (let nbuckets = word_at w gnu 0;
         symoffset = word_at w gnu 1;
         buckets = gnu + 4 * (4 + 2 * ucast (word_at w gnu 2));
         max_sym = max_bucket w buckets 0 (unat nbuckets) 0;
         chain_base = buckets + 4 * ucast nbuckets
     in if max_sym < symoffset then Some symoffset
        else map_option (\<lambda>idx. symoffset + idx + 1) (chain_end w chain_base (max_sym - symoffset)))"

definition get_dynsymtab_and_count :: "(u64 \<times> u64) list \<Rightarrow> words \<Rightarrow> (u64 option \<times> u64) option" where
  "get_dynsymtab_and_count dyn w =
    (let d = scan_dynamic dyn \<lparr>di_syms = None, di_hash = 0, di_gnu_hash = 0\<rparr> in
     if di_hash d \<noteq> 0 then Some (di_syms d, ucast (word_at w (di_hash d) 1))
     else if di_gnu_hash d \<noteq> 0 then map_option (\<lambda>n. (di_syms d, ucast n)) (gnu_symbol_count w (di_gnu_hash d))
     else Some (di_syms d, 0))"

section \<open>Resolving a reference\<close>

text \<open>
  The answer of a lookup is a pointer: to an object, to one of the two static maps \<open>fake_map\<close> and
  \<open>exp_map\<close> (whose address fields are part of the state), or null.
\<close>

datatype lookup_t = L_Map nat | L_Fake | L_Exp | L_Null

datatype sym_ptr = Sym_Null | Sym_Ref symref | Sym_Fake

record lookup_cache =
  lc_sym :: sym_ptr
  lc_class :: int
  lc_ret :: sym_ptr
  lc_value :: lookup_t

record resolve_state =
  rv_search :: u8
  rv_symbols :: "string list"
  rv_placeholded :: int
  rv_fake_addr :: u64
  rv_exp_addr :: u64
  rv_cache :: "nat \<Rightarrow> lookup_cache"
  rv_lstate :: lstate

record main_dyn =
  md_dynamic :: "(u64 \<times> u64) list"
  md_hash :: "u64 option"
  md_words :: words

datatype resolve_outcome = Resolved lookup_t sym_ptr resolve_state | Lookup_Error resolve_state

definition elf_machine_type_class :: "u64 \<Rightarrow> int" where
  "elf_machine_type_class r_type =
    ((if r_type \<in> {7, 16, 17, 18, 36} then 1 else 0) * ELF_RTYPE_CLASS_PLT
      OR (if r_type = 5 then 1 else 0) * ELF_RTYPE_CLASS_COPY)"

definition binds_local :: "lsym \<Rightarrow> bool" where
  "binds_local y = (y_vis y = STV_HIDDEN \<or> y_vis y = STV_INTERNAL)"

definition placeholder_prefix :: "u8 \<Rightarrow> string" where
  "placeholder_prefix k = ''placeholder'' @ [char_of (48 + unat k), CHR ''_'']"

definition with_placeholders :: "lookup_env \<Rightarrow> resolve_state \<Rightarrow> lookup_env" where
  "with_placeholders E rv =
    E\<lparr>le_placeholded := nat (rv_placeholded rv), le_placeholder_symbols := (\<lambda>i. rv_symbols rv ! i)\<rparr>"

fun settle :: "sym_ptr \<Rightarrow> lookup_result \<Rightarrow> resolve_state \<Rightarrow> (lookup_t \<times> sym_ptr \<times> resolve_state) option" where
  "settle ref (Bound m s) rv = Some (L_Map m, case s of None \<Rightarrow> Sym_Null | Some r \<Rightarrow> Sym_Ref r, rv)"
| "settle ref (Fake_Map a) rv = Some (L_Fake, Sym_Fake, rv\<lparr>rv_fake_addr := a\<rparr>)"
| "settle ref (Exp_Map a) rv = Some (L_Exp, ref, rv\<lparr>rv_exp_addr := a\<rparr>)"
| "settle ref Undefined rv = Some (L_Null, Sym_Null, rv)"
| "settle ref Signalled rv = None"

fun find_prefixed :: "(nat \<Rightarrow> lsym) \<Rightarrow> string \<Rightarrow> nat \<Rightarrow> nat \<Rightarrow> nat option" where
  "find_prefixed syms pfx i 0 = None"
| "find_prefixed syms pfx i (Suc n) =
    (if y_name (syms i) = [] then find_prefixed syms pfx (Suc i) n
     else if take (length pfx) (y_name (syms i)) = pfx then Some i
     else find_prefixed syms pfx (Suc i) n)"

definition record_placeholder :: "string \<Rightarrow> resolve_state \<Rightarrow> resolve_state" where
  "record_placeholder rest rv =
    (if rv_search rv \<le> 10
     then rv\<lparr>rv_symbols := (rv_symbols rv)[unat (rv_search rv) - 1 := take 47 rest],
             rv_search := rv_search rv + 1, rv_placeholded := rv_placeholded rv + 1\<rparr>
     else rv)"

definition main_symbol_count :: "main_dyn \<Rightarrow> u64 option" where
  "main_symbol_count D =
    (case md_hash D of
       Some h \<Rightarrow> Some (ucast (word_at (md_words D) h 1))
     | None \<Rightarrow> map_option snd (get_dynsymtab_and_count (md_dynamic D) (md_words D)))"

definition used_version :: "version option \<Rightarrow> version option" where
  "used_version ver = (case ver of Some v \<Rightarrow> if v_hash v \<noteq> 0 then Some v else None | None \<Rightarrow> None)"

text \<open>\<open>Inl\<close> is the return from the branch for placeholders, \<open>Inr\<close> the way to the ordinary lookup.\<close>

definition forward_placeholder ::
    "lookup_env \<Rightarrow> main_dyn \<Rightarrow> nat \<Rightarrow> nat list list \<Rightarrow> nat list list \<Rightarrow> version option \<Rightarrow> u64 \<Rightarrow> string \<Rightarrow> resolve_state
      \<Rightarrow> (resolve_outcome + resolve_state) option" where
  "forward_placeholder E D l scopes l_scope ver r_type pfx rv = do {
     nsyms \<leftarrow> main_symbol_count D;
     let syms = o_symtab (ls_objs (rv_lstate rv) (le_main_map E));
     case find_prefixed syms pfx 0 (unat nsyms) of
       None \<Rightarrow> Some (Inr (rv\<lparr>rv_search := 0\<rparr>))
     | Some i \<Rightarrow> do {
         let rest = drop (length pfx) (y_name (syms i));
         (res, st) \<leftarrow> dl_lookup_symbol_x (with_placeholders E rv) rest l None scopes l_scope (used_version ver)
                        (elf_machine_type_class r_type) (DL_LOOKUP_ADD_DEPENDENCY OR DL_LOOKUP_FOR_RELOCATE) None (rv_lstate rv);
         let rv = rv\<lparr>rv_lstate := st\<rparr>;
         (case settle Sym_Null res rv of
            None \<Rightarrow> Some (Inl (Lookup_Error rv))
          | Some (lr, found, rv) \<Rightarrow>
              if lr \<noteq> L_Null then Some (Inl (Resolved lr found (record_placeholder rest rv)))
              else Some (Inr (rv\<lparr>rv_search := 0\<rparr>)))
       }
   }"

definition ordinary_lookup ::
    "lookup_env \<Rightarrow> nat \<Rightarrow> nat list list \<Rightarrow> nat list list \<Rightarrow> symref \<Rightarrow> version option \<Rightarrow> u64 \<Rightarrow> resolve_state
      \<Rightarrow> resolve_outcome option" where
  "ordinary_lookup E l scopes l_scope ref ver r_type rv =
    (let c = rv_cache rv l; tc = elf_machine_type_class r_type in
     if Sym_Ref ref = lc_sym c \<and> tc = lc_class c then Some (Resolved (lc_value c) (lc_ret c) rv)
     else do {
       let rv = rv\<lparr>rv_cache := (rv_cache rv)(l := c\<lparr>lc_class := tc, lc_sym := Sym_Ref ref\<rparr>)\<rparr>;
       (res, st) \<leftarrow> dl_lookup_symbol_x (with_placeholders E rv) (y_name (sym_at (ls_objs (rv_lstate rv)) ref)) l (Some ref)
                      scopes l_scope (used_version ver) tc (DL_LOOKUP_ADD_DEPENDENCY OR DL_LOOKUP_FOR_RELOCATE) None (rv_lstate rv);
       let rv = rv\<lparr>rv_lstate := st\<rparr>;
       (case settle (Sym_Ref ref) res rv of
          None \<Rightarrow> Some (Lookup_Error rv)
        | Some (lr, ret, rv) \<Rightarrow>
            Some (Resolved lr ret (rv\<lparr>rv_cache := (rv_cache rv)(l := (rv_cache rv l)\<lparr>lc_ret := ret, lc_value := lr\<rparr>)\<rparr>)))
     })"

definition resolve_map ::
    "lookup_env \<Rightarrow> main_dyn \<Rightarrow> nat \<Rightarrow> nat list list \<Rightarrow> nat list list \<Rightarrow> symref \<Rightarrow> version option \<Rightarrow> u64 \<Rightarrow> resolve_state
      \<Rightarrow> resolve_outcome option" where
  "resolve_map E D l scopes l_scope ref ver r_type rv =
    (let y = sym_at (ls_objs (rv_lstate rv)) ref; undef_name = y_name y in
     if y_bind y = 0 \<or> binds_local y then Some (Resolved (L_Map l) (Sym_Ref ref) rv)
     else do {
       r \<leftarrow> (let pfx = placeholder_prefix (rv_search rv) in
             if rv_search rv \<noteq> 0 \<and> take (length pfx - 1) undef_name = take (length pfx - 1) pfx
             then forward_placeholder E D l scopes l_scope ver r_type pfx rv
             else Some (Inr rv));
       (case r of
          Inl out \<Rightarrow> Some out
        | Inr rv \<Rightarrow>
            if take 11 undef_name = ''placeholder'' then Some (Resolved (L_Map l) (Sym_Ref ref) rv)
            else ordinary_lookup E l scopes l_scope ref ver r_type rv)
     })"

section \<open>The symbol count of a GNU hash table\<close>

lemma max_bucket_upper:
  "max_sym \<le> max_bucket w b i n max_sym \<and> (\<forall>j<n. word_at w b (of_nat (i + j)) \<le> max_bucket w b i n max_sym)"
proof (induction n arbitrary: i max_sym)
  case (Suc n)
  define x where "x = word_at w b (of_nat i)"
  define m where "m = (if x > max_sym then x else max_sym)"
  have m: "max_sym \<le> m" "x \<le> m" by (auto simp: m_def)
  have "word_at w b (of_nat (i + j)) \<le> max_bucket w b (Suc i) n m" if "j < Suc n" for j
    using Suc [of m "Suc i"] that m unfolding x_def by (cases j) (auto intro: order_trans)
  then show ?case using Suc [of m "Suc i"] m by (auto simp: m_def x_def intro: order_trans)
qed simp

lemma max_bucket_mem:
  "max_bucket w b i n max_sym = max_sym \<or> (\<exists>j<n. max_bucket w b i n max_sym = word_at w b (of_nat (i + j)))"
proof (induction n arbitrary: i max_sym)
  case (Suc n)
  define m where "m = (if word_at w b (of_nat i) > max_sym then word_at w b (of_nat i) else max_sym)"
  have "max_bucket w b (Suc i) n m = m \<or> (\<exists>j<n. max_bucket w b (Suc i) n m = word_at w b (of_nat (i + Suc j)))"
    using Suc [of "Suc i" m] by simp
  then show ?case unfolding max_bucket.simps m_def [symmetric]
    by (metis Suc_mono add.right_neutral m_def zero_less_Suc)
qed simp

lemma chain_end_run:
  assumes "word_at w c (ucast (idx + of_nat n)) AND 1 \<noteq> 0" "\<forall>k<n. word_at w c (ucast (idx + of_nat k)) AND 1 = 0"
  shows "chain_end w c idx = Some (idx + of_nat n)"
  using assms
proof (induction n arbitrary: idx)
  case 0
  then show ?case by (subst chain_end.simps) simp
next
  case (Suc n)
  have "word_at w c (ucast idx) AND 1 = 0" using Suc.prems(2) [rule_format, of 0] by simp
  moreover have "chain_end w c (idx + 1) = Some (idx + 1 + of_nat n)"
  proof (rule Suc.IH)
    show "word_at w c (ucast (idx + 1 + of_nat n)) AND 1 \<noteq> 0" using Suc.prems(1) by (simp add: ac_simps)
    show "\<forall>k<n. word_at w c (ucast (idx + 1 + of_nat k)) AND 1 = 0"
    proof (intro allI impI)
      fix k assume "k < n"
      then show "word_at w c (ucast (idx + 1 + of_nat k)) AND 1 = 0"
        using Suc.prems(2) [rule_format, of "Suc k"] by (simp add: ac_simps)
    qed
  qed
  ultimately show ?case by (subst chain_end.simps) (simp add: ac_simps)
qed

text \<open>
  A well-formed GNU hash table of \<open>n\<close> symbols, those from \<open>off\<close> on being hashed: a bucket is empty or
  holds the index of the first symbol of its chain, the chain of the last bucket ends with the last symbol.
\<close>

definition hashed_bit :: "words \<Rightarrow> u64 \<Rightarrow> u32 \<Rightarrow> nat \<Rightarrow> bool" where
  "hashed_bit w chain_base off k \<longleftrightarrow> word_at w chain_base (of_nat (k - unat off)) AND 1 \<noteq> 0"

definition gnu_table :: "words \<Rightarrow> u64 \<Rightarrow> u32 \<Rightarrow> u32 \<Rightarrow> u64 \<Rightarrow> nat \<Rightarrow> bool" where
  "gnu_table w gnu nb off buckets n \<longleftrightarrow>
    word_at w gnu 0 = nb \<and> word_at w gnu 1 = off \<and> buckets = gnu + 4 * (4 + 2 * ucast (word_at w gnu 2)) \<and> n < 2 ^ 32 \<and>
    (if n = unat off then \<forall>j<unat nb. word_at w buckets (of_nat j) = 0
     else \<exists>j<unat nb. off \<le> word_at w buckets (of_nat j) \<and> unat (word_at w buckets (of_nat j)) < n \<and>
            (\<forall>j'<unat nb. word_at w buckets (of_nat j') \<le> word_at w buckets (of_nat j)) \<and>
            hashed_bit w (buckets + 4 * ucast nb) off (n - 1) \<and>
            (\<forall>k. unat (word_at w buckets (of_nat j)) \<le> k \<and> k < n - 1 \<longrightarrow> \<not> hashed_bit w (buckets + 4 * ucast nb) off k))"

lemma max_bucket_greatest:
  assumes "j < n" "\<forall>j'<n. word_at w b (of_nat j') \<le> word_at w b (of_nat j)"
  shows "max_bucket w b 0 n 0 = word_at w b (of_nat j)"
proof (rule antisym)
  show "max_bucket w b 0 n 0 \<le> word_at w b (of_nat j)" using max_bucket_mem [of w b 0 n 0] assms(2) by auto
  show "word_at w b (of_nat j) \<le> max_bucket w b 0 n 0" using max_bucket_upper [of 0 w b 0 n] assms(1) by auto
qed

lemma chain_index:
  assumes "off \<le> first" "unat first + k < 2 ^ 32"
  shows "ucast (first - off + of_nat k :: u32) = (of_nat (unat first + k - unat off) :: u64)"
proof -
  have d: "unat (first - off) = unat first - unat off" "unat off \<le> unat first"
    using assms(1) by (simp_all add: unat_sub word_le_nat_alt)
  have k: "unat (of_nat k :: u32) = k" using assms(2) by (subst unat_of_nat) simp
  have "unat (first - off + of_nat k) = unat first + k - unat off"
    using d assms(2) k by (subst unat_add_lem [THEN iffD1]) simp_all
  then show ?thesis by (metis of_nat_unat)
qed

lemma gnu_symbol_count_table:
  assumes "gnu_table w gnu nb off buckets n" "off \<noteq> 0"
  shows "gnu_symbol_count w gnu = Some (of_nat n)"
proof (cases "n = unat off")
  case True
  then have "max_bucket w buckets 0 (unat nb) 0 = 0"
    using max_bucket_mem [of w buckets 0 "unat nb" 0] assms(1) by (auto simp: gnu_table_def)
  then show ?thesis using assms True by (auto simp: gnu_table_def gnu_symbol_count_def Let_def word_gt_0)
next
  case False
  define cb where "cb = buckets + 4 * ucast nb"
  obtain j where "j < unat nb" "\<forall>j'<unat nb. word_at w buckets (of_nat j') \<le> word_at w buckets (of_nat j)"
    and f: "off \<le> word_at w buckets (of_nat j)" "unat (word_at w buckets (of_nat j)) < n" "hashed_bit w cb off (n - 1)"
      "\<forall>k. unat (word_at w buckets (of_nat j)) \<le> k \<and> k < n - 1 \<longrightarrow> \<not> hashed_bit w cb off k"
    using assms(1) False by (auto simp: gnu_table_def cb_def)
  then have m: "max_bucket w buckets 0 (unat nb) 0 = word_at w buckets (of_nat j)" by (intro max_bucket_greatest)
  define first where "first = word_at w buckets (of_nat j)"
  have lim: "n < 2 ^ 32" using assms(1) by (simp add: gnu_table_def)
  define d where "d = n - 1 - unat first"
  have d: "unat first + d = n - 1" using f(2) by (simp add: d_def first_def)
  have bits: "(word_at w cb (ucast (first - off + of_nat k)) AND 1 \<noteq> 0) = hashed_bit w cb off (unat first + k)" if "k \<le> d" for k
    using f(1) that d lim by (subst chain_index) (simp_all add: hashed_bit_def first_def)
  have run: "chain_end w cb (first - off) = Some (first - off + of_nat d)"
  proof (rule chain_end_run)
    show "word_at w cb (ucast (first - off + of_nat d)) AND 1 \<noteq> 0" using bits [of d] f(3) d by simp
    show "\<forall>k<d. word_at w cb (ucast (first - off + of_nat k)) AND 1 = 0"
    proof (intro allI impI)
      fix k assume "k < d"
      then have "\<not> hashed_bit w cb off (unat first + k)" using f(4) d unfolding first_def by force
      then show "word_at w cb (ucast (first - off + of_nat k)) AND 1 = 0" using bits [of k] \<open>k < d\<close> by simp
    qed
  qed
  have "off + (first - off + of_nat d) + 1 = of_nat (unat first + d + 1)" by simp
  also have "\<dots> = of_nat n" using d f(2) by simp
  finally have r: "off + (first - off + of_nat d) + 1 = of_nat n" .
  have h: "word_at w gnu 0 = nb" "word_at w gnu 1 = off" "buckets = gnu + 4 * (4 + 2 * ucast (word_at w gnu 2))"
    using assms(1) by (simp_all add: gnu_table_def)
  have nl: "\<not> word_at w buckets (of_nat j) < off" using f(1) by (simp add: not_less)
  have "gnu_symbol_count w gnu = map_option (\<lambda>idx. off + idx + 1) (chain_end w cb (first - off))"
    using h m nl by (simp add: gnu_symbol_count_def Let_def cb_def first_def)
  then show ?thesis using run r by simp
qed

text \<open>
  C32: The number of dynamic symbols computed from a GNU hash table is right, and the search for it
  ends: when the dynamic section has no SysV hash table and the GNU hash table is well formed, the
  result is the symbol table found in the dynamic section with the number of its symbols.
\<close>

theorem dynsym_count_correct:
  assumes "scan_dynamic dyn \<lparr>di_syms = None, di_hash = 0, di_gnu_hash = 0\<rparr> = \<lparr>di_syms = tab, di_hash = 0, di_gnu_hash = gnu\<rparr>"
    and "gnu \<noteq> 0" "gnu_table w gnu nb off buckets n" "off \<noteq> 0"
  shows "\<exists>c. get_dynsymtab_and_count dyn w = Some (tab, c) \<and> unat c = n"
proof -
  have "n < 2 ^ 32" using assms(3) by (simp add: gnu_table_def)
  then have "unat (ucast (of_nat n :: u32) :: u64) = n" by (simp add: unat_ucast_up unat_of_nat)
  then show ?thesis
    using gnu_symbol_count_table [OF assms(3,4)] assms(1,2) by (simp add: get_dynsymtab_and_count_def)
qed

definition demo_gnu :: words where
  "demo_gnu = (\<lambda>a. 0)(0x1000 := 1, 0x1004 := 1, 0x1008 := 1, 0x1018 := 1, 0x101c := 6, 0x1020 := 7)"

theorem dynsym_count_correct_witness:
  "\<exists>c. get_dynsymtab_and_count [(5, 0x500), (6, 0x600), (0x6ffffef5, 0x1000), (0, 0)] demo_gnu = Some (Some 0x600, c) \<and> unat c = 3"
proof -
  have "\<not> hashed_bit demo_gnu 0x101c 1 k" if "1 \<le> k" "k < 2" for k
    using that by (cases "k = 1") (simp_all add: hashed_bit_def demo_gnu_def word_at_def)
  moreover have "hashed_bit demo_gnu 0x101c 1 2" by (simp add: hashed_bit_def demo_gnu_def word_at_def)
  ultimately have "gnu_table demo_gnu 0x1000 1 1 0x1018 3"
    by (simp add: gnu_table_def word_at_def demo_gnu_def)
  then show ?thesis
    using dynsym_count_correct [of "[(5, 0x500), (6, 0x600), (0x6ffffef5, 0x1000), (0, 0)]" "Some 0x600" "0x1000" demo_gnu 1 1 "0x1018" 3]
    by simp
qed

section \<open>The placeholder table\<close>

lemma find_placeholder_first:
  assumes "j < n" "name = le_placeholder_symbols E (i + j)" "\<forall>j'<j. name \<noteq> le_placeholder_symbols E (i + j')"
  shows "find_placeholder E name i n = Some (i + j)"
  using assms
proof (induction n arbitrary: i j)
  case (Suc n)
  show ?case
  proof (cases j)
    case 0
    then show ?thesis using Suc.prems by simp
  next
    case (Suc k)
    have "name \<noteq> le_placeholder_symbols E i" using Suc Suc.prems(3) by (metis add.right_neutral zero_less_Suc)
    moreover have "find_placeholder E name (Suc i) n = Some (Suc i + k)"
      using Suc.prems Suc by (intro Suc.IH) (auto simp flip: add_Suc_right)
    ultimately show ?thesis using Suc by simp
  qed
qed simp

lemma find_placeholder_none:
  assumes "\<forall>j<n. name \<noteq> le_placeholder_symbols E (i + j)"
  shows "find_placeholder E name i n = None"
  using assms
proof (induction n arbitrary: i)
  case (Suc n)
  have "name \<noteq> le_placeholder_symbols E i" using Suc.prems by (metis add.right_neutral zero_less_Suc)
  moreover have "find_placeholder E name (Suc i) n = None"
    using Suc.prems by (intro Suc.IH) (auto simp flip: add_Suc_right)
  ultimately show ?case by simp
qed simp

definition placeholders_ok :: "resolve_state \<Rightarrow> bool" where
  "placeholders_ok rv \<longleftrightarrow> length (rv_symbols rv) = 10 \<and> (\<forall>nm \<in> set (rv_symbols rv). length nm \<le> 47) \<and>
     unat (rv_search rv) \<le> 11 \<and> 0 \<le> rv_placeholded rv \<and> rv_placeholded rv \<le> 10 \<and>
     (rv_search rv \<noteq> 0 \<longrightarrow> rv_placeholded rv = int (unat (rv_search rv)) - 1)"

fun outcome_state :: "resolve_outcome \<Rightarrow> resolve_state" where
  "outcome_state (Resolved lr ref rv) = rv"
| "outcome_state (Lookup_Error rv) = rv"

lemma placeholders_ok_updates [simp]:
  "placeholders_ok (rv\<lparr>rv_lstate := st\<rparr>) = placeholders_ok rv" "placeholders_ok (rv\<lparr>rv_cache := c\<rparr>) = placeholders_ok rv"
  "placeholders_ok (rv\<lparr>rv_fake_addr := a\<rparr>) = placeholders_ok rv" "placeholders_ok (rv\<lparr>rv_exp_addr := a\<rparr>) = placeholders_ok rv"
  "placeholders_ok rv \<Longrightarrow> placeholders_ok (rv\<lparr>rv_search := 0\<rparr>)"
  by (simp_all add: placeholders_ok_def)

lemma settle_ok: "settle ref res rv = Some (lr, r, rv') \<Longrightarrow> placeholders_ok rv' = placeholders_ok rv \<and> rv_search rv' = rv_search rv"
  by (cases res) auto

lemma search_next:
  assumes "rv_search rv \<le> 10"
  shows "unat (rv_search rv + 1) = unat (rv_search rv) + 1" "unat (rv_search rv) \<le> 10" "rv_search rv + 1 \<noteq> 0" "uint (rv_search rv) \<le> 10"
proof -
  show b: "unat (rv_search rv) \<le> 10" using assms by (simp add: word_le_nat_alt)
  then show n: "unat (rv_search rv + 1) = unat (rv_search rv) + 1" by (subst unat_add_lem [THEN iffD1]) simp_all
  then show "rv_search rv + 1 \<noteq> 0" by (metis Suc_eq_plus1 nat.distinct(1) unat_0)
  have "int (unat (rv_search rv)) \<le> 10" using b by linarith
  then show "uint (rv_search rv) \<le> 10" by simp
qed

lemma record_placeholder_ok:
  assumes "placeholders_ok rv" "rv_search rv \<noteq> 0"
  shows "placeholders_ok (record_placeholder rest rv)"
proof (cases "rv_search rv \<le> 10")
  case True
  have "set ((rv_symbols rv)[unat (rv_search rv) - 1 := take 47 rest]) \<subseteq> insert (take 47 rest) (set (rv_symbols rv))"
    by (rule set_update_subset_insert)
  then have "\<forall>nm \<in> set ((rv_symbols rv)[unat (rv_search rv) - 1 := take 47 rest]). length nm \<le> 47"
    using assms(1) by (auto simp: placeholders_ok_def)
  then show ?thesis using True search_next [OF True] assms by (simp add: record_placeholder_def placeholders_ok_def)
qed (use assms in \<open>simp add: record_placeholder_def\<close>)

lemma forward_placeholder_ok:
  assumes "forward_placeholder E D l scopes l_scope ver r_type pfx rv = Some r" "placeholders_ok rv" "rv_search rv \<noteq> 0"
  shows "case r of Inl out \<Rightarrow> placeholders_ok (outcome_state out) | Inr rv' \<Rightarrow> placeholders_ok rv'"
  using assms by (auto simp: forward_placeholder_def Let_def record_placeholder_ok dest!: settle_ok
      split: bind_splits option.splits if_splits)

lemma ordinary_lookup_ok:
  assumes "ordinary_lookup E l scopes l_scope ref ver r_type rv = Some out" "placeholders_ok rv"
  shows "placeholders_ok (outcome_state out)"
  using assms by (auto simp: ordinary_lookup_def Let_def dest!: settle_ok split: bind_splits option.splits if_splits)

text \<open>
  C28: Resolving relocations never writes outside the tables of placeholders and keeps the count of
  recorded names in step with the number of the placeholder searched for.  At most ten names are
  recorded, none longer than the 47 characters a table entry holds.
\<close>

theorem resolve_map_invariant:
  assumes "placeholders_ok rv" "resolve_map E D l scopes l_scope ref ver r_type rv = Some out"
  shows "placeholders_ok (outcome_state out)"
proof -
  let ?y = "sym_at (ls_objs (rv_lstate rv)) ref"
  show ?thesis
  proof (cases "y_bind ?y = 0 \<or> binds_local ?y")
    case True
    then show ?thesis using assms by (auto simp: resolve_map_def)
  next
    case False
    then obtain r where r: "r = Inr rv \<or> (rv_search rv \<noteq> 0 \<and>
        forward_placeholder E D l scopes l_scope ver r_type (placeholder_prefix (rv_search rv)) rv = Some r)"
      and o: "(case r of Inl out \<Rightarrow> Some out | Inr rv \<Rightarrow>
          if take 11 (y_name ?y) = ''placeholder'' then Some (Resolved (L_Map l) (Sym_Ref ref) rv)
          else ordinary_lookup E l scopes l_scope ref ver r_type rv) = Some out"
      using assms(2) unfolding resolve_map_def Let_def by (auto split: bind_splits if_splits)
    have "case r of Inl out \<Rightarrow> placeholders_ok (outcome_state out) | Inr rv' \<Rightarrow> placeholders_ok rv'"
      using r forward_placeholder_ok assms(1) by (metis sum.case(2))
    then show ?thesis using o ordinary_lookup_ok by (auto split: sum.splits if_splits)
  qed
qed

definition demo_symbols :: "nat \<Rightarrow> lsym" where
  "demo_symbols k = \<lparr>y_name = (if k = 2 then ''placeholder1_callback_table'' else if k = 3 then ''placeholder1'' else ''main''),
     y_bind = 1, y_type = 2, y_vis = 0, y_shndx = 0, y_value = 0\<rparr>"

definition demo_resolve :: resolve_state where
  "demo_resolve = \<lparr>rv_search = 1, rv_symbols = replicate 10 [], rv_placeholded = 0, rv_fake_addr = 0, rv_exp_addr = 0,
     rv_cache = (\<lambda>l. \<lparr>lc_sym = Sym_Null, lc_class = 0, lc_ret = Sym_Null, lc_value = L_Null\<rparr>),
     rv_lstate = demo_lstate\<lparr>ls_objs := (\<lambda>k. (demo_store k)\<lparr>o_symtab := demo_symbols\<rparr>)\<rparr>\<rparr>"

definition demo_main_dyn :: main_dyn where
  "demo_main_dyn = \<lparr>md_dynamic = [], md_hash = Some 0x2000, md_words = (\<lambda>a. 4)\<rparr>"

lemma demo_resolve_ok: "placeholders_ok demo_resolve"
  by (simp add: placeholders_ok_def demo_resolve_def)

lemma length_placeholder_prefix [simp]: "length (placeholder_prefix k) = 13"
  by (simp add: placeholder_prefix_def)

lemma resolve_map_forwards:
  assumes y: "y_bind (sym_at (ls_objs (rv_lstate rv)) ref) \<noteq> 0" "\<not> binds_local (sym_at (ls_objs (rv_lstate rv)) ref)"
      "take 12 (y_name (sym_at (ls_objs (rv_lstate rv)) ref)) = take 12 (placeholder_prefix (rv_search rv))"
    and main: "rv_search rv \<noteq> 0" "main_symbol_count D = Some n"
      "find_prefixed (o_symtab (ls_objs (rv_lstate rv) (le_main_map E))) (placeholder_prefix (rv_search rv)) 0 (unat n) = Some i"
      "y_name (o_symtab (ls_objs (rv_lstate rv) (le_main_map E)) i) = placeholder_prefix (rv_search rv) @ rest"
    and look: "dl_lookup_symbol_x (with_placeholders E rv) rest l None scopes l_scope (used_version ver)
         (elf_machine_type_class r_type) 9 None (rv_lstate rv) = Some (res, st)"
      "settle Sym_Null res (rv\<lparr>rv_lstate := st\<rparr>) = Some (lr, found, rv1)" "lr \<noteq> L_Null"
  shows "resolve_map E D l scopes l_scope ref ver r_type rv = Some (Resolved lr found (record_placeholder rest rv1))"
proof -
  have "(DL_LOOKUP_ADD_DEPENDENCY OR DL_LOOKUP_FOR_RELOCATE) = 9" by code_simp
  then have "forward_placeholder E D l scopes l_scope ver r_type (placeholder_prefix (rv_search rv)) rv =
      Some (Inl (Resolved lr found (record_placeholder rest rv1)))"
    unfolding forward_placeholder_def Let_def by (simp add: main look)
  then show ?thesis using y main(1) by (simp add: resolve_map_def Let_def)
qed

lemma recorded_name_found:
  assumes "placeholders_ok rv" "rv_search rv \<noteq> 0" "rv_search rv \<le> 10"
    and "length rest \<le> 47" "rest \<notin> set (take (unat (rv_search rv) - 1) (rv_symbols rv))"
  shows "dl_lookup_symbol_x (with_placeholders E (record_placeholder rest rv)) rest l ref scopes us ver tc fl skip st =
    Some (Fake_Map (le_placeholder_plts E (unat (rv_search rv) - 1)), st)"
proof -
  define k where "k = unat (rv_search rv) - 1"
  define E' where "E' = with_placeholders E (record_placeholder rest rv)"
  have u: "unat (rv_search rv) = Suc k" using assms(2) unat_gt_0 [of "rv_search rv"] unfolding k_def by linarith
  have "rv_placeholded rv = int (unat (rv_search rv)) - 1" "length (rv_symbols rv) = 10"
    using assms(1,2) unfolding placeholders_ok_def by blast+
  then have k: "k < 10" "rv_placeholded rv = int k" "unat (rv_search rv) = Suc k" "length (rv_symbols rv) = 10"
    using u search_next(2) [OF assms(3)] by simp_all
  have E': "le_placeholded E' = Suc k" "le_placeholder_symbols E' = (\<lambda>i. (rv_symbols rv)[k := rest] ! i)"
    "le_placeholder_plts E' = le_placeholder_plts E"
    using assms(3,4) k by (auto simp: E'_def with_placeholders_def record_placeholder_def)
  have "find_placeholder E' rest 0 (Suc k) = Some (0 + k)"
  proof (rule find_placeholder_first)
    show "\<forall>j'<k. rest \<noteq> le_placeholder_symbols E' (0 + j')"
    proof (intro allI impI)
      fix j assume "j < k"
      then have "rv_symbols rv ! j \<in> set (take k (rv_symbols rv))" using k by (auto simp: in_set_conv_nth intro!: exI [of _ j])
      then show "rest \<noteq> le_placeholder_symbols E' (0 + j)" using assms(5) \<open>j < k\<close> by (auto simp: E' k_def)
    qed
  qed (use k in \<open>simp_all add: E'\<close>)
  then show ?thesis unfolding E'_def [symmetric] k_def [symmetric] by (subst dl_lookup_symbol_x.simps) (simp add: E')
qed


lemma demo_sym_at: "sym_at (ls_objs (rv_lstate demo_resolve)) (m, k) = demo_symbols k"
  by (simp add: demo_resolve_def sym_at_def)

lemma demo_prefix: "placeholder_prefix 1 = ''placeholder1_''"
  by code_simp

lemma demo_lookup_missing:
  "dl_lookup_symbol_x (with_placeholders demo_lookup demo_resolve) ''callback_table'' 1 None [] [] None 1 9 None (rv_lstate demo_resolve) =
    Some (Exp_Map (o_base (demo_store 1)), rv_lstate demo_resolve)"
proof -
  have "find_placeholder (with_placeholders demo_lookup demo_resolve) ''callback_table'' 0
      (le_placeholded (with_placeholders demo_lookup demo_resolve)) = None"
    by (simp add: with_placeholders_def demo_resolve_def)
  moreover have "\<not> le_debug_unused (with_placeholders demo_lookup demo_resolve)"
    by (simp add: with_placeholders_def demo_lookup_def)
  ultimately show ?thesis
    by (subst dl_lookup_symbol_x.simps) (simp add: Let_def, simp add: demo_resolve_def)
qed


theorem resolve_map_invariant_witness:
  "\<exists>out. resolve_map demo_lookup demo_main_dyn 1 [] [] (1, 2) None 7 (demo_resolve\<lparr>rv_search := 0\<rparr>) = Some out \<and>
    placeholders_ok (outcome_state out)"
proof -
  have "resolve_map demo_lookup demo_main_dyn 1 [] [] (1, 2) None 7 (demo_resolve\<lparr>rv_search := 0\<rparr>) =
      Some (Resolved (L_Map 1) (Sym_Ref (1, 2)) (demo_resolve\<lparr>rv_search := 0\<rparr>))"
    using demo_sym_at [of 1 2] by (simp add: resolve_map_def Let_def binds_local_def demo_symbols_def)
  then show ?thesis using resolve_map_invariant [of "demo_resolve\<lparr>rv_search := 0\<rparr>"] demo_resolve_ok by auto
qed

text \<open>
  A name of 48 or more characters is never served by a placeholder: the table entry holds its
  first 47 characters, and no lookup of the full name matches it.
\<close>

theorem long_name_not_intercepted:
  assumes "placeholders_ok rv" "48 \<le> length name"
  shows "find_placeholder (with_placeholders E rv) name 0 (nat (rv_placeholded rv)) = None"
proof (rule find_placeholder_none, intro allI impI)
  fix j assume "j < nat (rv_placeholded rv)"
  then have "rv_symbols rv ! j \<in> set (rv_symbols rv)" using assms(1) by (auto simp: placeholders_ok_def intro: nth_mem)
  then show "name \<noteq> le_placeholder_symbols (with_placeholders E rv) (0 + j)"
    using assms by (auto simp: placeholders_ok_def with_placeholders_def)
qed

theorem long_name_not_intercepted_witness:
  "let rv = record_placeholder (replicate 48 CHR ''f'') demo_resolve
   in rv_placeholded rv = 1 \<and>
     find_placeholder (with_placeholders demo_lookup rv) (replicate 48 CHR ''f'') 0 (nat (rv_placeholded rv)) = None"
proof -
  have "rv_search demo_resolve \<noteq> 0" by (simp add: demo_resolve_def)
  note record_placeholder_ok [OF demo_resolve_ok this, of "replicate 48 CHR ''f''"]
  then show ?thesis
    using long_name_not_intercepted [of "record_placeholder (replicate 48 CHR ''f'') demo_resolve" "replicate 48 CHR ''f''" demo_lookup]
    by (simp add: Let_def record_placeholder_def demo_resolve_def)
qed

end
