(* ===== verification/Loader_Dynamic.thy ===== *)
theory Loader_Dynamic
  imports Loader_Reloc Loader_Main
begin

text \<open>
  Relocating an object: the loops over the relocation tables (\<open>src/glibc-platypus/elf/do-rel.h\<close>), the
  ranges they cover and the compact relative relocations (\<open>elf/dynamic-link.h\<close>), the lazy binding
  setup (\<open>elf_machine_runtime_setup\<close> in \<open>sysdeps/x86_64/dl-machine.h\<close>) and the functions of
  \<open>elf/dl-reloc.c\<close> that call them.  The relocation tables are read from a part of the image that
  relocation does not write, so reading an entry is a function of its address.
\<close>

section \<open>Data\<close>

record dyn_env =
  de_env :: "nat option \<Rightarrow> reloc_env"
  de_table :: "u64 \<Rightarrow> rela"
  de_symtab :: "u64 \<Rightarrow> esym"
  de_versyms :: "(u64 \<Rightarrow> u16) option"
  de_is_rtld :: bool
  de_naudit :: nat
  de_symbind :: "rela \<Rightarrow> esym \<Rightarrow> reloc_map option \<Rightarrow> u64 \<Rightarrow> reloc_state \<Rightarrow> reloc_state"
  de_map_addr :: u64
  de_runtime_resolve :: u64
  de_profile_sse :: u64
  de_profile_avx :: u64
  de_profile_avx512 :: u64
  de_cpu_avx :: bool
  de_cpu_avx512 :: bool

record dyn_tags =
  dt_rela :: "u64 option"
  dt_relasz :: u64
  dt_relacount :: "u64 option"
  dt_pltrel :: "u64 option"
  dt_jmprel :: "u64 option"
  dt_pltrelsz :: "u64 option"
  dt_relr :: "u64 option"
  dt_relrsz :: u64
  dt_pltgot :: u64
  dt_bind_now :: bool
  dt_textrel :: bool

record reloc_range =
  rg_start :: u64
  rg_size :: u64
  rg_nrelative :: u64
  rg_lazy :: bool

definition r_sym :: "rela \<Rightarrow> u64" where
  "r_sym r = drop_bit 32 (r_info r)"

section \<open>The loops over a table\<close>

definition is_irelative :: "rela \<Rightarrow> bool" where
  "is_irelative r = (elf_r_type (r_info r) = R_IRELATIVE)"

definition rel_version :: "dyn_env \<Rightarrow> rela \<Rightarrow> nat option" where
  "rel_version D r = map_option (\<lambda>v. unat (v (r_sym r) AND 0x7fff)) (de_versyms D)"

definition audit_jump_slot :: "dyn_env \<Rightarrow> rela \<Rightarrow> reloc_state \<Rightarrow> reloc_state" where
  "audit_jump_slot D r s =
    (if elf_r_type (r_info r) = R_JUMP_SLOT \<and> de_naudit D > 0
     then
       let (sym_map, sy) = en_resolve (de_env D (rel_version D r)) (rs_map s) (Some (de_symtab D (r_sym r))) R_JUMP_SLOT
       in case sy of None \<Rightarrow> s | Some y \<Rightarrow> de_symbind D r y sym_map (l_addr (rs_map s) + r_offset r) s
     else s)"

definition irel_step :: "dyn_env \<Rightarrow> bool \<Rightarrow> rela \<Rightarrow> reloc_state \<Rightarrow> outcome" where
  "irel_step D skip_ifunc r s =
    elf_machine_rela (de_env D (rel_version D r)) r (Some (de_symtab D (r_sym r))) (l_addr (rs_map s) + r_offset r) skip_ifunc s"

definition rel_step :: "dyn_env \<Rightarrow> bool \<Rightarrow> rela \<Rightarrow> reloc_state \<Rightarrow> outcome" where
  "rel_step D skip_ifunc r s =
    (case irel_step D skip_ifunc r s of Done s' \<Rightarrow> Done (audit_jump_slot D r s') | out \<Rightarrow> out)"

definition lazy_step :: "dyn_env \<Rightarrow> bool \<Rightarrow> rela \<Rightarrow> reloc_state \<Rightarrow> outcome" where
  "lazy_step D skip_ifunc r s =
    elf_machine_lazy_rel (de_env D (rel_version D r)) (l_addr (rs_map s)) r (de_symtab D) skip_ifunc s"

definition relative_step :: "rela \<Rightarrow> reloc_state \<Rightarrow> outcome" where
  "relative_step r s =
    (case elf_machine_rela_relative (l_addr (rs_map s)) r (l_addr (rs_map s) + r_offset r) (rs_mem s) of
       None \<Rightarrow> Crash
     | Some m \<Rightarrow> Done (s\<lparr>rs_mem := m\<rparr>))"

fun run_all :: "('a \<Rightarrow> reloc_state \<Rightarrow> outcome) \<Rightarrow> 'a list \<Rightarrow> reloc_state \<Rightarrow> outcome" where
  "run_all step [] s = Done s"
| "run_all step (r # rs) s = (case step r s of Done s' \<Rightarrow> run_all step rs s' | out \<Rightarrow> out)"

text \<open>The first pass skips indirect relative relocations and remembers the first and the last of them.\<close>

fun rel_pass ::
    "(nat \<Rightarrow> rela) \<Rightarrow> (rela \<Rightarrow> reloc_state \<Rightarrow> outcome) \<Rightarrow> nat list \<Rightarrow> (nat \<times> nat) option \<Rightarrow> reloc_state
      \<Rightarrow> outcome \<times> (nat \<times> nat) option" where
  "rel_pass tab step [] d s = (Done s, d)"
| "rel_pass tab step (r # rs) d s =
    (if is_irelative (tab r)
     then rel_pass tab step rs (Some (case d of None \<Rightarrow> (r, r) | Some (r2, end2) \<Rightarrow> (r2, r))) s
     else case step (tab r) s of Done s' \<Rightarrow> rel_pass tab step rs d s' | out \<Rightarrow> (out, d))"

definition irel_pass ::
    "(nat \<Rightarrow> rela) \<Rightarrow> (rela \<Rightarrow> reloc_state \<Rightarrow> outcome) \<Rightarrow> (nat \<times> nat) option \<Rightarrow> reloc_state \<Rightarrow> outcome" where
  "irel_pass tab step d s =
    (case d of
       None \<Rightarrow> Done s
     | Some (r2, end2) \<Rightarrow>
         run_all (\<lambda>i s. if is_irelative (tab i) then step (tab i) s else Done s) [r2..<Suc end2] s)"

definition two_passes ::
    "(nat \<Rightarrow> rela) \<Rightarrow> (rela \<Rightarrow> reloc_state \<Rightarrow> outcome) \<Rightarrow> (rela \<Rightarrow> reloc_state \<Rightarrow> outcome) \<Rightarrow> nat list \<Rightarrow> reloc_state
      \<Rightarrow> outcome" where
  "two_passes tab step step2 rs s =
    (case rel_pass tab step rs None s of
       (Done s', d) \<Rightarrow> irel_pass tab step2 d s'
     | (out, d) \<Rightarrow> out)"

definition table_entry :: "dyn_env \<Rightarrow> u64 \<Rightarrow> nat \<Rightarrow> rela" where
  "table_entry D start i = de_table D (start + 24 * of_nat i)"

definition elf_dynamic_do_Rela ::
    "dyn_env \<Rightarrow> u64 \<Rightarrow> u64 \<Rightarrow> u64 \<Rightarrow> bool \<Rightarrow> bool \<Rightarrow> reloc_state \<Rightarrow> outcome" where
  "elf_dynamic_do_Rela D reladdr relsize nrelative lazy skip_ifunc s =
    (let tab = table_entry D reladdr;
         rest = [unat nrelative..<(unat relsize + 23) div 24]
     in if lazy then two_passes tab (lazy_step D skip_ifunc) (lazy_step D skip_ifunc) rest s
        else
          case (if de_is_rtld D then Done s else run_all (\<lambda>i. relative_step (tab i)) [0..<unat nrelative] s) of
            Done s' \<Rightarrow> two_passes tab (rel_step D skip_ifunc) (irel_step D skip_ifunc) rest s'
          | out \<Rightarrow> out)"

section \<open>The ranges of a dynamic section\<close>

definition no_range :: reloc_range where
  "no_range = \<lparr>rg_start = 0, rg_size = 0, rg_nrelative = 0, rg_lazy = False\<rparr>"

definition rela_range :: "dyn_tags \<Rightarrow> reloc_range" where
  "rela_range T =
    (case dt_rela T of
       Some p \<Rightarrow>
         if p \<noteq> 0
         then \<lparr>rg_start = p, rg_size = dt_relasz T,
               rg_nrelative = (case dt_relacount T of None \<Rightarrow> 0 | Some n \<Rightarrow> n), rg_lazy = False\<rparr>
         else no_range
     | None \<Rightarrow> no_range)"

text \<open>A dynamic section with \<open>DT_PLTREL\<close> but without the table it describes is a null dereference.\<close>

definition reloc_ranges :: "dyn_tags \<Rightarrow> bool \<Rightarrow> (reloc_range \<times> reloc_range) option" where
  "reloc_ranges T do_lazy =
    (let r0 = rela_range T in
     if dt_pltrel T = None then Some (r0, no_range)
     else case (dt_jmprel T, dt_pltrelsz T) of
       (Some start, Some sz) \<Rightarrow>
         let r0 = (if rg_start r0 = 0 then r0\<lparr>rg_start := start\<rparr> else r0);
             r0 = (if rg_start r0 + rg_size r0 = start + sz then r0\<lparr>rg_size := rg_size r0 - sz\<rparr> else r0)
         in Some (if \<not> do_lazy \<and> rg_start r0 + rg_size r0 = start
                  then (r0\<lparr>rg_size := rg_size r0 + sz\<rparr>, no_range)
                  else (r0, \<lparr>rg_start = start, rg_size = sz, rg_nrelative = 0, rg_lazy = do_lazy\<rparr>))
     | _ \<Rightarrow> None)"

definition do_range :: "dyn_env \<Rightarrow> bool \<Rightarrow> reloc_range \<Rightarrow> reloc_state \<Rightarrow> outcome" where
  "do_range D skip_ifunc g s =
    elf_dynamic_do_Rela D (rg_start g) (rg_size g) (rg_nrelative g) (rg_lazy g) skip_ifunc s"

definition elf_dynamic_do_rela_ranges :: "dyn_env \<Rightarrow> dyn_tags \<Rightarrow> bool \<Rightarrow> bool \<Rightarrow> reloc_state \<Rightarrow> outcome" where
  "elf_dynamic_do_rela_ranges D T do_lazy skip_ifunc s =
    (case reloc_ranges T do_lazy of
       None \<Rightarrow> Crash
     | Some (g0, g1) \<Rightarrow> (case do_range D skip_ifunc g0 s of Done s' \<Rightarrow> do_range D skip_ifunc g1 s' | out \<Rightarrow> out))"

section \<open>Compact relative relocations\<close>

definition add_base :: "u64 \<Rightarrow> u64 \<Rightarrow> mem \<Rightarrow> mem" where
  "add_base base a m = store64 a (load64 a m + base) m"

lemma drop1_less:
  assumes "drop_bit 1 x \<noteq> (0 :: u64)"
  shows "unat (drop_bit 1 x) < unat x"
proof -
  have "x \<noteq> 0" using assms by auto
  then have "unat x div 2 < unat x" by (simp add: unat_gt_0)
  then show ?thesis by (simp add: drop_bit_eq_div unat_div)
qed

function relr_bits :: "u64 \<Rightarrow> u64 \<Rightarrow> u64 \<Rightarrow> u64 \<Rightarrow> mem \<Rightarrow> mem" where
  "relr_bits base whr i entry m =
    (let entry = drop_bit 1 entry in
     if entry = 0 then m
     else relr_bits base whr (i + 1) entry (if entry AND 1 \<noteq> 0 then add_base base (whr + 8 * i) m else m))"
  by auto
termination
  by (relation "measure (\<lambda>(b, w, i, entry, m). unat entry)") (auto intro: drop1_less [unfolded One_nat_def])

fun relr_loop :: "u64 \<Rightarrow> u64 list \<Rightarrow> u64 \<Rightarrow> mem \<Rightarrow> mem" where
  "relr_loop base [] whr m = m"
| "relr_loop base (entry # rest) whr m =
    (if entry AND 1 = 0
     then relr_loop base rest (base + entry + 8) (add_base base (base + entry) m)
     else relr_loop base rest (whr + 8 * 63) (relr_bits base whr 0 entry m))"

definition elf_dynamic_do_relr :: "(u64 \<Rightarrow> u64) \<Rightarrow> dyn_tags \<Rightarrow> reloc_state \<Rightarrow> reloc_state" where
  "elf_dynamic_do_relr words T s =
    (case dt_relr T of
       None \<Rightarrow> s
     | Some r \<Rightarrow>
         s\<lparr>rs_mem := relr_loop (l_addr (rs_map s))
             (map (\<lambda>i. words (r + 8 * of_nat i)) [0..<(unat (dt_relrsz T) + 7) div 8]) 0 (rs_mem s)\<rparr>)"

section \<open>Relocating an object\<close>

text \<open>The result also says whether the object became the profiled one (\<open>dl_profile_map\<close>).\<close>

definition elf_machine_runtime_setup ::
    "dyn_env \<Rightarrow> dyn_tags \<Rightarrow> bool \<Rightarrow> bool \<Rightarrow> bool \<Rightarrow> reloc_state \<Rightarrow> bool \<times> reloc_state" where
  "elf_machine_runtime_setup D T lazy profile profile_match s =
    (if dt_jmprel T \<noteq> None \<and> lazy
     then
       let got = dt_pltgot T;
           got1 = load64 (got + 8) (rs_mem s);
           s = (if got1 \<noteq> 0
                then s\<lparr>rs_map := (rs_map s)\<lparr>l_mach_plt := got1 + l_addr (rs_map s), l_mach_gotplt := got + 24\<rparr>\<rparr> else s);
           s = set64 (got + 8) (de_map_addr D) s
       in if profile
          then (profile_match,
                set64 (got + 16) (if de_cpu_avx512 D then de_profile_avx512 D
                                  else if de_cpu_avx D then de_profile_avx D else de_profile_sse D) s)
          else (False, set64 (got + 16) (de_runtime_resolve D) s)
     else (False, s))"

definition elf_dynamic_relocate ::
    "dyn_env \<Rightarrow> dyn_tags \<Rightarrow> (u64 \<Rightarrow> u64) \<Rightarrow> bool \<Rightarrow> bool \<Rightarrow> bool \<Rightarrow> bool \<Rightarrow> reloc_state \<Rightarrow> outcome" where
  "elf_dynamic_relocate D T words lazy consider_profile profile_match skip_ifunc s =
    (let (pm, s) = elf_machine_runtime_setup D T lazy consider_profile profile_match s;
         s = (if \<not> de_is_rtld D then elf_dynamic_do_relr words T s else s)
     in elf_dynamic_do_rela_ranges D T lazy skip_ifunc s)"

record audit_iface =
  ai_plt_hooks :: bool
  ai_symbind :: bool

datatype reloc_error =
    Not_Writable
  | Not_Restored
  | No_Memory_For_Results
  | Not_Protected
  | Machine outcome

record textrel =
  tr_start :: u64
  tr_len :: u64
  tr_prot :: int

definition align_down :: "u64 \<Rightarrow> u64 \<Rightarrow> u64" where
  "align_down base sz = base AND (- sz)"

fun open_textrels ::
    "'s sys \<Rightarrow> u64 \<Rightarrow> phdr list \<Rightarrow> textrel list \<Rightarrow> 's \<Rightarrow> (textrel list + reloc_error) \<times> 's" where
  "open_textrels K base [] acc k = (Inl acc, k)"
| "open_textrels K base (ph # phs) acc k =
    (if p_type ph = PT_LOAD \<and> p_flags ph AND PF_W = 0
     then
       let newp = \<lparr>tr_start = align_down (p_vaddr ph) (sys_pagesize K) + base,
                   tr_len = align_up (p_vaddr ph + p_memsz ph) (sys_pagesize K) - align_down (p_vaddr ph) (sys_pagesize K),
                   tr_prot = get_protection_flags (p_flags ph)\<rparr>;
           (r, k) = sys_mprotect K (tr_start newp) (tr_len newp) (tr_prot newp OR PROT_WRITE) k
       in if r < 0 then (Inr Not_Writable, k) else open_textrels K base phs (newp # acc) k
     else open_textrels K base phs acc k)"

fun close_textrels :: "'s sys \<Rightarrow> textrel list \<Rightarrow> 's \<Rightarrow> reloc_error option \<times> 's" where
  "close_textrels K [] k = (None, k)"
| "close_textrels K (t # ts) k =
    (let (r, k) = sys_mprotect K (tr_start t) (tr_len t) (tr_prot t) k
     in if r < 0 then (Some Not_Restored, k) else close_textrels K ts k)"

definition audit_wishes :: "bool \<Rightarrow> audit_iface list \<Rightarrow> bool \<Rightarrow> bool \<times> bool" where
  "audit_wishes auditing ifaces consider_profiling =
    (if auditing then (consider_profiling, False)
     else (consider_profiling \<or> (\<exists>a \<in> set ifaces. ai_plt_hooks a), \<exists>a \<in> set ifaces. ai_symbind a))"

text \<open>
  The second component of a success is the number of entries allocated for \<open>l_reloc_result\<close>, when
  they are allocated; \<open>calloc_ok\<close> says whether that allocation succeeds.
\<close>

definition reloc_results :: "dyn_tags \<Rightarrow> (u64 \<Rightarrow> bool) \<Rightarrow> bool \<Rightarrow> u64 option + reloc_error" where
  "reloc_results T calloc_ok wanted =
    (case dt_pltrelsz T of
       Some sz \<Rightarrow>
         if wanted
         then (case dt_pltrel T of
                 None \<Rightarrow> Inr (Machine Crash)
               | Some kind \<Rightarrow>
                   let relcount = sz div (if kind = 7 then 24 else 16)
                   in if calloc_ok relcount then Inl (Some relcount) else Inr No_Memory_For_Results)
         else Inl None
     | None \<Rightarrow> Inl None)"

definition dl_relocate_object_no_relro ::
    "'s sys \<Rightarrow> dyn_env \<Rightarrow> dyn_tags \<Rightarrow> (u64 \<Rightarrow> u64) \<Rightarrow> phdr list \<Rightarrow> audit_iface list \<Rightarrow> (u64 \<Rightarrow> bool) \<Rightarrow> bool
      \<Rightarrow> bool \<Rightarrow> bool \<Rightarrow> bool \<Rightarrow> bool \<Rightarrow> reloc_state \<Rightarrow> 's \<Rightarrow> ((reloc_state \<times> u64 option) + reloc_error) \<times> 's" where
  "dl_relocate_object_no_relro K D T words phs ifaces calloc_ok profile_match mode_lazy mode_audit skip_ifunc
      consider_profiling s k =
    (let (consider_profiling, consider_symbind) = audit_wishes mode_audit ifaces consider_profiling;
         lazy = mode_lazy \<and> \<not> (\<not> consider_profiling \<and> dt_bind_now T);
         (opened, k) = (if dt_textrel T then open_textrels K (l_addr (rs_map s)) phs [] k else (Inl [], k))
     in case opened of
          Inr err \<Rightarrow> (Inr err, k)
        | Inl textrels \<Rightarrow>
            (case elf_dynamic_relocate D T words lazy consider_profiling profile_match skip_ifunc s of
               Done s \<Rightarrow>
                 (case reloc_results T calloc_ok (consider_profiling \<or> consider_symbind) of
                    Inr e \<Rightarrow> (Inr e, k)
                  | Inl results \<Rightarrow>
                      let s = s\<lparr>rs_map := (rs_map s)\<lparr>l_relocated := True\<rparr>\<rparr>;
                          (err, k) = close_textrels K textrels k
                      in (case err of Some e \<Rightarrow> (Inr e, k) | None \<Rightarrow> (Inl (s, results), k)))
             | out \<Rightarrow> (Inr (Machine out), k)))"

definition dl_protect_relro :: "'s sys \<Rightarrow> u64 \<Rightarrow> u64 \<Rightarrow> u64 \<Rightarrow> 's \<Rightarrow> reloc_error option \<times> 's" where
  "dl_protect_relro K base relro_addr relro_size k =
    (if relro_size = 0 then (None, k)
     else
       let start = align_down (base + relro_addr) (sys_pagesize K);
           stop = align_down (base + relro_addr + relro_size) (sys_pagesize K)
       in if start \<noteq> stop
          then
            let (r, k) = sys_mprotect K start (stop - start) PROT_READ k
            in (if r < 0 then Some Not_Protected else None, k)
          else (None, k))"

definition dl_relocate_object ::
    "'s sys \<Rightarrow> dyn_env \<Rightarrow> dyn_tags \<Rightarrow> (u64 \<Rightarrow> u64) \<Rightarrow> phdr list \<Rightarrow> audit_iface list \<Rightarrow> (u64 \<Rightarrow> bool) \<Rightarrow> bool
      \<Rightarrow> bool \<Rightarrow> bool \<Rightarrow> bool \<Rightarrow> bool \<Rightarrow> u64 \<Rightarrow> u64 \<Rightarrow> reloc_state \<Rightarrow> 's \<Rightarrow> ((reloc_state \<times> u64 option) + reloc_error) \<times> 's" where
  "dl_relocate_object K D T words phs ifaces calloc_ok profile_match mode_lazy mode_audit skip_ifunc consider_profiling
      relro_addr relro_size s k =
    (if l_relocated (rs_map s) then (Inl (s, None), k)
     else
       let (r, k) = dl_relocate_object_no_relro K D T words phs ifaces calloc_ok profile_match mode_lazy mode_audit
                      skip_ifunc consider_profiling s k
       in case r of
            Inr e \<Rightarrow> (Inr e, k)
          | Inl (s, results) \<Rightarrow>
              let (err, k) = dl_protect_relro K (l_addr (rs_map s)) relro_addr relro_size k
              in (case err of Some e \<Rightarrow> (Inr e, k) | None \<Rightarrow> (Inl (s, results), k)))"

section \<open>The message for an unknown type\<close>

definition hex_digit :: "u32 \<Rightarrow> char" where
  "hex_digit b = ''0123456789abcdef'' ! unat (b AND 0xf)"

definition dl_reloc_bad_type :: "u32 \<Rightarrow> bool \<Rightarrow> string" where
  "dl_reloc_bad_type type plt =
    (if plt then ''unexpected PLT reloc type 0x'' else ''unexpected reloc type 0x'')
      @ (if type > 0xff then map (\<lambda>n. hex_digit (drop_bit n type)) [28, 24, 20, 16, 12, 8] else [])
      @ [hex_digit (drop_bit 4 type), hex_digit type]"

section \<open>The order of the two passes\<close>

lemma run_all_append: "run_all f (xs @ ys) s = (case run_all f xs s of Done s' \<Rightarrow> run_all f ys s' | out \<Rightarrow> out)"
  by (induction xs arbitrary: s) (auto split: outcome.splits)

lemma run_all_map: "run_all f (map g xs) s = run_all (\<lambda>x. f (g x)) xs s"
  by (induction xs arbitrary: s) (auto split: outcome.splits)

lemma run_all_filter: "run_all (\<lambda>x s. if P x then f x s else Done s) xs s = run_all f (filter P xs) s"
  by (induction xs arbitrary: s) (auto split: outcome.splits)

abbreviation irel_of :: "(nat \<Rightarrow> rela) \<Rightarrow> nat list \<Rightarrow> nat list" where
  "irel_of tab \<equiv> filter (\<lambda>i. is_irelative (tab i))"

abbreviation plain_of :: "(nat \<Rightarrow> rela) \<Rightarrow> nat list \<Rightarrow> nat list" where
  "plain_of tab \<equiv> filter (\<lambda>i. \<not> is_irelative (tab i))"

lemma rel_pass_outcome: "fst (rel_pass tab step xs d s) = run_all (\<lambda>i. step (tab i)) (plain_of tab xs) s"
  by (induction tab step xs d s rule: rel_pass.induct) (auto split: outcome.splits)

lemma rel_pass_deferred:
  "fst (rel_pass tab step xs d s) = Done s' \<Longrightarrow> snd (rel_pass tab step xs d s) =
    (if irel_of tab xs = [] then d
     else Some (case d of None \<Rightarrow> hd (irel_of tab xs) | Some (r2, end2) \<Rightarrow> r2, last (irel_of tab xs)))"
proof (induction tab step xs d s rule: rel_pass.induct)
  case (2 tab step r rs d s)
  then show ?case by (cases "is_irelative (tab r)") (auto split: outcome.splits option.splits)
qed simp

lemma sorted_hd_last:
  assumes "sorted xs" "x \<in> set xs"
  shows "hd xs \<le> x" "x \<le> last (xs :: nat list)"
proof -
  obtain i where "i < length xs" "x = xs ! i" "xs \<noteq> []" using assms(2) unfolding in_set_conv_nth by fastforce
  then show "hd xs \<le> x" "x \<le> last xs" using assms(1) by (auto simp: hd_conv_nth last_conv_nth intro!: sorted_nth_mono)
qed

lemma filter_upt_bounds:
  assumes "filter P [a..<b] \<noteq> []"
  shows "filter P [hd (filter P [a..<b])..<Suc (last (filter P [a..<b]))] = filter P [a..<b]"
proof -
  define xs where "xs = filter P [a..<b]"
  have s: "sorted xs" unfolding xs_def by (rule sorted_wrt_filter) simp
  have set: "x \<in> set xs \<longleftrightarrow> a \<le> x \<and> x < b \<and> P x" for x by (auto simp: xs_def)
  have mem: "hd xs \<in> set xs" "last xs \<in> set xs" using assms by (simp_all add: xs_def del: set_filter)
  then have r: "a \<le> hd xs" "hd xs \<le> Suc (last xs)" "Suc (last xs) \<le> b"
    using set sorted_hd_last(1) [OF s mem(2)] by auto
  have "x \<notin> set xs" if "x < hd xs \<or> Suc (last xs) \<le> x" for x using sorted_hd_last [OF s, of x] that by auto
  then have e: "filter P [a..<hd xs] = []" "filter P [Suc (last xs)..<b] = []"
    using r by (auto simp: filter_empty_conv set)
  have "[a..<b] = [a..<hd xs] @ [hd xs..<b]" "[hd xs..<b] = [hd xs..<Suc (last xs)] @ [Suc (last xs)..<b]"
    using r upt_add_eq_append [of a "hd xs" "b - hd xs"] upt_add_eq_append [of "hd xs" "Suc (last xs)" "b - Suc (last xs)"]
    by simp_all
  then have "filter P [a..<b] = filter P [hd xs..<Suc (last xs)]" using e by (metis append_Nil append_Nil2 filter_append)
  then show ?thesis by (simp only: xs_def)
qed

lemma two_passes_order:
  "two_passes tab step step2 [a..<b] s =
    run_all id (map (\<lambda>i. step (tab i)) (plain_of tab [a..<b]) @ map (\<lambda>i. step2 (tab i)) (irel_of tab [a..<b])) s"
proof -
  obtain out d where p: "rel_pass tab step [a..<b] None s = (out, d)" by fastforce
  have o: "out = run_all (\<lambda>i. step (tab i)) (plain_of tab [a..<b]) s"
    using rel_pass_outcome [of tab step "[a..<b]" None s] p by simp
  have "irel_pass tab step2 d s' = run_all (\<lambda>i. step2 (tab i)) (irel_of tab [a..<b]) s'" if "out = Done s'" for s'
  proof -
    have d: "d = (if irel_of tab [a..<b] = [] then None else Some (hd (irel_of tab [a..<b]), last (irel_of tab [a..<b])))"
      using rel_pass_deferred [of tab step "[a..<b]" None s s'] p that by simp
    show ?thesis
    proof (cases "irel_of tab [a..<b] = []")
      case True
      then show ?thesis using d by (simp add: irel_pass_def)
    next
      case False
      then show ?thesis using d filter_upt_bounds [OF False]
        by (simp only: irel_pass_def if_False option.case prod.case run_all_filter)
    qed
  qed
  then show ?thesis using o by (auto simp: two_passes_def p run_all_append run_all_map split: outcome.splits)
qed

lemma do_Rela_program:
  "elf_dynamic_do_Rela D reladdr relsize nrelative lazy skip s =
    (let tab = table_entry D reladdr;
         rest = [unat nrelative..<(unat relsize + 23) div 24]
     in run_all id
          (if lazy
           then map (\<lambda>i. lazy_step D skip (tab i)) (plain_of tab rest) @ map (\<lambda>i. lazy_step D skip (tab i)) (irel_of tab rest)
           else (if de_is_rtld D then [] else map (\<lambda>i. relative_step (tab i)) [0..<unat nrelative])
             @ map (\<lambda>i. rel_step D skip (tab i)) (plain_of tab rest) @ map (\<lambda>i. irel_step D skip (tab i)) (irel_of tab rest)) s)"
proof (cases lazy)
  case True
  then show ?thesis by (simp only: elf_dynamic_do_Rela_def Let_def if_True two_passes_order)
next
  case False
  then show ?thesis
    by (auto simp: elf_dynamic_do_Rela_def Let_def two_passes_order run_all_append run_all_map split: outcome.splits)
qed

text \<open>
  C29: Every entry of a relocation table is applied exactly once, and calls to resolvers of indirect
  functions come last.  Without lazy binding the leading relative relocations are applied first
  (unless the object is the loader itself), then all other entries in the order of the table
  except indirect relative ones, then the indirect relative ones in the order of the table; with
  lazy binding the same holds for the lazy variants.
\<close>

theorem do_Rela_order:
  "elf_dynamic_do_Rela D reladdr relsize nrelative lazy skip s =
    (let tab = table_entry D reladdr;
         rest = [unat nrelative..<(unat relsize + 23) div 24]
     in run_all id
          (if lazy
           then map (\<lambda>i. lazy_step D skip (tab i)) (plain_of tab rest) @ map (\<lambda>i. lazy_step D skip (tab i)) (irel_of tab rest)
           else (if de_is_rtld D then [] else map (\<lambda>i. relative_step (tab i)) [0..<unat nrelative])
             @ map (\<lambda>i. rel_step D skip (tab i)) (plain_of tab rest) @ map (\<lambda>i. irel_step D skip (tab i)) (irel_of tab rest)) s)"
  by (rule do_Rela_program)

section \<open>The ranges cover the tables\<close>

definition range_bytes :: "u64 \<Rightarrow> u64 \<Rightarrow> nat set" where
  "range_bytes start sz = {unat start..<unat start + unat sz}"

abbreviation rg_bytes :: "reloc_range \<Rightarrow> nat set" where
  "rg_bytes g \<equiv> range_bytes (rg_start g) (rg_size g)"

lemma word_end_eq:
  fixes p q a b :: u64
  assumes "unat p + unat a < 2 ^ 64" "unat q + unat b < 2 ^ 64"
  shows "p + a = q + b \<longleftrightarrow> unat p + unat a = unat q + unat b"
proof -
  have "unat (p + a) = unat p + unat a" "unat (q + b) = unat q + unat b"
    using assms by (simp_all add: unat_word_ariths)
  then show ?thesis by (metis word_unat_eq_iff)
qed

text \<open>
  The two ranges the loader processes cover the relocation table and the PLT relocation table,
  each byte once, in the three layouts a linker produces: the PLT table directly after the other,
  at the very end of it, or apart from it.
\<close>

theorem reloc_ranges_cover:
  assumes "dt_rela T = Some p" "p \<noteq> 0" "dt_pltrel T \<noteq> None" "dt_jmprel T = Some q" "dt_pltrelsz T = Some z"
    and bounds: "unat p + unat (dt_relasz T) < 2 ^ 64" "unat q + unat z < 2 ^ 64" "0 < dt_relasz T"
    and layout: "q = p + dt_relasz T \<or> (q + z = p + dt_relasz T \<and> p \<le> q) \<or>
      unat p + unat (dt_relasz T) < unat q \<or> unat q + unat z \<le> unat p"
  shows "\<exists>g0 g1. reloc_ranges T do_lazy = Some (g0, g1) \<and>
    rg_bytes g0 \<union> rg_bytes g1 = range_bytes p (dt_relasz T) \<union> range_bytes q z \<and>
    rg_bytes g0 \<inter> rg_bytes g1 = {} \<and> \<not> rg_lazy g0"
proof -
  define n where "n = dt_relasz T"
  have r: "rg_start (rela_range T) = p" "rg_size (rela_range T) = n" "\<not> rg_lazy (rela_range T)"
    using assms(1,2) by (simp_all add: rela_range_def n_def)
  have b: "unat p + unat n < 2 ^ 64" "unat q + unat z < 2 ^ 64" "0 < unat n" using bounds by (simp_all add: n_def unat_gt_0)
  define r0 where "r0 = (if unat p + unat n = unat q + unat z then (rela_range T)\<lparr>rg_size := n - z\<rparr> else rela_range T)"
  obtain k where pr: "dt_pltrel T = Some k" using assms(3) by blast
  have r0: "rg_start r0 = p" "\<not> rg_lazy r0" using r by (simp_all add: r0_def)
  have run: "reloc_ranges T do_lazy = Some (if \<not> do_lazy \<and> p + rg_size r0 = q then (r0\<lparr>rg_size := rg_size r0 + z\<rparr>, no_range)
      else (r0, \<lparr>rg_start = q, rg_size = z, rg_nrelative = 0, rg_lazy = do_lazy\<rparr>))"
    using assms(2,4,5) pr r word_end_eq [OF b(1,2)] by (simp add: reloc_ranges_def Let_def r0_def)
  have q: "q = p + n \<Longrightarrow> unat q = unat p + unat n" using b(1) by (simp add: unat_word_ariths)
  have z: "unat z \<le> unat n \<and> unat p \<le> unat q" if "unat p + unat n = unat q + unat z"
    using layout q that b(3) unfolding n_def [symmetric] word_le_nat_alt by linarith
  have u: "unat (rg_size r0) = (if unat p + unat n = unat q + unat z then unat n - unat z else unat n)"
    using r z by (simp add: r0_def unat_sub word_le_nat_alt)
  have apart: "unat p + unat n \<le> unat q \<or> unat q + unat z \<le> unat p" if "unat p + unat n \<noteq> unat q + unat z"
    using layout q that word_end_eq [OF b(1,2)] unfolding n_def [symmetric] by (metis nat_less_le order_refl)
  have sz: "range_bytes p (rg_size r0) \<union> range_bytes q z = range_bytes p n \<union> range_bytes q z"
    "range_bytes p (rg_size r0) \<inter> range_bytes q z = {}"
    using z apart unfolding range_bytes_def u by auto
  have join: "range_bytes p (rg_size r0 + z) = range_bytes p (rg_size r0) \<union> range_bytes q z" if e: "p + rg_size r0 = q"
  proof -
    have "unat p + unat (rg_size r0) < 2 ^ 64" using u b(1) by (simp split: if_splits)
    then have "unat q = unat p + unat (rg_size r0)" unfolding e [symmetric] by (simp add: unat_word_ariths)
    then show ?thesis using b(2) by (auto simp: range_bytes_def unat_word_ariths)
  qed
  show ?thesis
    unfolding run using r0 sz join by (auto simp: n_def [symmetric] no_range_def range_bytes_def)
qed

definition demo_tags :: dyn_tags where
  "demo_tags = \<lparr>dt_rela = Some 0x400, dt_relasz = 96, dt_relacount = Some 1, dt_pltrel = Some 7, dt_jmprel = Some 0x460,
     dt_pltrelsz = Some 48, dt_relr = None, dt_relrsz = 0, dt_pltgot = 0x3000, dt_bind_now = True, dt_textrel = False\<rparr>"

theorem reloc_ranges_cover_witness:
  "\<exists>g0 g1. reloc_ranges demo_tags False = Some (g0, g1) \<and> rg_bytes g0 \<union> rg_bytes g1 = {0x400..<0x490}"
proof -
  have "{0x400..<0x460} \<union> {0x460..<0x490} = {0x400..<(0x490 :: nat)}" by auto
  then show ?thesis
    using reloc_ranges_cover [of demo_tags "0x400" "0x460" 48 False] by (auto simp: demo_tags_def range_bytes_def)
qed

section \<open>What compact relative relocations denote\<close>

text \<open>
  An even entry names one word and starts a run of words; an odd entry is a bitmap of the next 63
  words of the run.
\<close>

definition bitmap_addrs :: "u64 \<Rightarrow> u64 \<Rightarrow> u64 list" where
  "bitmap_addrs whr entry = map (\<lambda>j. whr + 8 * of_nat j) (filter (\<lambda>j. bit entry (Suc j)) [0..<63])"

fun relr_addrs :: "u64 \<Rightarrow> u64 \<Rightarrow> u64 list \<Rightarrow> u64 list" where
  "relr_addrs base whr [] = []"
| "relr_addrs base whr (entry # rest) =
    (if even entry then (base + entry) # relr_addrs base (base + entry + 8) rest
     else bitmap_addrs whr entry @ relr_addrs base (whr + 504) rest)"

lemma bits_split:
  fixes entry :: u64
  shows "filter (\<lambda>j. bit entry (Suc j)) [0..<63] =
    (if bit entry 1 then [0] else []) @ map Suc (filter (\<lambda>j. bit (drop_bit 1 entry) (Suc j)) [0..<63])"
proof -
  have "[0..<63] = 0 # map Suc [0..<62]" by (simp add: map_Suc_upt upt_rec [of 0 63])
  moreover have "filter (\<lambda>j. bit (drop_bit 1 entry) (Suc j)) [0..<63] = filter (\<lambda>j. bit (drop_bit 1 entry) (Suc j)) [0..<62]"
  proof -
    have "[0..<63] = [0..<62] @ [62]" using upt_Suc_append [of 0 62] by simp
    moreover have "\<not> bit (drop_bit 1 entry) (Suc 62)"
      using bit_imp_le_length [of entry 64] by (auto simp: bit_drop_bit_eq)
    ultimately show ?thesis by simp
  qed
  ultimately show ?thesis by (simp add: filter_map comp_def bit_drop_bit_eq del: upt_rec_numeral)
qed

lemma relr_bits_fold:
  "relr_bits base whr i entry m = fold (add_base base)
     (map (\<lambda>j. whr + 8 * (i + of_nat j)) (filter (\<lambda>j. bit entry (Suc j)) [0..<63])) m"
proof (induction base whr i entry m rule: relr_bits.induct)
  case (1 base whr i entry m)
  define e where "e = drop_bit 1 entry"
  show ?case
  proof (cases "e = 0")
    case True
    have "bit entry (Suc j) = bit e j" for j by (simp add: e_def bit_drop_bit_eq)
    then have "filter (\<lambda>j. bit entry (Suc j)) [0..<63] = []" using True by (simp only: filter_empty_conv) simp
    then show ?thesis using True by (subst relr_bits.simps) (simp only: e_def Let_def if_True list.map fold.simps id_apply simp_thms)
  next
    case False
    have o: "(e AND 1 \<noteq> 0) = bit entry 1"
      unfolding e_def by (simp add: and_one_eq mod2_eq_if bit_drop_bit_eq even_drop_bit_iff_not_bit)
    define js where "js = filter (\<lambda>j. bit e (Suc j)) [0..<63]"
    define m' where "m' = (if bit entry 1 then add_base base (whr + 8 * i) m else m)"
    have "relr_bits base whr i entry m = relr_bits base whr (i + 1) e m'"
      using False o by (subst relr_bits.simps) (simp only: e_def [symmetric] Let_def if_False m'_def)
    also have "\<dots> = fold (add_base base) (map (\<lambda>j. whr + 8 * (i + 1 + of_nat j)) js) m'"
      using 1 [OF e_def False] o by (simp only: js_def m'_def)
    finally show ?thesis
      by (simp only: bits_split [of entry] e_def [symmetric] js_def [symmetric] m'_def)
        (simp add: comp_def ac_simps)
  qed
qed


text \<open>
  C30: The compact relative relocations are decoded correctly.  Processing the table adds the load
  address to exactly the words its entries and bitmaps denote, in order.
\<close>

theorem relr_loop_decodes: "relr_loop base entries whr m = fold (add_base base) (relr_addrs base whr entries) m"
proof (induction entries arbitrary: whr m)
  case (Cons entry rest)
  have e: "(entry AND 1 = 0) = even entry" by (simp add: and_one_eq mod2_eq_if)
  have "relr_bits base whr 0 entry m = fold (add_base base) (bitmap_addrs whr entry) m"
    unfolding relr_bits_fold bitmap_addrs_def by (simp only: add_0_left)
  then show ?case using Cons by (simp add: e)
qed simp

section \<open>Masks after relocation\<close>

definition apart :: "u64 \<Rightarrow> u64 \<Rightarrow> bool" where
  "apart a b \<longleftrightarrow> 8 \<le> unat (a - b) \<and> 8 \<le> unat (b - a)"

lemma load64_same:
  assumes "\<And>x. 8 \<le> unat (x - b) \<Longrightarrow> m' x = m x" "apart a b"
  shows "load64 a m' = load64 a m"
  using assms by (intro load64_same_bytes [of b]) (auto simp: apart_def)

lemma same_mapD:
  assumes "same_map s s'"
  shows "l_addr (rs_map s') = l_addr (rs_map s)" "l_exec_start (rs_map s') = l_exec_start (rs_map s)"
    "l_exec_end (rs_map s') = l_exec_end (rs_map s)"
  using arg_cong [OF assms, of l_addr] arg_cong [OF assms, of l_exec_start] arg_cong [OF assms, of l_exec_end] by simp_all

definition keeps_slot :: "u64 \<Rightarrow> u64 \<Rightarrow> (reloc_state \<Rightarrow> outcome) \<Rightarrow> bool" where
  "keeps_slot base a f \<longleftrightarrow> (\<forall>s s'. l_addr (rs_map s) = base \<longrightarrow> f s = Done s' \<longrightarrow>
     load64 a (rs_mem s') = load64 a (rs_mem s) \<and> same_map s s')"

lemma irel_step_keeps:
  assumes "elf_r_type (r_info r) \<notin> {R_COPY, R_TLSDESC}" "apart a (base + r_offset r)"
  shows "keeps_slot base a (irel_step D skip r)"
  unfolding keeps_slot_def irel_step_def
proof (intro allI impI conjI)
  fix s s' assume b: "l_addr (rs_map s) = base"
    and "elf_machine_rela (de_env D (rel_version D r)) r (Some (de_symtab D (r_sym r))) (l_addr (rs_map s) + r_offset r) skip s = Done s'"
  note step = this
  show "load64 a (rs_mem s') = load64 a (rs_mem s)"
    using rela_frame_mem [OF step(2) assms(1)] assms(2) b by (intro load64_same) auto
  show "same_map s s'" by (rule rela_map_kept [OF step(2)])
qed

lemma relative_step_keeps:
  assumes "apart a (base + r_offset r)"
  shows "keeps_slot base a (relative_step r)"
  using assms store64_out unfolding keeps_slot_def relative_step_def elf_machine_rela_relative_def
  by (auto intro!: load64_same split: option.splits if_splits)

lemma rel_step_no_audit: "de_naudit D = 0 \<Longrightarrow> rel_step D skip r = irel_step D skip r"
  by (rule ext) (simp add: rel_step_def audit_jump_slot_def split: outcome.split)

lemma run_all_ConsD: "run_all f (x # xs) s = Done s' \<Longrightarrow> \<exists>s1. f x s = Done s1 \<and> run_all f xs s1 = Done s'"
  by (auto split: outcome.splits)

lemma run_all_appendD: "run_all f (xs @ ys) s = Done s' \<Longrightarrow> \<exists>s1. run_all f xs s = Done s1 \<and> run_all f ys s1 = Done s'"
  by (auto simp: run_all_append split: outcome.splits)

lemma run_all_keeps:
  "run_all id fs s = Done s' \<Longrightarrow> \<forall>f \<in> set fs. keeps_slot (l_addr (rs_map s)) a f \<Longrightarrow>
    load64 a (rs_mem s') = load64 a (rs_mem s) \<and> same_map s s'"
proof (induction fs arbitrary: s)
  case (Cons f fs)
  obtain s1 where 1: "f s = Done s1" "run_all id fs s1 = Done s'"
    using run_all_ConsD [OF Cons.prems(1)] unfolding id_apply by blast
  have k: "load64 a (rs_mem s1) = load64 a (rs_mem s)" "same_map s s1" using 1 Cons.prems(2) by (auto simp: keeps_slot_def)
  then show ?case using Cons.IH [OF 1(2)] Cons.prems(2) same_mapD(1) [OF k(2)] by simp
qed simp

lemma run_all_slot:
  assumes "run_all id (xs @ [f] @ ys) s = Done s'"
    and "\<forall>g \<in> set xs \<union> set ys. keeps_slot (l_addr (rs_map s)) a g"
    and "\<And>s1. same_map s s1 \<Longrightarrow> f s1 = Done (set64 a v s1)"
  shows "load64 a (rs_mem s') = v"
proof -
  obtain s1 where 1: "run_all id xs s = Done s1" "run_all id ([f] @ ys) s1 = Done s'"
    using run_all_appendD [OF assms(1)] by blast
  have "\<forall>g \<in> set xs. keeps_slot (l_addr (rs_map s)) a g" using assms(2) by simp
  then have m: "same_map s s1" using run_all_keeps [OF 1(1)] by blast
  have "run_all id ys (set64 a v s1) = Done s'"
    using run_all_ConsD [of id f ys s1 s'] 1(2) assms(3) [OF m] by (metis append_Cons append_Nil id_apply outcome.inject(1))
  then have "load64 a (rs_mem s') = load64 a (rs_mem (set64 a v s1))"
    using run_all_keeps [of ys "set64 a v s1" s' a] assms(2) same_mapD(1) [OF m] by simp
  then show ?thesis by (simp add: load64_store64)
qed

definition slot_of :: "dyn_env \<Rightarrow> u64 \<Rightarrow> u64 \<Rightarrow> nat \<Rightarrow> u64" where
  "slot_of D reladdr base i = base + r_offset (table_entry D reladdr i)"

text \<open>The entry \<open>i\<close> is the only one of the \<open>n\<close> entries that touches its word.\<close>

definition owns_slot :: "dyn_env \<Rightarrow> u64 \<Rightarrow> u64 \<Rightarrow> nat \<Rightarrow> nat \<Rightarrow> bool" where
  "owns_slot D reladdr base n i \<longleftrightarrow> (\<forall>k<n. k \<noteq> i \<longrightarrow>
     elf_r_type (r_info (table_entry D reladdr k)) \<notin> {R_COPY, R_TLSDESC} \<and>
     apart (slot_of D reladdr base i) (slot_of D reladdr base k))"

definition mask_entry :: "dyn_env \<Rightarrow> u64 \<Rightarrow> nat \<Rightarrow> u64 \<Rightarrow> bool" where
  "mask_entry D reladdr i t \<longleftrightarrow> (let r = table_entry D reladdr i; E = de_env D (rel_version D r) in
     elf_r_type (r_info r) = t \<and> en_to_mitigate E \<and> (\<forall>mp. resolves E mp (Some (de_symtab D (r_sym r))) t))"

lemma slot_after_do_Rela:
  assumes run: "elf_dynamic_do_Rela D reladdr relsize nrelative False skip s = Done s'" "de_naudit D = 0"
    and i: "unat nrelative \<le> i" "i < (unat relsize + 23) div 24" "\<not> is_irelative (table_entry D reladdr i)"
    and own: "owns_slot D reladdr (l_addr (rs_map s)) ((unat relsize + 23) div 24) i"
    and eff: "\<And>s1. same_map s s1 \<Longrightarrow> irel_step D skip (table_entry D reladdr i) s1 = Done (set64 (slot_of D reladdr (l_addr (rs_map s)) i) v s1)"
  shows "load64 (slot_of D reladdr (l_addr (rs_map s)) i) (rs_mem s') = v"
proof -
  define tab where "tab = table_entry D reladdr" define n where "n = (unat relsize + 23) div 24"
  define rel where "rel = (if de_is_rtld D then [] else map (\<lambda>i. relative_step (tab i)) [0..<unat nrelative])"
  define irels where "irels = map (\<lambda>i. irel_step D skip (tab i)) (irel_of tab [unat nrelative..<n])"
  have "i \<in> set (plain_of tab [unat nrelative..<n])" using i by (simp add: tab_def n_def)
  from split_list [OF this] obtain xs ys where xy: "plain_of tab [unat nrelative..<n] = xs @ i # ys" by blast
  have "distinct (xs @ i # ys)" unfolding xy [symmetric] by simp
  moreover have "k < n" if "k \<in> set (xs @ i # ys)" for k using that unfolding xy [symmetric] by simp
  ultimately have other: "k \<noteq> i \<and> k < n" if "k \<in> set xs \<union> set ys" for k using that by auto
  have keep: "keeps_slot (l_addr (rs_map s)) (slot_of D reladdr (l_addr (rs_map s)) i) (irel_step D skip (tab k))"
    "keeps_slot (l_addr (rs_map s)) (slot_of D reladdr (l_addr (rs_map s)) i) (relative_step (tab k))" if "k \<noteq> i" "k < n" for k
    using own that by (auto simp: owns_slot_def slot_of_def tab_def n_def intro!: irel_step_keeps relative_step_keeps)
  have ir: "k \<noteq> i \<and> k < n" if "k \<in> set (irel_of tab [unat nrelative..<n])" for k using that i(3) by (auto simp: tab_def)
  have rl: "k \<noteq> i \<and> k < n" if "k \<in> set [0..<unat nrelative]" for k using that i(1,2) by (auto simp: n_def)
  let ?f = "\<lambda>k. irel_step D skip (tab k)"
  have "run_all id ((rel @ map ?f xs) @ [?f i] @ (map ?f ys @ irels)) s = Done s'"
    using run(1) unfolding do_Rela_program Let_def rel_step_no_audit [OF run(2)]
    by (simp only: if_False tab_def [symmetric] n_def [symmetric] xy rel_def irels_def list.map map_append append_assoc append_Cons append_Nil)
  then show ?thesis
  proof (rule run_all_slot)
    show "\<forall>g \<in> set (rel @ map ?f xs) \<union> set (map ?f ys @ irels). keeps_slot (l_addr (rs_map s)) (slot_of D reladdr (l_addr (rs_map s)) i) g"
      using keep other ir rl unfolding rel_def irels_def by (auto simp del: set_filter set_upt)
  qed (use eff in \<open>simp add: tab_def\<close>)
qed

lemma masks_in_slots:
  assumes "elf_dynamic_do_Rela D reladdr relsize nrelative False skip s = Done s'" "de_naudit D = 0"
    and "unat nrelative \<le> i" "i < (unat relsize + 23) div 24" "mask_entry D reladdr i R_ORMASK"
      "owns_slot D reladdr (l_addr (rs_map s)) ((unat relsize + 23) div 24) i"
    and "unat nrelative \<le> j" "j < (unat relsize + 23) div 24" "mask_entry D reladdr j R_ANDMASK"
      "owns_slot D reladdr (l_addr (rs_map s)) ((unat relsize + 23) div 24) j"
  shows "load64 (slot_of D reladdr (l_addr (rs_map s)) i) (rs_mem s') = l_exec_start (rs_map s) \<and>
    load64 (slot_of D reladdr (l_addr (rs_map s)) j) (rs_mem s') = l_exec_end (rs_map s)"
proof
  have t: "\<not> is_irelative (table_entry D reladdr i)" "\<not> is_irelative (table_entry D reladdr j)"
    using assms(5,9) by (auto simp: mask_entry_def is_irelative_def Let_def)
  have e: "irel_step D skip (table_entry D reladdr i) s1 = Done (set64 (slot_of D reladdr (l_addr (rs_map s)) i) (l_exec_start (rs_map s)) s1)"
    "irel_step D skip (table_entry D reladdr j) s1 = Done (set64 (slot_of D reladdr (l_addr (rs_map s)) j) (l_exec_end (rs_map s)) s1)"
    if m: "same_map s s1" for s1
    using assms(5,9) unfolding irel_step_def slot_of_def same_mapD [OF m] mask_entry_def Let_def
    by (simp_all add: rela_ormask rela_andmask same_mapD [OF m])
  show "load64 (slot_of D reladdr (l_addr (rs_map s)) i) (rs_mem s') = l_exec_start (rs_map s)"
    by (rule slot_after_do_Rela [OF assms(1-4) t(1) assms(6) e(1)])
  show "load64 (slot_of D reladdr (l_addr (rs_map s)) j) (rs_mem s') = l_exec_end (rs_map s)"
    by (rule slot_after_do_Rela [OF assms(1,2,7,8) t(2) assms(10) e(2)])
qed

text \<open>
  C9: After an object is relocated, its instrumented code reads the masks of its own window.  If the
  table has an entry for the OR mask and one for the AND mask and no other entry touches their
  words, then once the table is processed the two words hold the start and the end of the
  window computed when the object was mapped, whatever the other relocations did.
\<close>

theorem masks_after_relocation:
  assumes "elf_dynamic_do_Rela D reladdr relsize nrelative False skip s = Done s'" "de_naudit D = 0"
    and "unat nrelative \<le> i" "i < (unat relsize + 23) div 24" "mask_entry D reladdr i R_ORMASK"
      "owns_slot D reladdr (l_addr (rs_map s)) ((unat relsize + 23) div 24) i"
    and "unat nrelative \<le> j" "j < (unat relsize + 23) div 24" "mask_entry D reladdr j R_ANDMASK"
      "owns_slot D reladdr (l_addr (rs_map s)) ((unat relsize + 23) div 24) j"
  shows "load64 (slot_of D reladdr (l_addr (rs_map s)) i) (rs_mem s') = l_exec_start (rs_map s) \<and>
    load64 (slot_of D reladdr (l_addr (rs_map s)) j) (rs_mem s') = l_exec_end (rs_map s)"
  using masks_in_slots [OF assms] .

definition demo_dyn :: dyn_env where
  "demo_dyn = \<lparr>de_env = (\<lambda>v. demo_env),
     de_table = (\<lambda>a. if a = 0x400 then \<lparr>r_offset = 0x3000, r_info = 8, r_addend = 0x1000\<rparr>
                     else if a = 0x418 then \<lparr>r_offset = 0x3010, r_info = 1338, r_addend = 0\<rparr>
                     else \<lparr>r_offset = 0x3018, r_info = 1339, r_addend = 0\<rparr>),
     de_symtab = (\<lambda>i. demo_sym ''mask''), de_versyms = None, de_is_rtld = False, de_naudit = 0,
     de_symbind = (\<lambda>r y m a s. s), de_map_addr = 0, de_runtime_resolve = 0, de_profile_sse = 0, de_profile_avx = 0,
     de_profile_avx512 = 0, de_cpu_avx = False, de_cpu_avx512 = False\<rparr>"

lemma demo_table:
  "table_entry demo_dyn 0x400 0 = \<lparr>r_offset = 0x3000, r_info = 8, r_addend = 0x1000\<rparr>"
  "table_entry demo_dyn 0x400 1 = \<lparr>r_offset = 0x3010, r_info = 1338, r_addend = 0\<rparr>"
  "table_entry demo_dyn 0x400 2 = \<lparr>r_offset = 0x3018, r_info = 1339, r_addend = 0\<rparr>"
  by (simp_all add: table_entry_def demo_dyn_def)

lemma demo_masks:
  "mask_entry demo_dyn 0x400 1 1338" "mask_entry demo_dyn 0x400 2 1339"
  unfolding mask_entry_def Let_def demo_table
  by (simp_all add: elf_r_type_def resolves_def demo_dyn_def demo_env_def demo_sym_def)

lemma demo_slots:
  "owns_slot demo_dyn 0x400 (l_addr (rs_map demo_reloc_state)) 3 1" "owns_slot demo_dyn 0x400 (l_addr (rs_map demo_reloc_state)) 3 2"
  unfolding owns_slot_def slot_of_def by (auto simp: numeral_3_eq_3 less_Suc_eq demo_table [simplified]
      demo_table(3) [unfolded numeral_2_eq_2] elf_r_type_def apart_def)

theorem masks_after_relocation_witness:
  "\<exists>s'. elf_dynamic_do_Rela demo_dyn 0x400 72 1 False False demo_reloc_state = Done s' \<and>
    load64 (slot_of demo_dyn 0x400 0x7fffe7fba000 1) (rs_mem s') = 0x7fffe7fb8000 \<and>
    load64 (slot_of demo_dyn 0x400 0x7fffe7fba000 2) (rs_mem s') = 0x7fffe7fbffff"
proof -
  have "case elf_dynamic_do_Rela demo_dyn 0x400 72 1 False False demo_reloc_state of Done s' \<Rightarrow> True | _ \<Rightarrow> False"
    by code_simp
  then obtain s' where s': "elf_dynamic_do_Rela demo_dyn 0x400 72 1 False False demo_reloc_state = Done s'"
    by (cases "elf_dynamic_do_Rela demo_dyn 0x400 72 1 False False demo_reloc_state") auto
  have m: "l_addr (rs_map demo_reloc_state) = 0x7fffe7fba000" "l_exec_start (rs_map demo_reloc_state) = 0x7fffe7fb8000"
    "l_exec_end (rs_map demo_reloc_state) = 0x7fffe7fbffff" "de_naudit demo_dyn = 0"
    by (simp_all add: demo_reloc_state_def demo_dyn_def)
  show ?thesis
    using masks_after_relocation [OF s', of 1 2] demo_masks demo_slots s' m by simp
qed

section \<open>The calling functions\<close>

text \<open>
  An object is relocated at most once.  After a successful relocation the object is marked, and
  relocating it again, in whatever mode, changes neither memory nor protections.
\<close>

theorem relocate_once:
  assumes "dl_relocate_object K D T words phs ifaces calloc_ok pm mode_lazy mode_audit skip prof ra rsz s k = (Inl (s', res), k')"
    and "\<not> l_relocated (rs_map s)"
  shows "l_relocated (rs_map s') \<and>
    dl_relocate_object K D T words phs ifaces' calloc_ok' pm' mode_lazy' mode_audit' skip' prof' ra' rsz' s' k' = (Inl (s', None), k')"
proof -
  have "l_relocated (rs_map s1)"
    if "dl_relocate_object_no_relro K D T words phs ifaces calloc_ok pm mode_lazy mode_audit skip prof s k = (Inl (s1, r1), k1)" for s1 r1 k1
    using that by (auto simp: dl_relocate_object_no_relro_def Let_def split: prod.splits sum.splits outcome.splits option.splits)
  then have "l_relocated (rs_map s')"
    using assms by (auto simp: dl_relocate_object_def Let_def split: prod.splits sum.splits option.splits)
  then show ?thesis by (simp add: dl_relocate_object_def)
qed

definition digit_value :: "char \<Rightarrow> nat" where
  "digit_value c = length (takeWhile (\<lambda>d. d \<noteq> c) ''0123456789abcdef'')"

definition hex_value :: "string \<Rightarrow> nat" where
  "hex_value ds = fold (\<lambda>d acc. acc * 16 + digit_value d) ds 0"

lemma digit_value_hex_digit: "digit_value (hex_digit b) = unat b mod 16"
proof -
  have all: "\<forall>i \<in> set [0..<16]. digit_value (''0123456789abcdef'' ! i) = i" by code_simp
  have "unat (b AND 0xf) = unat b mod 16"
    using unat_take_bit_mod [of 4 b] by (simp add: take_bit_eq_mask mask_eq_exp_minus_1)
  moreover have "unat b mod 16 \<in> set [0..<16]" by simp
  ultimately show ?thesis using all unfolding hex_digit_def by metis
qed

lemma nibble: "unat (drop_bit n b :: u32) = unat b div 2 ^ n"
  by (subst unat_drop_bit_eq) (simp add: drop_bit_eq_div)

text \<open>
  The error message for an unknown relocation type fits its buffer of 38 characters, with the
  terminating zero, and its hexadecimal digits are the type.
\<close>

theorem bad_type_message:
  "length (dl_reloc_bad_type type plt) < 38 \<and>
   hex_value (drop (if plt then 28 else 24) (dl_reloc_bad_type type plt)) = unat type"
proof
  show "length (dl_reloc_bad_type type plt) < 38" by (simp add: dl_reloc_bad_type_def)
  define x where "x = unat type"
  have "unat type < 2 ^ LENGTH(32)" by (rule unsigned_less)
  then have lim: "x < 2 ^ 32" by (simp add: x_def)
  have join: "x div 2 ^ (n + 4) * 16 + x div 2 ^ n mod 16 = x div 2 ^ n" for n
    using div_mult_mod_eq [of "x div 2 ^ n" 16] by (simp add: power_add div_mult2_eq)
  show "hex_value (drop (if plt then 28 else 24) (dl_reloc_bad_type type plt)) = unat type"
  proof (cases "type > 0xff")
    case True
    have "hex_value (drop (if plt then 28 else 24) (dl_reloc_bad_type type plt)) =
      (((((((x div 2 ^ 28 mod 16) * 16 + x div 2 ^ 24 mod 16) * 16 + x div 2 ^ 20 mod 16) * 16 + x div 2 ^ 16 mod 16) * 16
        + x div 2 ^ 12 mod 16) * 16 + x div 2 ^ 8 mod 16) * 16 + x div 2 ^ 4 mod 16) * 16 + x mod 16"
      using True by (simp add: dl_reloc_bad_type_def hex_value_def digit_value_hex_digit nibble x_def)
    also have "\<dots> = x"
    proof -
      have "x div 2 ^ 28 mod 16 = x div 2 ^ 28" using lim by simp
      then show ?thesis using join [of 24] join [of 20] join [of 16] join [of 12] join [of 8] join [of 4] join [of 0] by simp
    qed
    finally show ?thesis by (simp add: x_def)
  next
    case False
    then have "x < 256" by (simp add: x_def word_less_nat_alt not_less word_le_nat_alt)
    then show ?thesis using False join [of 0]
      by (simp add: dl_reloc_bad_type_def hex_value_def digit_value_hex_digit nibble x_def)
  qed
qed

end
