(* ===== verification/Linker_Plt.thy ===== *)
theory Linker_Plt
  imports Platypus_Prelude
begin

text \<open>
  The linker's PLT and GOT bookkeeping (\<open>src/llvm-platypus/lld/ELF\<close>), for x86-64: entries of the
  sections \<open>.plt\<close>, \<open>.fakeplt\<close>, \<open>.got.plt\<close> and \<open>.got\<close> (\<open>SyntheticSections.cpp\<close>), the index fields of a
  symbol and the addresses computed from them (\<open>Symbols.h\<close>, \<open>Symbols.cpp\<close>, \<open>Config.h\<close>), and the
  functions that create entries after the scan of the input relocations (\<open>Relocations.cpp\<close>:
  \<open>addPltEntry\<close>, \<open>addFakePltEntry\<close>, \<open>addGotEntry\<close>, \<open>handleNonPreemptibleIfunc\<close>,
  \<open>postScanRelocations\<close>).  Symbols are numbered; sections are lists of symbol numbers.
\<close>

section \<open>Data\<close>

type_synonym symid = nat

record symbol =
  sy_name :: string
  sy_iscustomreloc :: u32
  sy_flags :: u16
  sy_preemptible :: bool
  sy_defined :: bool
  sy_func :: bool
  sy_object :: bool
  sy_tls :: bool
  sy_gnu_ifunc :: bool
  sy_absolute :: bool
  sy_in_iplt :: bool
  sy_got_in_igot :: bool
  sy_canonical :: "u64 option"

record sym_aux =
  a_got :: u32
  a_plt :: u32
  a_fakeplt :: u32
  a_tlsdesc :: u32
  a_tlsgd :: u32
  a_non_fake_plt :: u32
  a_both_plts :: u32

definition no_aux :: sym_aux where
  "no_aux = \<lparr>a_got = - 1, a_plt = - 1, a_fakeplt = - 1, a_tlsdesc = - 1, a_tlsgd = - 1, a_non_fake_plt = 0, a_both_plts = 0\<rparr>"

datatype out_section = Sec_Got | Sec_GotPlt | Sec_IgotPlt

datatype reloc_kind = AgainstSymbol | AddendOnlyWithTargetVA | AddendOnly

record dynrel =
  dr_type :: u32
  dr_section :: out_section
  dr_offset :: u64
  dr_kind :: reloc_kind
  dr_sym :: "symid option"
  dr_addend :: u64

datatype got_expr = E_Abs | E_Addend | E_Tprel

record got_const =
  gc_expr :: got_expr
  gc_type :: u32
  gc_offset :: u64
  gc_addend :: u64
  gc_sym :: "symid option"

record link =
  lk_syms :: "symid \<Rightarrow> symbol"
  lk_next :: symid
  lk_aux :: "symid \<Rightarrow> sym_aux"
  lk_plt :: "symid list"
  lk_fakeplt :: "symid list"
  lk_gotplt :: "symid list"
  lk_iplt :: "symid list"
  lk_igotplt :: "symid list"
  lk_bothplts :: u32
  lk_got_n :: u32
  lk_consts :: "got_const list"
  lk_relaplt :: "dynrel list"
  lk_reladyn :: "dynrel list"
  lk_relrdyn :: "u64 list"
  lk_ormask_offset :: u64
  lk_andmask_offset :: u64
  lk_tls_index_off :: u32

text \<open>
  The options that matter here and \<open>addCopyRelSymbol\<close>, which reserves space for a copy relocation of
  a data symbol.
\<close>

record link_cfg =
  cf_pic :: bool
  cf_shared :: bool
  cf_relr :: bool
  cf_ifunc_noplt :: bool
  cf_android_pack :: bool
  cf_needs_tls_ld :: bool
  cf_add_copy_rel :: "symid \<Rightarrow> link \<Rightarrow> link"

record layout =
  la_plt :: u64
  la_plt_header :: u64
  la_fakeplt :: u64
  la_fakeplt_header :: u64
  la_iplt :: u64
  la_got :: u64
  la_gotplt :: u64
  la_igotplt :: u64

abbreviation (input) "gotEntrySize \<equiv> (8 :: u32)"
abbreviation (input) "pltEntrySize \<equiv> (32 :: u32)"
abbreviation (input) "pltHeaderSize \<equiv> (16 :: u32)"
abbreviation (input) "ipltEntrySize \<equiv> (32 :: u32)"
abbreviation (input) "gotPltHeaderEntriesNum \<equiv> (3 :: u32)"

abbreviation (input) "copyRel \<equiv> (5 :: u32)"
abbreviation (input) "gotRel \<equiv> (6 :: u32)"
abbreviation (input) "pltRel \<equiv> (7 :: u32)"
abbreviation (input) "customRel \<equiv> (8 :: u32)"
abbreviation (input) "relativeRel \<equiv> (8 :: u32)"
abbreviation (input) "iRelativeRel \<equiv> (37 :: u32)"
abbreviation (input) "symbolicRel \<equiv> (1 :: u32)"
abbreviation (input) "tlsModuleIndexRel \<equiv> (16 :: u32)"
abbreviation (input) "tlsOffsetRel \<equiv> (17 :: u32)"
abbreviation (input) "tlsGotRel \<equiv> (18 :: u32)"
abbreviation (input) "tlsDescRel \<equiv> (36 :: u32)"
abbreviation (input) "ormaskRel \<equiv> (1338 :: u32)"
abbreviation (input) "andmaskRel \<equiv> (1339 :: u32)"
abbreviation (input) "callbackmaybeRel \<equiv> (1341 :: u32)"
abbreviation (input) "dsobaseRel \<equiv> (1342 :: u32)"

abbreviation (input) "NEEDS_GOT \<equiv> (0x1 :: u16)"
abbreviation (input) "NEEDS_PLT \<equiv> (0x2 :: u16)"
abbreviation (input) "HAS_DIRECT_RELOC \<equiv> (0x4 :: u16)"
abbreviation (input) "NEEDS_COPY \<equiv> (0x8 :: u16)"
abbreviation (input) "NEEDS_TLSDESC \<equiv> (0x10 :: u16)"
abbreviation (input) "NEEDS_TLSGD \<equiv> (0x20 :: u16)"
abbreviation (input) "NEEDS_TLSGD_TO_IE \<equiv> (0x40 :: u16)"
abbreviation (input) "NEEDS_GOT_DTPREL \<equiv> (0x80 :: u16)"
abbreviation (input) "NEEDS_TLSIE \<equiv> (0x100 :: u16)"

definition starts_with :: "string \<Rightarrow> string \<Rightarrow> bool" where
  "starts_with p s = (take (length p) s = p)"

definition customreloc_type :: "'a symbol_scheme \<Rightarrow> u32" where
  "customreloc_type y = sy_iscustomreloc y AND 0xff"

definition has_flag :: "u16 \<Rightarrow> u16 \<Rightarrow> bool" where
  "has_flag flags f = (flags AND f \<noteq> 0)"

definition needsDynReloc :: "symbol \<Rightarrow> bool" where
  "needsDynReloc y =
    has_flag (sy_flags y)
      (NEEDS_COPY OR NEEDS_GOT OR NEEDS_PLT OR NEEDS_TLSDESC OR NEEDS_TLSGD OR NEEDS_TLSGD_TO_IE
        OR NEEDS_GOT_DTPREL OR NEEDS_TLSIE)"

abbreviation custom_of :: "link \<Rightarrow> symid \<Rightarrow> u32" where
  "custom_of L s \<equiv> customreloc_type (lk_syms L s)"

section \<open>Index fields and addresses\<close>

definition allocateAux :: "symid \<Rightarrow> link \<Rightarrow> link" where
  "allocateAux s L = L\<lparr>lk_aux := (lk_aux L)(s := no_aux)\<rparr>"

definition getGotOffset :: "link \<Rightarrow> symid \<Rightarrow> u64" where
  "getGotOffset L s = ucast (a_got (lk_aux L s) * gotEntrySize)"

definition getGotPltOffset :: "link \<Rightarrow> symid \<Rightarrow> u64" where
  "getGotPltOffset L s =
    (let a = lk_aux L s in
     if sy_in_iplt (lk_syms L s) then ucast (a_plt a * gotEntrySize)
     else if custom_of L s = 1 then ucast ((a_fakeplt a - a_both_plts a + gotPltHeaderEntriesNum) * gotEntrySize)
     else ucast ((a_plt a - a_both_plts a + gotPltHeaderEntriesNum) * gotEntrySize))"

definition getGotVA :: "layout \<Rightarrow> link \<Rightarrow> symid \<Rightarrow> u64" where
  "getGotVA A L s =
    (if sy_got_in_igot (lk_syms L s) then la_igotplt A + getGotPltOffset L s
     else la_got A + getGotOffset L s)"

definition getGotPltVA :: "layout \<Rightarrow> link \<Rightarrow> symid \<Rightarrow> u64" where
  "getGotPltVA A L s =
    (if sy_in_iplt (lk_syms L s) then la_igotplt A + getGotPltOffset L s
     else la_gotplt A + getGotPltOffset L s)"

definition getPltVA :: "layout \<Rightarrow> link \<Rightarrow> symid \<Rightarrow> u64" where
  "getPltVA A L s =
    (if sy_in_iplt (lk_syms L s) then la_iplt A + ucast (a_plt (lk_aux L s) * ipltEntrySize)
     else la_plt A + la_plt_header A + ucast (a_non_fake_plt (lk_aux L s) * pltEntrySize))"

definition getFakePltVA :: "layout \<Rightarrow> link \<Rightarrow> symid \<Rightarrow> u64" where
  "getFakePltVA A L s =
    (if sy_in_iplt (lk_syms L s) then la_iplt A + ucast (a_fakeplt (lk_aux L s) * ipltEntrySize)
     else la_fakeplt A + la_fakeplt_header A + ucast (a_non_fake_plt (lk_aux L s) * pltEntrySize))"

section \<open>Adding entries\<close>

definition upd_aux :: "symid \<Rightarrow> (sym_aux \<Rightarrow> sym_aux) \<Rightarrow> link \<Rightarrow> link" where
  "upd_aux s f L = L\<lparr>lk_aux := (lk_aux L)(s := f (lk_aux L s))\<rparr>"

definition plt_addEntry :: "symid \<Rightarrow> link \<Rightarrow> link" where
  "plt_addEntry s L =
    (let n = of_nat (length (lk_plt L));
         L = (if custom_of L s AND 1 = 0
              then upd_aux s (\<lambda>a. a\<lparr>a_non_fake_plt := n, a_both_plts := lk_bothplts L\<rparr>) L
              else L\<lparr>lk_bothplts := lk_bothplts L + 1\<rparr>);
         L = upd_aux s (\<lambda>a. a\<lparr>a_plt := n + of_nat (length (lk_fakeplt L))\<rparr>) L
     in L\<lparr>lk_plt := lk_plt L @ [s]\<rparr>)"

definition fakeplt_addEntry :: "symid \<Rightarrow> link \<Rightarrow> link" where
  "fakeplt_addEntry s L =
    (let n = of_nat (length (lk_fakeplt L));
         L = upd_aux s (\<lambda>a. a\<lparr>a_non_fake_plt := n, a_both_plts := lk_bothplts L,
                              a_fakeplt := n + of_nat (length (lk_plt L))\<rparr>) L
     in L\<lparr>lk_fakeplt := lk_fakeplt L @ [s]\<rparr>)"

definition gotplt_addEntry :: "symid \<Rightarrow> link \<Rightarrow> link" where
  "gotplt_addEntry s L = L\<lparr>lk_gotplt := lk_gotplt L @ [s]\<rparr>"

definition iplt_addEntry :: "symid \<Rightarrow> link \<Rightarrow> link" where
  "iplt_addEntry s L =
    (upd_aux s (\<lambda>a. a\<lparr>a_plt := of_nat (length (lk_iplt L))\<rparr>) L)\<lparr>lk_iplt := lk_iplt L @ [s]\<rparr>"

definition igotplt_addEntry :: "symid \<Rightarrow> link \<Rightarrow> link" where
  "igotplt_addEntry s L = L\<lparr>lk_igotplt := lk_igotplt L @ [s]\<rparr>"

definition got_addEntry :: "symid \<Rightarrow> link \<Rightarrow> link" where
  "got_addEntry s L = (upd_aux s (\<lambda>a. a\<lparr>a_got := lk_got_n L\<rparr>) L)\<lparr>lk_got_n := lk_got_n L + 1\<rparr>"

definition got_addTlsDescEntry :: "symid \<Rightarrow> link \<Rightarrow> link" where
  "got_addTlsDescEntry s L = (upd_aux s (\<lambda>a. a\<lparr>a_tlsdesc := lk_got_n L\<rparr>) L)\<lparr>lk_got_n := lk_got_n L + 2\<rparr>"

definition got_addDynTlsEntry :: "symid \<Rightarrow> link \<Rightarrow> link" where
  "got_addDynTlsEntry s L = (upd_aux s (\<lambda>a. a\<lparr>a_tlsgd := lk_got_n L\<rparr>) L)\<lparr>lk_got_n := lk_got_n L + 2\<rparr>"

definition got_addTlsIndex :: "link \<Rightarrow> bool \<times> link" where
  "got_addTlsIndex L =
    (if lk_tls_index_off L \<noteq> - 1 then (False, L)
     else (True, L\<lparr>lk_tls_index_off := lk_got_n L * 8, lk_got_n := lk_got_n L + 2\<rparr>))"

definition got_addConstant :: "got_const \<Rightarrow> link \<Rightarrow> link" where
  "got_addConstant c L = L\<lparr>lk_consts := lk_consts L @ [c]\<rparr>"

definition rela_plt :: "dynrel \<Rightarrow> link \<Rightarrow> link" where
  "rela_plt r L = L\<lparr>lk_relaplt := lk_relaplt L @ [r]\<rparr>"

definition rela_dyn :: "dynrel \<Rightarrow> link \<Rightarrow> link" where
  "rela_dyn r L = L\<lparr>lk_reladyn := lk_reladyn L @ [r]\<rparr>"

definition slot_reloc :: "u32 \<Rightarrow> out_section \<Rightarrow> u64 \<Rightarrow> link \<Rightarrow> symid \<Rightarrow> dynrel" where
  "slot_reloc t sec off L s =
    \<lparr>dr_type = t, dr_section = sec, dr_offset = off,
     dr_kind = (if sy_preemptible (lk_syms L s) then AgainstSymbol else AddendOnlyWithTargetVA), dr_sym = Some s, dr_addend = 0\<rparr>"

definition against :: "u32 \<Rightarrow> u64 \<Rightarrow> symid \<Rightarrow> dynrel" where
  "against t off s =
    \<lparr>dr_type = t, dr_section = Sec_Got, dr_offset = off, dr_kind = AgainstSymbol, dr_sym = Some s, dr_addend = 0\<rparr>"

definition addPltEntry :: "symid \<Rightarrow> link \<Rightarrow> link" where
  "addPltEntry s L =
    (let L = plt_addEntry s L in
     if custom_of L s AND 1 = 0
     then
       let L = gotplt_addEntry s L
       in rela_plt (slot_reloc pltRel Sec_GotPlt (getGotPltOffset L s) L s) L
     else L)"

definition addFakePltEntry :: "symid \<Rightarrow> link \<Rightarrow> link" where
  "addFakePltEntry s L =
    (let L = gotplt_addEntry s (fakeplt_addEntry s L)
     in rela_plt (slot_reloc pltRel Sec_GotPlt (getGotPltOffset L s) L s) L)"

definition addIpltEntry :: "link_cfg \<Rightarrow> symid \<Rightarrow> link \<Rightarrow> link" where
  "addIpltEntry C s L =
    (let L = iplt_addEntry s L in
     if custom_of L s AND 1 = 0
     then
       let L = igotplt_addEntry s L;
           r = slot_reloc iRelativeRel Sec_IgotPlt (getGotPltOffset L s) L s
       in if cf_android_pack C then rela_plt r L else rela_dyn r L
     else L)"

definition addRelativeReloc :: "link_cfg \<Rightarrow> u64 \<Rightarrow> symid \<Rightarrow> link \<Rightarrow> link" where
  "addRelativeReloc C off s L =
    (if cf_relr C \<and> off mod 2 = 0
     then got_addConstant \<lparr>gc_expr = E_Abs, gc_type = symbolicRel, gc_offset = off, gc_addend = 0, gc_sym = Some s\<rparr>
            (L\<lparr>lk_relrdyn := lk_relrdyn L @ [off]\<rparr>)
     else rela_dyn \<lparr>dr_type = relativeRel, dr_section = Sec_Got, dr_offset = off, dr_kind = AddendOnlyWithTargetVA,
                    dr_sym = Some s, dr_addend = 0\<rparr> L)"

definition addGotEntry :: "link_cfg \<Rightarrow> symid \<Rightarrow> link \<Rightarrow> link" where
  "addGotEntry C s L =
    (let L = got_addEntry s L;
         off = getGotOffset L s;
         y = lk_syms L s;
         nm = sy_name y;
         ct = customreloc_type y
     in if ct > 1 \<and> starts_with ''or_mask'' nm
        then rela_dyn (against ormaskRel off s)
               (if lk_ormask_offset L = 0 then L\<lparr>lk_ormask_offset := off\<rparr> else L)
        else if ct > 1 \<and> starts_with ''and_mask'' nm
        then rela_dyn (against andmaskRel off s)
               (if lk_andmask_offset L = 0 then L\<lparr>lk_andmask_offset := off\<rparr> else L)
        else if ct > 1 \<and> (starts_with ''callback_table'' nm \<or> starts_with ''placeholder'' nm \<or> starts_with ''dsym_'' nm)
        then rela_dyn (against customRel off s) L
        else if ct > 1 \<and> ct = 4 then rela_dyn (against callbackmaybeRel off s) L
        else if ct > 1 \<and> ct = 6 then rela_dyn (against dsobaseRel off s) L
        else if sy_preemptible y
        then rela_dyn (against (if ct AND 1 \<noteq> 0 then customRel else gotRel) off s) L
        else if \<not> cf_pic C \<or> sy_absolute y
        then got_addConstant \<lparr>gc_expr = E_Abs, gc_type = symbolicRel, gc_offset = off, gc_addend = 0, gc_sym = Some s\<rparr> L
        else if starts_with ''or_mask'' nm then rela_dyn (against ormaskRel off s) L
        else if starts_with ''and_mask'' nm then rela_dyn (against andmaskRel off s) L
        else addRelativeReloc C off s L)"

text \<open>The first component tells whether the symbol is done.\<close>

definition handleNonPreemptibleIfunc :: "link_cfg \<Rightarrow> symid \<Rightarrow> u16 \<Rightarrow> link \<Rightarrow> bool \<times> link" where
  "handleNonPreemptibleIfunc C s flags L =
    (let y = lk_syms L s in
     if \<not> sy_gnu_ifunc y \<or> sy_preemptible y \<or> cf_ifunc_noplt C then (False, L)
     else if \<not> has_flag flags (NEEDS_GOT OR NEEDS_PLT OR HAS_DIRECT_RELOC) then (True, L)
     else
       let y = y\<lparr>sy_in_iplt := True\<rparr>;
           direct = lk_next L;
           L = L\<lparr>lk_syms := (lk_syms L)(s := y, direct := y), lk_next := direct + 1\<rparr>;
           L = addIpltEntry C direct (allocateAux direct L);
           L = upd_aux s (\<lambda>a. a\<lparr>a_plt := a_plt (lk_aux L direct)\<rparr>) (allocateAux s L)
       in (True,
           if has_flag flags HAS_DIRECT_RELOC
           then
             let y = y\<lparr>sy_canonical := Some (ucast (a_plt (lk_aux L s) * ipltEntrySize)), sy_gnu_ifunc := False, sy_func := True\<rparr>;
                 L = L\<lparr>lk_syms := (lk_syms L)(s := y)\<rparr>
             in if has_flag flags NEEDS_GOT then addGotEntry C s L else L
           else if has_flag flags NEEDS_GOT
           then L\<lparr>lk_syms := (lk_syms L)(s := y\<lparr>sy_got_in_igot := True\<rparr>)\<rparr>
           else L))"

definition addTpOffsetGotEntry :: "link_cfg \<Rightarrow> symid \<Rightarrow> link \<Rightarrow> link" where
  "addTpOffsetGotEntry C s L =
    (let L = got_addEntry s L; off = getGotOffset L s in
     if \<not> sy_preemptible (lk_syms L s) \<and> \<not> cf_shared C
     then got_addConstant \<lparr>gc_expr = E_Tprel, gc_type = symbolicRel, gc_offset = off, gc_addend = 0, gc_sym = Some s\<rparr> L
     else rela_dyn (slot_reloc tlsGotRel Sec_Got off L s) L)"

text \<open>
  A function symbol of a shared object whose address is taken becomes defined, with the flags
  \<open>replaceWithDefined\<close> leaves.
\<close>

definition canonicalPlt :: "symid \<Rightarrow> link \<Rightarrow> link" where
  "canonicalPlt s L =
    (let y = lk_syms L s in
     if sy_defined y then L
     else L\<lparr>lk_syms := (lk_syms L)(s := y\<lparr>sy_defined := True,
              sy_canonical := Some (ucast (pltHeaderSize + pltEntrySize * a_plt (lk_aux L s))),
              sy_flags := (sy_flags y AND NEEDS_GOT) OR NEEDS_COPY\<rparr>)\<rparr>)"

definition scanTls :: "link_cfg \<Rightarrow> symid \<Rightarrow> u16 \<Rightarrow> link \<Rightarrow> link" where
  "scanTls C s flags L =
    (let y = lk_syms L s;
         localExec = (\<not> sy_preemptible y \<and> \<not> cf_shared C);
         L = (if has_flag flags NEEDS_TLSDESC
              then let L = got_addTlsDescEntry s L
                   in rela_dyn (slot_reloc tlsDescRel Sec_Got (ucast (a_tlsdesc (lk_aux L s) * 8)) L s) L
              else L);
         L = (if has_flag flags NEEDS_TLSGD
              then
                let L = got_addDynTlsEntry s L;
                    off = ucast (a_tlsgd (lk_aux L s) * 8);
                    L = (if localExec
                         then got_addConstant \<lparr>gc_expr = E_Addend, gc_type = symbolicRel, gc_offset = off, gc_addend = 1, gc_sym = Some s\<rparr> L
                         else rela_dyn (against tlsModuleIndexRel off s) L)
                in if sy_preemptible y then rela_dyn (against tlsOffsetRel (off + 8) s) L
                   else got_addConstant \<lparr>gc_expr = E_Abs, gc_type = tlsOffsetRel, gc_offset = off + 8, gc_addend = 0, gc_sym = Some s\<rparr> L
              else L);
         L = (if has_flag flags NEEDS_TLSGD_TO_IE
              then let L = got_addEntry s L in rela_dyn (against tlsGotRel (getGotOffset L s) s) L
              else L);
         L = (if has_flag flags NEEDS_GOT_DTPREL
              then
                let L = got_addEntry s L
                in got_addConstant \<lparr>gc_expr = E_Abs, gc_type = tlsOffsetRel, gc_offset = getGotOffset L s, gc_addend = 0, gc_sym = Some s\<rparr> L
              else L)
     in if has_flag flags NEEDS_TLSIE \<and> \<not> has_flag flags NEEDS_TLSGD_TO_IE then addTpOffsetGotEntry C s L else L)"

text \<open>The PLT and GOT part of the function applied to every symbol.\<close>

definition scanEntries :: "link_cfg \<Rightarrow> symid \<Rightarrow> u16 \<Rightarrow> bool \<Rightarrow> link \<Rightarrow> link" where
  "scanEntries C s flags tmp L =
    (let L = (if has_flag flags NEEDS_GOT then addGotEntry C s L else L);
         L = (if custom_of L s AND 1 \<noteq> 0 then addFakePltEntry s L else L)
     in if has_flag flags NEEDS_PLT \<and> \<not> tmp \<and> \<not> starts_with ''placeholder'' (sy_name (lk_syms L s))
        then addPltEntry s L else L)"

definition postScanSymbol :: "link_cfg \<Rightarrow> symid \<Rightarrow> link \<Rightarrow> link" where
  "postScanSymbol C s L =
    (let flags = sy_flags (lk_syms L s);
         (fin, L) = handleNonPreemptibleIfunc C s flags L
     in if fin then L
        else
          let tmp = (custom_of L s = 1 \<and> \<not> has_flag flags NEEDS_PLT);
              flags = (if tmp then flags OR NEEDS_PLT else flags);
              L = (if tmp then L\<lparr>lk_syms := (lk_syms L)(s := (lk_syms L s)\<lparr>sy_flags := sy_flags (lk_syms L s) OR NEEDS_PLT\<rparr>)\<rparr> else L)
          in if \<not> needsDynReloc (lk_syms L s) \<and> custom_of L s < 2 then L
             else
               let L = scanEntries C s flags tmp (allocateAux s L);
                   L = (if has_flag flags NEEDS_COPY
                        then if sy_object (lk_syms L s) then cf_add_copy_rel C s L else canonicalPlt s L
                        else L)
               in if sy_tls (lk_syms L s) then scanTls C s flags L else L)"

definition postScanRelocations :: "link_cfg \<Rightarrow> symid list \<Rightarrow> link \<Rightarrow> link" where
  "postScanRelocations C syms L =
    (let (added, L) = (if cf_needs_tls_ld C then got_addTlsIndex L else (False, L));
         L = (if added
              then
                if cf_shared C
                then rela_dyn \<lparr>dr_type = tlsModuleIndexRel, dr_section = Sec_Got, dr_offset = ucast (lk_tls_index_off L),
                               dr_kind = AddendOnly, dr_sym = None, dr_addend = 0\<rparr> L
                else got_addConstant \<lparr>gc_expr = E_Addend, gc_type = symbolicRel, gc_offset = ucast (lk_tls_index_off L),
                                      gc_addend = 1, gc_sym = None\<rparr> L
              else L)
     in fold (postScanSymbol C) syms L)"

section \<open>What the operations keep\<close>

named_theorems link_defs

lemmas link_steps [link_defs] =
  allocateAux_def upd_aux_def plt_addEntry_def fakeplt_addEntry_def gotplt_addEntry_def iplt_addEntry_def igotplt_addEntry_def
  got_addEntry_def got_addTlsDescEntry_def got_addDynTlsEntry_def got_addConstant_def rela_plt_def rela_dyn_def

definition plt_fields :: "sym_aux \<Rightarrow> u32 \<times> u32 \<times> u32 \<times> u32" where
  "plt_fields a = (a_plt a, a_fakeplt a, a_non_fake_plt a, a_both_plts a)"

text \<open>
  The steps that do not concern PLT entries: they leave the sections and, for every symbol of the set
  \<open>S\<close>, the fields the addresses of PLT entries depend on.
\<close>

definition plt_same :: "symid set \<Rightarrow> link \<Rightarrow> link \<Rightarrow> bool" where
  "plt_same S L L' \<longleftrightarrow>
    lk_plt L' = lk_plt L \<and> lk_fakeplt L' = lk_fakeplt L \<and> lk_gotplt L' = lk_gotplt L \<and> lk_relaplt L' = lk_relaplt L \<and>
    lk_bothplts L' = lk_bothplts L \<and> lk_next L \<le> lk_next L' \<and>
    (\<forall>t \<in> S. plt_fields (lk_aux L' t) = plt_fields (lk_aux L t) \<and> custom_of L' t = custom_of L t \<and>
       sy_in_iplt (lk_syms L' t) = sy_in_iplt (lk_syms L t))"

lemma plt_same_refl [simp]: "plt_same S L L"
  by (simp add: plt_same_def)

lemma plt_same_trans [trans]: "plt_same S L L' \<Longrightarrow> plt_same S L' L'' \<Longrightarrow> plt_same S L L''"
  by (simp add: plt_same_def)

lemma plt_same_steps:
  "plt_same S L (got_addEntry s L)" "plt_same S L (got_addTlsDescEntry s L)" "plt_same S L (got_addDynTlsEntry s L)"
  "plt_same S L (got_addConstant c L)" "plt_same S L (rela_dyn r L)" "plt_same S L (L\<lparr>lk_relrdyn := xs\<rparr>)"
  "plt_same S L (L\<lparr>lk_ormask_offset := v\<rparr>)" "plt_same S L (L\<lparr>lk_andmask_offset := v\<rparr>)"
  by (simp_all add: plt_same_def plt_fields_def link_defs)

lemma plt_same_after:
  "plt_same S L L' \<Longrightarrow> plt_same S L (got_addConstant c L')" "plt_same S L L' \<Longrightarrow> plt_same S L (rela_dyn r L')"
  "plt_same S L L' \<Longrightarrow> plt_same S L (got_addEntry s L')"
  by (blast intro: plt_same_trans plt_same_steps)+

lemma plt_same_if: "plt_same S L A \<Longrightarrow> plt_same S L B \<Longrightarrow> plt_same S L (if c then A else B)"
  by simp

lemma plt_same_relative: "plt_same S L (addRelativeReloc C off s L)"
  by (auto simp: addRelativeReloc_def intro: plt_same_after plt_same_steps)

lemma plt_same_addGotEntry: "plt_same S L (addGotEntry C s L)"
proof -
  define L1 where "L1 = got_addEntry s L"
  have 1: "plt_same S L L1" unfolding L1_def by (rule plt_same_steps)
  have "plt_same S L1 (addGotEntry C s L)"
    unfolding addGotEntry_def Let_def L1_def [symmetric]
    by (intro plt_same_if plt_same_relative plt_same_after plt_same_refl plt_same_steps(7,8))
  then show ?thesis by (rule plt_same_trans [OF 1])
qed

lemma plt_same_tpoffset: "plt_same S L (addTpOffsetGotEntry C s L)"
  by (auto simp: addTpOffsetGotEntry_def Let_def intro: plt_same_after plt_same_steps)

lemma plt_same_canonical: "plt_same S L (canonicalPlt s L)"
  by (auto simp: canonicalPlt_def Let_def plt_same_def customreloc_type_def)

lemma plt_same_scanTls: "plt_same S L (scanTls C s flags L)"
  unfolding scanTls_def Let_def
  by (intro plt_same_if plt_same_trans [OF _ plt_same_tpoffset] plt_same_after plt_same_refl plt_same_trans [OF _ plt_same_steps(2)]
      plt_same_trans [OF _ plt_same_steps(3)])

section \<open>The correspondence of PLT entries, GOT slots and relocations\<close>

definition slot_offset :: "nat \<Rightarrow> u64" where
  "slot_offset k = of_nat (8 * (k + 3))"

definition slot_at :: "link \<Rightarrow> symid \<Rightarrow> u32 \<Rightarrow> nat \<Rightarrow> bool" where
  "slot_at L s idx i \<longleftrightarrow> a_non_fake_plt (lk_aux L s) = of_nat i \<and>
    (\<exists>k < length (lk_gotplt L). idx - a_both_plts (lk_aux L s) = of_nat k \<and> lk_gotplt L ! k = s)"

definition fake_entry :: "link \<Rightarrow> symid \<Rightarrow> nat \<Rightarrow> bool" where
  "fake_entry L s i \<longleftrightarrow> custom_of L s = 1 \<and> \<not> sy_in_iplt (lk_syms L s) \<and> slot_at L s (a_fakeplt (lk_aux L s)) i"

definition plt_entry :: "link \<Rightarrow> symid \<Rightarrow> nat \<Rightarrow> bool" where
  "plt_entry L s i \<longleftrightarrow> \<not> sy_in_iplt (lk_syms L s) \<and> (custom_of L s AND 1 = 0 \<longrightarrow> slot_at L s (a_plt (lk_aux L s)) i)"

definition slot_rel :: "link \<Rightarrow> dynrel \<Rightarrow> nat \<Rightarrow> bool" where
  "slot_rel L r k \<longleftrightarrow> dr_sym r = Some (lk_gotplt L ! k) \<and> dr_section r = Sec_GotPlt \<and> dr_type r = pltRel \<and> dr_offset r = slot_offset k"

definition all_at :: "('a \<Rightarrow> nat \<Rightarrow> bool) \<Rightarrow> 'a list \<Rightarrow> bool" where
  "all_at P xs \<longleftrightarrow> (\<forall>i < length xs. P (xs ! i) i)"

definition plt_inv :: "nat \<Rightarrow> link \<Rightarrow> bool" where
  "plt_inv n L \<longleftrightarrow>
    unat (lk_bothplts L) + length (lk_gotplt L) = length (lk_plt L) + length (lk_fakeplt L) \<and>
    length (lk_plt L) + length (lk_fakeplt L) \<le> n \<and> length (lk_relaplt L) = length (lk_gotplt L) \<and>
    all_at (slot_rel L) (lk_relaplt L) \<and> all_at (fake_entry L) (lk_fakeplt L) \<and> all_at (plt_entry L) (lk_plt L)"

lemma all_at_append [simp]: "all_at P (xs @ [x]) \<longleftrightarrow> all_at P xs \<and> P x (length xs)"
  by (auto simp: all_at_def less_Suc_eq nth_append)

lemma all_at_mono: "all_at P xs \<Longrightarrow> (\<And>x i. x \<in> set xs \<Longrightarrow> i < length xs \<Longrightarrow> P x i \<Longrightarrow> Q x i) \<Longrightarrow> all_at Q xs"
  by (simp add: all_at_def)

text \<open>A symbol whose fields are kept stays at its slot when the section grows.\<close>

definition kept :: "link \<Rightarrow> link \<Rightarrow> symid \<Rightarrow> bool" where
  "kept L L' t \<longleftrightarrow> plt_fields (lk_aux L' t) = plt_fields (lk_aux L t) \<and> custom_of L' t = custom_of L t \<and>
     sy_in_iplt (lk_syms L' t) = sy_in_iplt (lk_syms L t)"

lemma keptD:
  assumes "kept L L' t"
  shows "a_plt (lk_aux L' t) = a_plt (lk_aux L t)" "a_fakeplt (lk_aux L' t) = a_fakeplt (lk_aux L t)"
    "a_non_fake_plt (lk_aux L' t) = a_non_fake_plt (lk_aux L t)" "a_both_plts (lk_aux L' t) = a_both_plts (lk_aux L t)"
    "custom_of L' t = custom_of L t" "sy_in_iplt (lk_syms L' t) = sy_in_iplt (lk_syms L t)"
  using assms by (auto simp: kept_def plt_fields_def)

lemma slot_at_ext:
  assumes "slot_at L t idx i" "a_non_fake_plt (lk_aux L' t) = a_non_fake_plt (lk_aux L t)"
    "a_both_plts (lk_aux L' t) = a_both_plts (lk_aux L t)" "lk_gotplt L' = lk_gotplt L @ xs"
  shows "slot_at L' t idx i"
  using assms unfolding slot_at_def by (metis length_append nth_append trans_less_add1)

lemma slot_at_new:
  assumes "a_non_fake_plt (lk_aux L' s) = of_nat i" "idx - a_both_plts (lk_aux L' s) = of_nat (length (lk_gotplt L))"
    "lk_gotplt L' = lk_gotplt L @ [s]"
  shows "slot_at L' s idx i"
  using assms unfolding slot_at_def by (metis length_append_singleton lessI nth_append_length)

lemma entries_ext:
  assumes "lk_gotplt L' = lk_gotplt L @ xs" "\<forall>t \<in> set (lk_plt L) \<union> set (lk_fakeplt L). kept L L' t"
  shows "all_at (fake_entry L) (lk_fakeplt L) \<Longrightarrow> all_at (fake_entry L') (lk_fakeplt L)"
    "all_at (plt_entry L) (lk_plt L) \<Longrightarrow> all_at (plt_entry L') (lk_plt L)"
  by (erule all_at_mono, use assms keptD [of L L'] slot_at_ext [of L _ _ _ L' xs] in \<open>auto simp: fake_entry_def plt_entry_def\<close>)+

lemma slot_rel_ext:
  assumes "all_at (slot_rel L) (lk_relaplt L)" "lk_gotplt L' = lk_gotplt L @ xs" "length (lk_relaplt L) = length (lk_gotplt L)"
  shows "all_at (slot_rel L') (lk_relaplt L)"
  using assms by (auto simp: all_at_def slot_rel_def nth_append)

lemma ucast_slot:
  assumes "8 * (k + 3) < 2 ^ 32"
  shows "ucast ((of_nat k + gotPltHeaderEntriesNum) * gotEntrySize) = slot_offset k"
proof -
  have "(of_nat k + 3) * 8 = (of_nat (8 * (k + 3)) :: u32)" by simp
  moreover have "ucast (of_nat (8 * (k + 3)) :: u32) = (of_nat (8 * (k + 3)) :: u64)"
    using assms by (simp add: unsigned_of_nat take_bit_nat_eq_self del: of_nat_mult of_nat_add)
  ultimately show ?thesis unfolding slot_offset_def by metis
qed

lemma plt_inv_same:
  assumes "plt_same (set (lk_plt L) \<union> set (lk_fakeplt L)) L L'" "plt_inv n L"
  shows "plt_inv n L'"
proof -
  have l: "lk_plt L' = lk_plt L" "lk_fakeplt L' = lk_fakeplt L" "lk_gotplt L' = lk_gotplt L @ []" "lk_relaplt L' = lk_relaplt L"
    "lk_bothplts L' = lk_bothplts L"
    using assms(1) by (simp_all add: plt_same_def)
  moreover have "\<forall>t \<in> set (lk_plt L) \<union> set (lk_fakeplt L). kept L L' t" using assms(1) by (simp add: plt_same_def kept_def)
  ultimately show ?thesis
    using assms(2) entries_ext [OF l(3)] slot_rel_ext [OF _ l(3)] unfolding plt_inv_def by simp
qed

lemma plt_inv_mono: "plt_inv n L \<Longrightarrow> n \<le> n' \<Longrightarrow> plt_inv n' L"
  by (auto simp: plt_inv_def)

lemma slot_index:
  assumes "unat both + g = m"
  shows "of_nat m - both = (of_nat g :: u32)"
  using assms by (metis add_diff_cancel_left' of_nat_add of_nat_unat ucast_id)

lemma plt_inv_counts:
  assumes "plt_inv n L" "8 * (n + 3) < 2 ^ 32"
  shows "of_nat (length (lk_plt L)) + of_nat (length (lk_fakeplt L)) - lk_bothplts L = (of_nat (length (lk_gotplt L)) :: u32)"
    "ucast ((of_nat (length (lk_gotplt L)) + 3) * 8 :: u32) = slot_offset (length (lk_gotplt L))"
    "unat (lk_bothplts L + 1) = unat (lk_bothplts L) + 1"
proof -
  have m: "unat (lk_bothplts L) + length (lk_gotplt L) = length (lk_plt L) + length (lk_fakeplt L)"
    "length (lk_plt L) + length (lk_fakeplt L) \<le> n"
    using assms(1) by (simp_all add: plt_inv_def)
  show "of_nat (length (lk_plt L)) + of_nat (length (lk_fakeplt L)) - lk_bothplts L = (of_nat (length (lk_gotplt L)) :: u32)"
    using slot_index [OF m(1)] by simp
  show "ucast ((of_nat (length (lk_gotplt L)) + 3) * 8 :: u32) = slot_offset (length (lk_gotplt L))"
    using m assms(2) by (intro ucast_slot) simp
  show "unat (lk_bothplts L + 1) = unat (lk_bothplts L) + 1"
    using m assms(2) by (subst unat_add_lem [THEN iffD1]) simp_all
qed

lemma addFakePltEntry_inv:
  assumes "plt_inv n L" "s \<notin> set (lk_plt L) \<union> set (lk_fakeplt L)" "custom_of L s = 1" "\<not> sy_in_iplt (lk_syms L s)"
    and "8 * (n + 3) < 2 ^ 32"
  shows "plt_inv (n + 1) (addFakePltEntry s L)"
proof -
  define L' where "L' = addFakePltEntry s L"
  note c = plt_inv_counts [OF assms(1,5)]
  have f: "lk_plt L' = lk_plt L" "lk_fakeplt L' = lk_fakeplt L @ [s]" "lk_gotplt L' = lk_gotplt L @ [s]" "lk_bothplts L' = lk_bothplts L"
    "lk_syms L' = lk_syms L" "\<And>t. t \<noteq> s \<Longrightarrow> lk_aux L' t = lk_aux L t"
    "a_non_fake_plt (lk_aux L' s) = of_nat (length (lk_fakeplt L))" "a_both_plts (lk_aux L' s) = lk_bothplts L"
    "a_fakeplt (lk_aux L' s) = of_nat (length (lk_fakeplt L)) + of_nat (length (lk_plt L))"
    by (simp_all add: L'_def addFakePltEntry_def Let_def link_defs)
  have r: "lk_relaplt L' = lk_relaplt L @ [slot_reloc pltRel Sec_GotPlt (slot_offset (length (lk_gotplt L))) L s]"
    using assms(3,4) c(1,2) by (simp add: L'_def addFakePltEntry_def Let_def link_defs getGotPltOffset_def slot_reloc_def add.commute)
  have k: "\<forall>t \<in> set (lk_plt L) \<union> set (lk_fakeplt L). kept L L' t" using assms(2) f(5,6) by (metis kept_def)
  have new: "fake_entry L' s (length (lk_fakeplt L))"
    unfolding fake_entry_def using assms(3,4) f(5) slot_at_new [OF f(7) _ f(3)] f(8,9) c(1) by (simp add: add.commute)
  have i: "all_at (slot_rel L) (lk_relaplt L)" "all_at (fake_entry L) (lk_fakeplt L)" "all_at (plt_entry L) (lk_plt L)"
    "length (lk_relaplt L) = length (lk_gotplt L)" using assms(1) by (simp_all add: plt_inv_def)
  have "all_at (slot_rel L') (lk_relaplt L')"
    using slot_rel_ext [OF i(1) f(3) i(4)] i(4) f(3) unfolding r by (simp add: slot_rel_def slot_reloc_def)
  then show ?thesis
    unfolding L'_def [symmetric] plt_inv_def using entries_ext(1) [OF f(3) k i(2)] entries_ext(2) [OF f(3) k i(3)] new assms(1) f(1-4) r
    by (simp add: plt_inv_def)
qed

lemma addPltEntry_inv:
  assumes "plt_inv n L" "s \<notin> set (lk_plt L)" "\<not> sy_in_iplt (lk_syms L s)" "8 * (n + 3) < 2 ^ 32"
    and "custom_of L s AND 1 = 0 \<Longrightarrow> s \<notin> set (lk_fakeplt L)"
  shows "plt_inv (n + 1) (addPltEntry s L)"
proof -
  define L' where "L' = addPltEntry s L"
  note c = plt_inv_counts [OF assms(1,4)]
  have i: "all_at (slot_rel L) (lk_relaplt L)" "all_at (fake_entry L) (lk_fakeplt L)" "all_at (plt_entry L) (lk_plt L)"
    "length (lk_relaplt L) = length (lk_gotplt L)" using assms(1) by (simp_all add: plt_inv_def)
  have f: "lk_plt L' = lk_plt L @ [s]" "lk_fakeplt L' = lk_fakeplt L" "lk_syms L' = lk_syms L"
    "\<And>t. t \<noteq> s \<Longrightarrow> lk_aux L' t = lk_aux L t"
    by (simp_all add: L'_def addPltEntry_def Let_def link_defs)
  show ?thesis
  proof (cases "custom_of L s AND 1 = 0")
    case True
    have g: "lk_gotplt L' = lk_gotplt L @ [s]" "lk_bothplts L' = lk_bothplts L"
      "a_non_fake_plt (lk_aux L' s) = of_nat (length (lk_plt L))" "a_both_plts (lk_aux L' s) = lk_bothplts L"
      "a_plt (lk_aux L' s) = of_nat (length (lk_plt L)) + of_nat (length (lk_fakeplt L))"
      using True by (simp_all add: L'_def addPltEntry_def Let_def link_defs)
    have one: "custom_of L s \<noteq> 1" using True by auto
    have r: "lk_relaplt L' = lk_relaplt L @ [slot_reloc pltRel Sec_GotPlt (slot_offset (length (lk_gotplt L))) L s]"
      using True one assms(3) c(1,2) by (simp add: L'_def addPltEntry_def Let_def link_defs getGotPltOffset_def slot_reloc_def)
    have k: "\<forall>t \<in> set (lk_plt L) \<union> set (lk_fakeplt L). kept L L' t" using assms(2,5) True f(3,4) by (metis Un_iff kept_def)
    have new: "plt_entry L' s (length (lk_plt L))"
      unfolding plt_entry_def using assms(3) f(3) slot_at_new [OF g(3) _ g(1)] g(4,5) c(1) by simp
    have "all_at (slot_rel L') (lk_relaplt L')"
      using slot_rel_ext [OF i(1) g(1) i(4)] i(4) g(1) unfolding r by (simp add: slot_rel_def slot_reloc_def)
    then show ?thesis
      unfolding L'_def [symmetric] plt_inv_def using entries_ext [OF g(1) k] i new assms(1) f(1,2) g(1,2) r
      by (simp add: plt_inv_def)
  next
    case False
    have g: "lk_gotplt L' = lk_gotplt L @ []" "lk_bothplts L' = lk_bothplts L + 1" "lk_relaplt L' = lk_relaplt L"
      "a_non_fake_plt (lk_aux L' t) = a_non_fake_plt (lk_aux L t)" "a_both_plts (lk_aux L' t) = a_both_plts (lk_aux L t)"
      "a_fakeplt (lk_aux L' t) = a_fakeplt (lk_aux L t)" for t
      using False by (simp_all add: L'_def addPltEntry_def Let_def link_defs)
    have fake: "all_at (fake_entry L') (lk_fakeplt L)"
      using i(2) by (rule all_at_mono) (use f(3) g slot_at_ext [OF _ g(4,5,1)] in \<open>auto simp: fake_entry_def\<close>)
    have p: "a_plt (lk_aux L' x) = a_plt (lk_aux L x)" if "x \<in> set (lk_plt L)" for x using that assms(2) f(4) by metis
    have plt: "all_at (plt_entry L') (lk_plt L)"
      using i(3) by (rule all_at_mono) (use p f(3) g slot_at_ext [OF _ g(4,5,1)] in \<open>auto simp: plt_entry_def\<close>)
    have "plt_entry L' s (length (lk_plt L))" using False assms(3) f(3) by (simp add: plt_entry_def)
    then show ?thesis
      unfolding L'_def [symmetric] plt_inv_def using fake plt slot_rel_ext [OF i(1) g(1) i(4)] assms(1) f(1,2) g(1-3) c(3)
      by (simp add: plt_inv_def)
  qed
qed

lemma allocateAux_same: "s \<notin> S \<Longrightarrow> plt_same S L (allocateAux s L)"
  by (auto simp: plt_same_def link_defs)

lemma flags_same: "plt_same S L (L\<lparr>lk_syms := (lk_syms L)(s := (lk_syms L s)\<lparr>sy_flags := v\<rparr>)\<rparr>)"
  by (auto simp: plt_same_def customreloc_type_def)

lemma addIpltEntry_same:
  assumes "s \<notin> S" "\<not> cf_android_pack C"
  shows "plt_same S L (addIpltEntry C s L)"
  using assms by (auto simp: addIpltEntry_def Let_def plt_same_def link_defs)

lemma sym_same: "s \<notin> S \<Longrightarrow> plt_same S L (L\<lparr>lk_syms := (lk_syms L)(s := y)\<rparr>)"
  by (auto simp: plt_same_def)

lemma upd_aux_same: "s \<notin> S \<Longrightarrow> plt_same S L (upd_aux s g L)"
  by (auto simp: plt_same_def link_defs)

lemma ifunc_same:
  assumes "handleNonPreemptibleIfunc C s flags L = (fin, L')" "\<not> cf_android_pack C" "s \<notin> S" "lk_next L \<notin> S"
  shows "plt_same S L L' \<and> (\<not> fin \<longrightarrow> L' = L)"
proof (cases "fin \<and> has_flag flags (NEEDS_GOT OR NEEDS_PLT OR HAS_DIRECT_RELOC)")
  case False
  then show ?thesis using assms(1) by (auto simp: handleNonPreemptibleIfunc_def Let_def split: if_splits)
next
  case True
  define y where "y = (lk_syms L s)\<lparr>sy_in_iplt := True\<rparr>"
  define L1 where "L1 = L\<lparr>lk_syms := (lk_syms L)(s := y, lk_next L := y), lk_next := lk_next L + 1\<rparr>"
  define L2 where "L2 = addIpltEntry C (lk_next L) (allocateAux (lk_next L) L1)"
  define L3 where "L3 = upd_aux s (\<lambda>a. a\<lparr>a_plt := a_plt (lk_aux L2 (lk_next L))\<rparr>) (allocateAux s L2)"
  have "plt_same S L L1" using assms(3,4) by (auto simp: L1_def plt_same_def)
  also have "plt_same S L1 L2"
    unfolding L2_def using assms(2,4) by (blast intro: plt_same_trans allocateAux_same addIpltEntry_same)
  also have "plt_same S L2 L3" unfolding L3_def using assms(3) by (blast intro: plt_same_trans allocateAux_same upd_aux_same)
  also have "plt_same S L3 L'"
    using assms(1,3) True unfolding handleNonPreemptibleIfunc_def Let_def y_def [symmetric] L1_def [symmetric] L2_def [symmetric]
      L3_def [symmetric]
    by (auto split: if_splits intro: plt_same_trans [OF _ plt_same_addGotEntry] sym_same)
  finally show ?thesis using True by simp
qed

text \<open>What processing the symbol \<open>s\<close> leaves of the other symbols.\<close>

definition others :: "symid \<Rightarrow> link \<Rightarrow> link \<Rightarrow> bool" where
  "others s L L' \<longleftrightarrow> set (lk_plt L') \<union> set (lk_fakeplt L') \<subseteq> insert s (set (lk_plt L) \<union> set (lk_fakeplt L)) \<and>
     lk_next L \<le> lk_next L' \<and>
     (\<forall>t < lk_next L. t \<noteq> s \<longrightarrow> custom_of L' t = custom_of L t \<and> sy_in_iplt (lk_syms L' t) = sy_in_iplt (lk_syms L t))"

lemma others_trans [trans]:
  assumes "others s L L'" "others s L' L''"
  shows "others s L L''"
proof -
  have "set (lk_plt L'') \<union> set (lk_fakeplt L'') \<subseteq> insert s (set (lk_plt L) \<union> set (lk_fakeplt L))"
    using assms unfolding others_def by blast
  moreover have "lk_next L \<le> lk_next L'" "lk_next L' \<le> lk_next L''" using assms by (simp_all add: others_def)
  ultimately show ?thesis using assms unfolding others_def by auto
qed

lemma others_refl [simp]: "others s L L"
  by (auto simp: others_def)

lemma plt_same_others: "plt_same S L L' \<Longrightarrow> {..<lk_next L} - {s} \<subseteq> S \<Longrightarrow> others s L L'"
  by (auto simp: others_def plt_same_def)

lemma plt_same_mono: "plt_same S L L' \<Longrightarrow> S' \<subseteq> S \<Longrightarrow> plt_same S' L L'"
  by (auto simp: plt_same_def)

lemma add_others: "others s L (addFakePltEntry s L)" "others s L (addPltEntry s L)"
  by (auto simp: others_def addFakePltEntry_def addPltEntry_def Let_def link_defs)

lemma add_syms [simp]: "lk_syms (addFakePltEntry s L) = lk_syms L" "lk_syms (addPltEntry s L) = lk_syms L"
  "set (lk_plt (addFakePltEntry s L)) = set (lk_plt L)"
  by (simp_all add: addFakePltEntry_def addPltEntry_def Let_def link_defs)

lemma scanEntries_inv:
  assumes "plt_inv n L" "s \<notin> set (lk_plt L) \<union> set (lk_fakeplt L)" "\<not> sy_in_iplt (lk_syms L s)"
    and "custom_of L s AND 1 \<noteq> 0 \<Longrightarrow> custom_of L s = 1" "8 * (n + 4) < 2 ^ 32"
  shows "plt_inv (n + 2) (scanEntries C s flags tmp L) \<and> others s L (scanEntries C s flags tmp L)"
proof -
  define L1 where "L1 = (if has_flag flags NEEDS_GOT then addGotEntry C s L else L)"
  define L2 where "L2 = (if custom_of L1 s AND 1 \<noteq> 0 then addFakePltEntry s L1 else L1)"
  define L3 where "L3 = scanEntries C s flags tmp L"
  have L3: "L3 = (if has_flag flags NEEDS_PLT \<and> \<not> tmp \<and> \<not> starts_with ''placeholder'' (sy_name (lk_syms L2 s)) then addPltEntry s L2 else L2)"
    by (simp add: L3_def scanEntries_def Let_def L1_def L2_def)
  have u: "plt_same UNIV L L1" by (simp add: L1_def plt_same_addGotEntry)
  have f1: "lk_plt L1 = lk_plt L" "lk_fakeplt L1 = lk_fakeplt L" "custom_of L1 s = custom_of L s"
    "sy_in_iplt (lk_syms L1 s) = sy_in_iplt (lk_syms L s)" using u by (simp_all add: plt_same_def)
  have i1: "plt_inv n L1" by (rule plt_inv_same [OF plt_same_mono [OF u] assms(1)]) simp
  have i2: "plt_inv (n + 1) L2"
    using addFakePltEntry_inv [OF i1, of s] plt_inv_mono [OF i1, of "n + 1"] f1 assms(2-5) unfolding L2_def by simp
  have f2: "lk_syms L2 = lk_syms L1" "s \<notin> set (lk_plt L2)" "custom_of L2 s AND 1 = 0 \<Longrightarrow> lk_fakeplt L2 = lk_fakeplt L1"
    using f1 assms(2) by (auto simp: L2_def)
  have "plt_inv (n + 1 + 1) L3"
    using addPltEntry_inv [OF i2, of s] plt_inv_mono [OF i2, of "n + 1 + 1"] f1 f2 assms(2,3,5) unfolding L3 by simp
  moreover have "others s L L1" using plt_same_others [OF u] by simp
  moreover have "others s L1 L2" "others s L2 L3" unfolding L2_def L3 by (simp_all add: add_others)
  ultimately show ?thesis unfolding L3_def [symmetric] by (auto intro: others_trans)
qed

definition copy_frame :: "link_cfg \<Rightarrow> bool" where
  "copy_frame C \<longleftrightarrow> (\<forall>s L. plt_same UNIV L (cf_add_copy_rel C s L))"

lemma postScanSymbol_inv:
  assumes "plt_inv n L" "s \<notin> set (lk_plt L) \<union> set (lk_fakeplt L)" "\<not> sy_in_iplt (lk_syms L s)"
    and "custom_of L s AND 1 \<noteq> 0 \<Longrightarrow> custom_of L s = 1" "8 * (n + 4) < 2 ^ 32"
    and "\<not> cf_android_pack C" "copy_frame C" "s < lk_next L" "set (lk_plt L) \<union> set (lk_fakeplt L) \<subseteq> {..<lk_next L}"
  shows "plt_inv (n + 2) (postScanSymbol C s L) \<and> others s L (postScanSymbol C s L)"
proof -
  define S where "S = {..<lk_next L} - {s}"
  have S: "set (lk_plt L) \<union> set (lk_fakeplt L) \<subseteq> S" "s \<notin> S" "lk_next L \<notin> S" using assms(2,9) by (auto simp: S_def)
  obtain fin L1 where 1: "handleNonPreemptibleIfunc C s (sy_flags (lk_syms L s)) L = (fin, L1)" by fastforce
  note same = ifunc_same [OF 1 assms(6) S(2,3)]
  show ?thesis
  proof (cases fin)
    case True
    then have "postScanSymbol C s L = L1" by (simp add: postScanSymbol_def 1)
    then show ?thesis
      using same plt_inv_mono [OF plt_inv_same [OF plt_same_mono [OF _ S(1)] assms(1)]] plt_same_others [of S L L1 s] by (simp add: S_def)
  next
    case False
    then have [simp]: "L1 = L" using same by simp
    define tmp where "tmp = (custom_of L s = 1 \<and> \<not> has_flag (sy_flags (lk_syms L s)) NEEDS_PLT)"
    define flags where "flags = (if tmp then sy_flags (lk_syms L s) OR NEEDS_PLT else sy_flags (lk_syms L s))"
    define L2 where "L2 = (if tmp then L\<lparr>lk_syms := (lk_syms L)(s := (lk_syms L s)\<lparr>sy_flags := sy_flags (lk_syms L s) OR NEEDS_PLT\<rparr>)\<rparr> else L)"
    define L3 where "L3 = allocateAux s L2"
    define L4 where "L4 = scanEntries C s flags tmp L3"
    define L5 where "L5 = (if has_flag flags NEEDS_COPY
      then if sy_object (lk_syms L4 s) then cf_add_copy_rel C s L4 else canonicalPlt s L4 else L4)"
    define L6 where "L6 = (if sy_tls (lk_syms L5 s) then scanTls C s flags L5 else L5)"
    have run: "postScanSymbol C s L = (if \<not> needsDynReloc (lk_syms L2 s) \<and> custom_of L2 s < 2 then L2 else L6)"
      unfolding postScanSymbol_def 1 Let_def prod.case using False
      by (simp only: if_False \<open>L1 = L\<close> tmp_def [symmetric] flags_def [symmetric] L2_def [symmetric] L3_def [symmetric]
          L4_def [symmetric] L5_def [symmetric] L6_def [symmetric])
    have u2: "plt_same UNIV L L2" unfolding L2_def using flags_same by simp
    have u3: "plt_same S L2 L3" unfolding L3_def by (rule allocateAux_same [OF S(2)])
    have u6: "plt_same UNIV L4 L6"
    proof (rule plt_same_trans)
      show "plt_same UNIV L4 L5" unfolding L5_def using assms(7) by (simp add: copy_frame_def plt_same_canonical)
      show "plt_same UNIV L5 L6" unfolding L6_def by (simp add: plt_same_scanTls)
    qed
    have s3: "plt_same S L L3" using plt_same_trans [OF plt_same_mono [OF u2] u3] by simp
    have i3: "plt_inv n L3" by (rule plt_inv_same [OF plt_same_mono [OF s3 S(1)] assms(1)])
    have f3: "lk_plt L3 = lk_plt L" "lk_fakeplt L3 = lk_fakeplt L" "custom_of L3 s = custom_of L s" "sy_in_iplt (lk_syms L3 s) = sy_in_iplt (lk_syms L s)"
      using s3 u2 by (simp_all add: plt_same_def L3_def link_defs)
    have i4: "plt_inv (n + 2) L4" "others s L3 L4"
      using scanEntries_inv [OF i3, of s C flags tmp] f3 assms(2-5) by (simp_all add: L4_def)
    have "plt_inv (n + 2) L6" by (rule plt_inv_same [OF plt_same_mono [OF u6] i4(1)]) simp
    moreover have "plt_inv (n + 2) L2" by (rule plt_inv_mono [OF plt_inv_same [OF plt_same_mono [OF u2] assms(1)]]) simp_all
    moreover have "others s L L2" using plt_same_others [OF u2] by simp
    moreover have "others s L L6"
      using plt_same_others [OF s3, of s] i4(2) plt_same_others [OF u6, of s] by (auto simp: S_def intro: others_trans)
    ultimately show ?thesis by (simp add: run)
  qed
qed

lemma fold_postScan_inv:
  assumes "plt_inv n L" "distinct syms" "set syms \<inter> (set (lk_plt L) \<union> set (lk_fakeplt L)) = {}"
    and "\<forall>s \<in> set syms. s < lk_next L \<and> \<not> sy_in_iplt (lk_syms L s) \<and> (custom_of L s AND 1 \<noteq> 0 \<longrightarrow> custom_of L s = 1)"
    and "8 * (n + 2 * length syms + 4) < 2 ^ 32" "\<not> cf_android_pack C" "copy_frame C"
    and "set (lk_plt L) \<union> set (lk_fakeplt L) \<subseteq> {..<lk_next L}"
  shows "plt_inv (n + 2 * length syms) (fold (postScanSymbol C) syms L)"
  using assms
proof (induction syms arbitrary: n L)
  case (Cons s syms)
  define L1 where "L1 = postScanSymbol C s L"
  have 1: "plt_inv (n + 2) L1" "others s L L1"
    using postScanSymbol_inv [OF Cons.prems(1), of s C] Cons.prems by (auto simp: L1_def)
  have sub: "set (lk_plt L1) \<union> set (lk_fakeplt L1) \<subseteq> insert s (set (lk_plt L) \<union> set (lk_fakeplt L))" and nx: "lk_next L \<le> lk_next L1"
    using 1(2) by (simp_all add: others_def)
  have "s \<notin> set syms" "set syms \<inter> (set (lk_plt L) \<union> set (lk_fakeplt L)) = {}" using Cons.prems(2,3) by auto
  then have "set syms \<inter> (set (lk_plt L1) \<union> set (lk_fakeplt L1)) = {}" using sub by blast
  moreover have "insert s (set (lk_plt L) \<union> set (lk_fakeplt L)) \<subseteq> {..<lk_next L1}" using Cons.prems(4,8) nx by fastforce
  then have "set (lk_plt L1) \<union> set (lk_fakeplt L1) \<subseteq> {..<lk_next L1}" using sub by blast
  moreover have "\<forall>t \<in> set syms. t < lk_next L1 \<and> \<not> sy_in_iplt (lk_syms L1 t) \<and> (custom_of L1 t AND 1 \<noteq> 0 \<longrightarrow> custom_of L1 t = 1)"
    using 1(2) Cons.prems(2,4) unfolding others_def by auto
  ultimately have "plt_inv (n + 2 + 2 * length syms) (fold (postScanSymbol C) syms L1)"
    using 1(1) Cons.prems by (intro Cons.IH) auto
  then show ?case by (simp add: L1_def)
qed simp

definition empty_plt :: "link \<Rightarrow> bool" where
  "empty_plt L \<longleftrightarrow> lk_plt L = [] \<and> lk_fakeplt L = [] \<and> lk_gotplt L = [] \<and> lk_relaplt L = [] \<and> lk_bothplts L = 0"

lemma postScan_inv:
  assumes "empty_plt L" "distinct syms"
    and "\<forall>s \<in> set syms. s < lk_next L \<and> \<not> sy_in_iplt (lk_syms L s) \<and> (custom_of L s AND 1 \<noteq> 0 \<longrightarrow> custom_of L s = 1)"
    and "8 * (2 * length syms + 4) < 2 ^ 32" "\<not> cf_android_pack C" "copy_frame C"
  shows "plt_inv (2 * length syms) (postScanRelocations C syms L)"
proof -
  obtain added L1 where 1: "(if cf_needs_tls_ld C then got_addTlsIndex L else (False, L)) = (added, L1)" by fastforce
  have u1: "plt_same UNIV L L1" using 1 by (auto simp: got_addTlsIndex_def plt_same_def split: if_splits)
  obtain L2 where run: "postScanRelocations C syms L = fold (postScanSymbol C) syms L2" and u2: "plt_same UNIV L1 L2"
    unfolding postScanRelocations_def 1 Let_def prod.case by (blast intro: plt_same_if plt_same_after plt_same_refl)
  have u: "plt_same UNIV L L2" by (rule plt_same_trans [OF u1 u2])
  have e: "empty_plt L2" using u assms(1) by (simp add: empty_plt_def plt_same_def)
  then have "plt_inv 0 L2" by (simp add: empty_plt_def plt_inv_def all_at_def)
  moreover have "\<forall>s \<in> set syms. s < lk_next L2 \<and> \<not> sy_in_iplt (lk_syms L2 s) \<and> (custom_of L2 s AND 1 \<noteq> 0 \<longrightarrow> custom_of L2 s = 1)"
    using u assms(3) by (force simp: plt_same_def)
  ultimately show ?thesis
    unfolding run using fold_postScan_inv [of 0 L2 syms C] e assms(2,4-6) by (simp add: empty_plt_def)
qed

lemma ucast_entry:
  assumes "32 * i < 2 ^ 32"
  shows "ucast (of_nat i * 32 :: u32) = (of_nat (32 * i) :: u64)"
proof -
  have "of_nat i * 32 = (of_nat (32 * i) :: u32)" by simp
  moreover have "ucast (of_nat (32 * i) :: u32) = (of_nat (32 * i) :: u64)"
    using assms by (simp add: unsigned_of_nat take_bit_nat_eq_self del: of_nat_mult)
  ultimately show ?thesis by metis
qed

lemma inv_slot:
  assumes "plt_inv n L" "32 * (n + 4) < 2 ^ 32" "slot_at L s idx i" "\<not> sy_in_iplt (lk_syms L s)"
    and "idx = (if custom_of L s = 1 then a_fakeplt (lk_aux L s) else a_plt (lk_aux L s))"
  shows "\<exists>k < length (lk_gotplt L). getGotPltVA A L s = la_gotplt A + slot_offset k \<and> lk_gotplt L ! k = s \<and>
    dr_sym (lk_relaplt L ! k) = Some s \<and> dr_offset (lk_relaplt L ! k) = slot_offset k"
proof -
  obtain k where k: "k < length (lk_gotplt L)" "idx - a_both_plts (lk_aux L s) = of_nat k" "lk_gotplt L ! k = s"
    using assms(3) unfolding slot_at_def by blast
  have b: "length (lk_gotplt L) \<le> n" "length (lk_relaplt L) = length (lk_gotplt L)" "all_at (slot_rel L) (lk_relaplt L)"
    using assms(1) by (auto simp: plt_inv_def)
  have "ucast ((of_nat k + 3) * 8 :: u32) = slot_offset k" using k(1) b(1) assms(2) by (intro ucast_slot) simp
  moreover have "getGotPltVA A L s = la_gotplt A + ucast ((of_nat k + 3) * 8 :: u32)"
  proof -
    have "getGotPltOffset L s = ucast ((idx - a_both_plts (lk_aux L s) + 3) * 8 :: u32)"
      using assms(4) by (simp add: getGotPltOffset_def Let_def assms(5))
    then show ?thesis using assms(4) by (simp only: getGotPltVA_def k(2) if_False)
  qed
  moreover have "slot_rel L (lk_relaplt L ! k) k" using b(2,3) k(1) by (simp add: all_at_def)
  ultimately show ?thesis using k by (auto simp: slot_rel_def)
qed

lemma inv_entry:
  assumes "plt_inv n L" "32 * (n + 4) < 2 ^ 32" "i < length (lk_fakeplt L) \<or> i < length (lk_plt L)"
  shows "ucast (of_nat i * 32 :: u32) = (of_nat (32 * i) :: u64)"
  using assms by (intro ucast_entry) (auto simp: plt_inv_def)

text \<open>
  C14: Every PLT entry jumps through the GOT slot of its own symbol, and lazy binding finds the right
  relocation.  After all symbols are processed, in any order and mix of ordinary, address-taken and
  doubly used functions, the entry of a symbol in \<open>.fakeplt\<close> or \<open>.plt\<close> is where its address
  functions say; the slot the entry reads is the slot of that symbol; and the relocation with the
  index of the slot relocates that slot against that symbol.
\<close>

theorem plt_slots_consistent:
  assumes "empty_plt L" "distinct syms"
    and "\<forall>s \<in> set syms. s < lk_next L \<and> \<not> sy_in_iplt (lk_syms L s) \<and> (custom_of L s AND 1 \<noteq> 0 \<longrightarrow> custom_of L s = 1)"
    and "32 * (2 * length syms + 4) < 2 ^ 32" "\<not> cf_android_pack C" "copy_frame C"
    and L': "L' = postScanRelocations C syms L"
  shows "(\<forall>i < length (lk_fakeplt L'). \<exists>k < length (lk_gotplt L'). let s = lk_fakeplt L' ! i in
      getFakePltVA A L' s = la_fakeplt A + la_fakeplt_header A + of_nat (32 * i) \<and>
      getGotPltVA A L' s = la_gotplt A + slot_offset k \<and> lk_gotplt L' ! k = s \<and>
      dr_sym (lk_relaplt L' ! k) = Some s \<and> dr_offset (lk_relaplt L' ! k) = slot_offset k) \<and>
    (\<forall>i < length (lk_plt L'). custom_of L' (lk_plt L' ! i) AND 1 = 0 \<longrightarrow> (\<exists>k < length (lk_gotplt L'). let s = lk_plt L' ! i in
      getPltVA A L' s = la_plt A + la_plt_header A + of_nat (32 * i) \<and>
      getGotPltVA A L' s = la_gotplt A + slot_offset k \<and> lk_gotplt L' ! k = s \<and>
      dr_sym (lk_relaplt L' ! k) = Some s \<and> dr_offset (lk_relaplt L' ! k) = slot_offset k))"
proof -
  have inv: "plt_inv (2 * length syms) L'" unfolding L' using assms(1-6) by (intro postScan_inv) auto
  note slot = inv_slot [OF inv assms(4)] and ent = inv_entry [OF inv assms(4)]
  have fake: "\<exists>k < length (lk_gotplt L'). let s = lk_fakeplt L' ! i in
      getFakePltVA A L' s = la_fakeplt A + la_fakeplt_header A + of_nat (32 * i) \<and>
      getGotPltVA A L' s = la_gotplt A + slot_offset k \<and> lk_gotplt L' ! k = s \<and>
      dr_sym (lk_relaplt L' ! k) = Some s \<and> dr_offset (lk_relaplt L' ! k) = slot_offset k" if "i < length (lk_fakeplt L')" for i
  proof -
    have e: "fake_entry L' (lk_fakeplt L' ! i) i" using inv that by (simp add: plt_inv_def all_at_def)
    then have "getFakePltVA A L' (lk_fakeplt L' ! i) = la_fakeplt A + la_fakeplt_header A + of_nat (32 * i)"
      using ent [of i] that by (simp add: fake_entry_def slot_at_def getFakePltVA_def del: of_nat_mult)
    then show ?thesis using e slot [of "lk_fakeplt L' ! i" _ i] by (simp add: fake_entry_def Let_def del: of_nat_mult)
  qed
  have plt: "\<exists>k < length (lk_gotplt L'). let s = lk_plt L' ! i in
      getPltVA A L' s = la_plt A + la_plt_header A + of_nat (32 * i) \<and>
      getGotPltVA A L' s = la_gotplt A + slot_offset k \<and> lk_gotplt L' ! k = s \<and>
      dr_sym (lk_relaplt L' ! k) = Some s \<and> dr_offset (lk_relaplt L' ! k) = slot_offset k"
    if "i < length (lk_plt L')" "custom_of L' (lk_plt L' ! i) AND 1 = 0" for i
  proof -
    have e: "plt_entry L' (lk_plt L' ! i) i" using inv that by (simp add: plt_inv_def all_at_def)
    moreover have "custom_of L' (lk_plt L' ! i) \<noteq> 1" using that(2) by auto
    moreover have "getPltVA A L' (lk_plt L' ! i) = la_plt A + la_plt_header A + of_nat (32 * i)"
      using e that ent [of i] by (simp add: plt_entry_def slot_at_def getPltVA_def del: of_nat_mult)
    ultimately show ?thesis using that(2) slot [of "lk_plt L' ! i" _ i] by (simp add: plt_entry_def Let_def del: of_nat_mult)
  qed
  show ?thesis using fake plt by blast
qed

definition demo_symbol :: "string \<Rightarrow> u32 \<Rightarrow> u16 \<Rightarrow> symbol" where
  "demo_symbol nm custom flags = \<lparr>sy_name = nm, sy_iscustomreloc = custom, sy_flags = flags, sy_preemptible = True, sy_defined = False,
     sy_func = True, sy_object = False, sy_tls = False, sy_gnu_ifunc = False, sy_absolute = False, sy_in_iplt = False,
     sy_got_in_igot = False, sy_canonical = None\<rparr>"

definition demo_link :: link where
  "demo_link = \<lparr>lk_syms = (\<lambda>s. if s = 0 then demo_symbol ''puts'' 0 2 else if s = 1 then demo_symbol ''qsort'' 1 3 else demo_symbol ''cmp'' 1 1),
     lk_next = 3, lk_aux = (\<lambda>s. no_aux), lk_plt = [], lk_fakeplt = [], lk_gotplt = [], lk_iplt = [], lk_igotplt = [], lk_bothplts = 0,
     lk_got_n = 0, lk_consts = [], lk_relaplt = [], lk_reladyn = [], lk_relrdyn = [], lk_ormask_offset = 0, lk_andmask_offset = 0,
     lk_tls_index_off = - 1\<rparr>"

definition demo_link_cfg :: link_cfg where
  "demo_link_cfg = \<lparr>cf_pic = True, cf_shared = True, cf_relr = False, cf_ifunc_noplt = False, cf_android_pack = False,
     cf_needs_tls_ld = False, cf_add_copy_rel = (\<lambda>s L. L)\<rparr>"

definition demo_layout :: layout where
  "demo_layout = \<lparr>la_plt = 0x1100, la_plt_header = 16, la_fakeplt = 0x1200, la_fakeplt_header = 0, la_iplt = 0x1300, la_got = 0x3000,
     la_gotplt = 0x3100, la_igotplt = 0x3200\<rparr>"

lemma demo_sections:
  "lk_fakeplt (postScanRelocations demo_link_cfg [0, 1, 2] demo_link) = [1, 2]"
  "lk_plt (postScanRelocations demo_link_cfg [0, 1, 2] demo_link) = [0, 1]"
  by code_simp+

theorem plt_slots_consistent_witness:
  "let L' = postScanRelocations demo_link_cfg [0, 1, 2] demo_link in
    (\<exists>k < length (lk_gotplt L'). getFakePltVA demo_layout L' 2 = 0x1220 \<and> getGotPltVA demo_layout L' 2 = 0x3100 + slot_offset k \<and>
       lk_gotplt L' ! k = 2 \<and> dr_sym (lk_relaplt L' ! k) = Some 2)"
proof -
  define L' where "L' = postScanRelocations demo_link_cfg [0, 1, 2] demo_link"
  have "empty_plt demo_link" "copy_frame demo_link_cfg" "\<not> cf_android_pack demo_link_cfg"
    by (simp_all add: empty_plt_def demo_link_def copy_frame_def demo_link_cfg_def)
  moreover have "\<forall>s \<in> set [0, 1, 2]. s < lk_next demo_link \<and> \<not> sy_in_iplt (lk_syms demo_link s) \<and>
      (custom_of demo_link s AND 1 \<noteq> 0 \<longrightarrow> custom_of demo_link s = 1)"
    by (simp add: demo_link_def demo_symbol_def customreloc_type_def)
  ultimately have "\<forall>i < length (lk_fakeplt L'). \<exists>k < length (lk_gotplt L'). let s = lk_fakeplt L' ! i in
      getFakePltVA demo_layout L' s = la_fakeplt demo_layout + la_fakeplt_header demo_layout + of_nat (32 * i) \<and>
      getGotPltVA demo_layout L' s = la_gotplt demo_layout + slot_offset k \<and> lk_gotplt L' ! k = s \<and>
      dr_sym (lk_relaplt L' ! k) = Some s \<and> dr_offset (lk_relaplt L' ! k) = slot_offset k"
    using plt_slots_consistent [of demo_link "[0, 1, 2]" demo_link_cfg L' demo_layout] by (simp add: L'_def del: of_nat_mult)
  from spec [OF this, of 1] show ?thesis
    unfolding L'_def [symmetric] using demo_sections [folded L'_def] by (auto simp: Let_def demo_layout_def)
qed

text \<open>
  The canonical address of a function is wrong when the output has a \<open>.fakeplt\<close>.  The value
  given to a symbol whose address an executable takes is computed from an index that counts the
  entries of both sections, while the entry of the symbol is found with the index in \<open>.plt\<close> alone:
  the value lies behind the entry by the size of all \<open>.fakeplt\<close> entries.
\<close>

theorem canonical_plt_shifted:
  assumes "custom_of L s AND 1 = 0" "\<not> sy_defined (lk_syms L s)" "\<not> sy_in_iplt (lk_syms L s)"
    and "32 * (length (lk_plt L) + length (lk_fakeplt L) + 1) < 2 ^ 32" "la_plt_header A = 16"
    and "L' = addPltEntry s L"
  shows "\<exists>v. sy_canonical (lk_syms (canonicalPlt s L') s) = Some v \<and>
    la_plt A + v = getPltVA A L' s + of_nat (32 * length (lk_fakeplt L))"
proof -
  have f: "a_non_fake_plt (lk_aux L' s) = of_nat (length (lk_plt L))" "lk_syms L' = lk_syms L"
    "a_plt (lk_aux L' s) = of_nat (length (lk_plt L) + length (lk_fakeplt L))"
    using assms(1) by (simp_all add: assms(6) addPltEntry_def Let_def link_defs)
  let ?v = "ucast (pltHeaderSize + pltEntrySize * a_plt (lk_aux L' s)) :: u64"
  have "16 + 32 * (of_nat (length (lk_plt L) + length (lk_fakeplt L))) = (of_nat (16 + 32 * (length (lk_plt L) + length (lk_fakeplt L))) :: u32)"
    by simp
  then have "?v = of_nat (16 + 32 * (length (lk_plt L) + length (lk_fakeplt L)))"
    using assms(4) unfolding f(3) by (simp add: unsigned_of_nat take_bit_nat_eq_self del: of_nat_mult of_nat_add)
  moreover have "ucast (of_nat (length (lk_plt L)) * 32 :: u32) = (of_nat (32 * length (lk_plt L)) :: u64)"
    using assms(4) by (intro ucast_entry) simp
  ultimately have "la_plt A + ?v = getPltVA A L' s + of_nat (32 * length (lk_fakeplt L))"
    using assms(3,5) f(1,2) by (simp add: getPltVA_def algebra_simps)
  moreover have "sy_canonical (lk_syms (canonicalPlt s L') s) = Some ?v"
    using assms(2) f(2) by (simp add: canonicalPlt_def Let_def)
  ultimately show ?thesis by blast
qed

theorem canonical_plt_shifted_witness:
  "let L = demo_link\<lparr>lk_fakeplt := [1, 2]\<rparr>; L' = addPltEntry 0 L in
    \<exists>v. sy_canonical (lk_syms (canonicalPlt 0 L') 0) = Some v \<and> 0x1100 + v = getPltVA demo_layout L' 0 + 64"
proof -
  let ?L = "demo_link\<lparr>lk_fakeplt := [1, 2]\<rparr>"
  have "custom_of ?L 0 AND 1 = 0" "\<not> sy_defined (lk_syms ?L 0)" "\<not> sy_in_iplt (lk_syms ?L 0)"
    by (simp_all add: demo_link_def demo_symbol_def customreloc_type_def)
  then show ?thesis
    using canonical_plt_shifted [of ?L 0 demo_layout "addPltEntry 0 ?L"] by (simp add: Let_def demo_layout_def demo_link_def)
qed

end
