(* ===== verification/Linker_Code.thy ===== *)
theory Linker_Code
  imports Linker_Plt Loader_Window
begin

text \<open>
  The code the linker writes (\<open>src/llvm-platypus/lld/ELF/Arch/X86_64.cpp\<close>): the headers and entries
  of \<open>.plt\<close> and \<open>.fakeplt\<close> and the initial contents of \<open>.got.plt\<close>, for the plain target, the target
  with indirect branch tracking (\<open>IntelIBT\<close>) and the two retpoline targets, as lists of bytes.  A
  decoder for the instructions that occur and their effect on registers and memory give the bytes
  a meaning.
\<close>

section \<open>Bytes\<close>

text \<open>
  What the writers read: the positions of callback arguments given on the command line, the offsets of
  the two masks in \<open>.got\<close>, the addresses of the sections.
\<close>

record code_ctx =
  cc_callb_get :: "string \<Rightarrow> int list option"
  cc_layout :: layout
  cc_link :: link
  cc_ibtplt :: "u64 option"
  cc_dynamic :: u64

definition write32le :: "nat \<Rightarrow> u64 \<Rightarrow> u8 list \<Rightarrow> u8 list" where
  "write32le off v bs = take off bs @ le32 (ucast v) @ drop (off + 4) bs"

definition callback_reg :: "u8 list" where
  "callback_reg = [0x3d, 0x35, 0x15, 0x0d, 0x05, 0x0d]"

text \<open>
  The prefix and the register byte of the masking instructions; \<open>None\<close> is the abort of the linker, or
  reading before the table for a negative position.
\<close>

definition callback_bytes :: "int list \<Rightarrow> (u8 \<times> u8) option" where
  "callback_bytes arg_pos =
    (case arg_pos of
       [p] \<Rightarrow>
         if p < 0 \<or> p > 5 then None
         else Some (if p < 4 then 0x48 else 0x4c, callback_reg ! nat p)
     | _ \<Rightarrow> None)"

definition ormask_va :: "code_ctx \<Rightarrow> u64" where
  "ormask_va X = lk_ormask_offset (cc_link X) + la_got (cc_layout X)"

definition andmask_va :: "code_ctx \<Rightarrow> u64" where
  "andmask_va X = lk_andmask_offset (cc_link X) + la_got (cc_layout X)"

abbreviation gotplt_va :: "code_ctx \<Rightarrow> symid \<Rightarrow> u64" where
  "gotplt_va X s \<equiv> getGotPltVA (cc_layout X) (cc_link X) s"

abbreviation name_of :: "code_ctx \<Rightarrow> symid \<Rightarrow> string" where
  "name_of X s \<equiv> sy_name (lk_syms (cc_link X) s)"

abbreviation has_fake :: "code_ctx \<Rightarrow> symid \<Rightarrow> bool" where
  "has_fake X s \<equiv> custom_of (cc_link X) s AND 1 \<noteq> 0"

definition writeGotPltHeader :: "code_ctx \<Rightarrow> u64" where
  "writeGotPltHeader X = cc_dynamic X"

definition writeGotPlt :: "code_ctx \<Rightarrow> symid \<Rightarrow> u64" where
  "writeGotPlt X s =
    (let va = (if has_fake X s then getFakePltVA (cc_layout X) (cc_link X) s else getPltVA (cc_layout X) (cc_link X) s)
     in if cc_callb_get X (name_of X s) \<noteq> None then va + 6 + 2 + 2 else va + 6)"

definition reloc_index :: "code_ctx \<Rightarrow> symid \<Rightarrow> u32" where
  "reloc_index X s =
    (let a = lk_aux (cc_link X) s
     in (if has_fake X s then a_fakeplt a else a_plt a) - a_both_plts a)"

definition writePltHeader :: "code_ctx \<Rightarrow> u8 list" where
  "writePltHeader X =
    (let gotPlt = la_gotplt (cc_layout X);
         plt = (case cc_ibtplt X of Some v \<Rightarrow> v | None \<Rightarrow> la_plt (cc_layout X))
     in write32le 8 (gotPlt - plt + 4) (write32le 2 (gotPlt - plt + 2)
          [0xff, 0x35, 0, 0, 0, 0,
           0xff, 0x25, 0, 0, 0, 0,
           0x0f, 0x1f, 0x40, 0x00]))"

definition writePlt :: "code_ctx \<Rightarrow> symid \<Rightarrow> u64 \<Rightarrow> u8 list option" where
  "writePlt X s pltEntryAddr =
    (case cc_callb_get X (name_of X s) of
       Some arg_pos \<Rightarrow>
         (case callback_bytes arg_pos of
            None \<Rightarrow> None
          | Some (init, reg) \<Rightarrow>
              Some (write32le (12 + 7) (la_plt (cc_layout X) - pltEntryAddr - 16 - 7)
                    (write32le (7 + 7) (ucast (reloc_index X s))
                    (write32le (2 + 7) (gotplt_va X s - pltEntryAddr - 6 - 7)
                    (write32le 3 (ormask_va X - pltEntryAddr - 7)
                      [init, 0x0b, reg, 0, 0, 0, 0,
                       0xff, 0x25, 0, 0, 0, 0,
                       0x68, 0, 0, 0, 0,
                       0xe9, 0, 0, 0, 0])))))
     | None \<Rightarrow>
         Some (write32le 12 (la_plt (cc_layout X) - pltEntryAddr - 16)
               (write32le 7 (ucast (reloc_index X s))
               (write32le 2 (gotplt_va X s - pltEntryAddr - 6)
                 [0xff, 0x25, 0, 0, 0, 0,
                  0x68, 0, 0, 0, 0,
                  0xe9, 0, 0, 0, 0]))))"

definition masking_entry :: "code_ctx \<Rightarrow> symid \<Rightarrow> u64 \<Rightarrow> u8 \<times> u8 \<Rightarrow> u8 list" where
  "masking_entry X s pltEntryAddr b =
    (let (init, reg) = b
     in write32le (6 + 7 + 7) (gotplt_va X s - pltEntryAddr - 10 - 7 - 7)
        (write32le (4 + 7 + 3) (andmask_va X - pltEntryAddr - 4 - 7 - 7)
        (write32le (4 + 3) (ormask_va X - pltEntryAddr - 4 - 7)
          [0xf3, 0x0f, 0x1e, 0xfa,
           init, 0x0b, reg, 0, 0, 0, 0,
           init, 0x23, reg, 0, 0, 0, 0,
           0xff, 0x25, 0, 0, 0, 0,
           0x90, 0x90])))"

definition tracked_entry :: "u64 \<Rightarrow> u8 list" where
  "tracked_entry disp =
    write32le 6 disp
      [0xf3, 0x0f, 0x1e, 0xfa,
       0xff, 0x25, 0, 0, 0, 0,
       0x66, 0x0f, 0x1f, 0x44, 0, 0]"

definition writeFakePlt :: "code_ctx \<Rightarrow> symid \<Rightarrow> u64 \<Rightarrow> u8 list option" where
  "writeFakePlt X s pltEntryAddr =
    (case cc_callb_get X (name_of X s) of
       Some arg_pos \<Rightarrow> map_option (masking_entry X s pltEntryAddr) (callback_bytes arg_pos)
     | None \<Rightarrow> Some (tracked_entry (gotplt_va X s - pltEntryAddr - 10)))"

section \<open>The other targets\<close>

text \<open>The section \<open>.plt\<close> with the second half of the entries exists whenever this target is selected.\<close>

definition ibt_writeGotPlt :: "code_ctx \<Rightarrow> symid \<Rightarrow> u64 option" where
  "ibt_writeGotPlt X s =
    (if starts_with ''placeholder'' (name_of X s) then Some (getFakePltVA (cc_layout X) (cc_link X) s)
     else map_option (\<lambda>ibt. ibt + 16 + ucast (a_plt (lk_aux (cc_link X) s) * pltEntrySize)) (cc_ibtplt X))"

definition ibt_writePlt :: "code_ctx \<Rightarrow> symid \<Rightarrow> u64 \<Rightarrow> u8 list option" where
  "ibt_writePlt X s pltEntryAddr =
    (case cc_callb_get X (name_of X s) of
       Some arg_pos \<Rightarrow> map_option (masking_entry X s pltEntryAddr) (callback_bytes arg_pos)
     | None \<Rightarrow>
         Some (tracked_entry (if starts_with ''placeholder'' (name_of X s) then pltEntryAddr
                              else gotplt_va X s - pltEntryAddr - 10)))"

definition ibt_stub :: "nat \<Rightarrow> u8 list" where
  "ibt_stub i =
    write32le 10 (- 16 * of_nat i - 30) (write32le 5 (of_nat i)
      [0xf3, 0x0f, 0x1e, 0xfa,
       0x68, 0, 0, 0, 0,
       0xe9, 0, 0, 0, 0,
       0x66, 0x90])"

definition writeIBTPlt :: "code_ctx \<Rightarrow> nat \<Rightarrow> u8 list" where
  "writeIBTPlt X numEntries = writePltHeader X @ concat (map ibt_stub [0..<numEntries])"

definition retpoline_writeGotPlt :: "code_ctx \<Rightarrow> symid \<Rightarrow> u64" where
  "retpoline_writeGotPlt X s = getPltVA (cc_layout X) (cc_link X) s + 17"

definition retpoline_writePltHeader :: "code_ctx \<Rightarrow> u8 list" where
  "retpoline_writePltHeader X =
    (let gotPlt = la_gotplt (cc_layout X); plt = la_plt (cc_layout X)
     in write32le 9 (gotPlt - plt - 13 + 16) (write32le 2 (gotPlt - plt - 6 + 8)
          [0xff, 0x35, 0, 0, 0, 0,
           0x4c, 0x8b, 0x1d, 0, 0, 0, 0,
           0xe8, 0x0e, 0x00, 0x00, 0x00,
           0xf3, 0x90,
           0x0f, 0xae, 0xe8,
           0xeb, 0xf9,
           0xcc, 0xcc, 0xcc, 0xcc, 0xcc, 0xcc, 0xcc,
           0x4c, 0x89, 0x1c, 0x24,
           0xc3,
           0xcc, 0xcc, 0xcc, 0xcc, 0xcc, 0xcc, 0xcc,
           0xcc, 0xcc, 0xcc, 0xcc]))"

definition retpoline_writePlt :: "code_ctx \<Rightarrow> symid \<Rightarrow> u64 \<Rightarrow> u8 list" where
  "retpoline_writePlt X s pltEntryAddr =
    (let off = pltEntryAddr - la_plt (cc_layout X)
     in write32le 23 (- off - 27)
        (write32le 18 (ucast (a_plt (lk_aux (cc_link X) s)))
        (write32le 13 (- off - 17 + 18)
        (write32le 8 (- off - 12 + 32)
        (write32le 3 (gotplt_va X s - pltEntryAddr - 7)
          [0x4c, 0x8b, 0x1d, 0, 0, 0, 0,
           0xe8, 0, 0, 0, 0,
           0xe9, 0, 0, 0, 0,
           0x68, 0, 0, 0, 0,
           0xe9, 0, 0, 0, 0,
           0xcc, 0xcc, 0xcc, 0xcc, 0xcc])))))"

definition znow_writePltHeader :: "u8 list" where
  "znow_writePltHeader =
    [0xe8, 0x0b, 0x00, 0x00, 0x00,
     0xf3, 0x90,
     0x0f, 0xae, 0xe8,
     0xeb, 0xf9,
     0xcc, 0xcc, 0xcc, 0xcc,
     0x4c, 0x89, 0x1c, 0x24,
     0xc3,
     0xcc, 0xcc, 0xcc, 0xcc, 0xcc,
     0xcc, 0xcc, 0xcc, 0xcc, 0xcc,
     0xcc]"

definition znow_writePlt :: "code_ctx \<Rightarrow> symid \<Rightarrow> u64 \<Rightarrow> u8 list" where
  "znow_writePlt X s pltEntryAddr =
    write32le 8 (la_plt (cc_layout X) - pltEntryAddr - 12)
      (write32le 3 (gotplt_va X s - pltEntryAddr - 7)
        [0x4c, 0x8b, 0x1d, 0, 0, 0, 0,
         0xe9, 0, 0, 0, 0,
         0xcc, 0xcc, 0xcc, 0xcc])"

section \<open>Targets and sections\<close>

datatype target = X86_64 | IntelIBT | Retpoline | RetpolineZNow

definition setX86_64TargetInfo :: "bool \<Rightarrow> bool \<Rightarrow> bool \<Rightarrow> target" where
  "setX86_64TargetInfo zRetpolineplt zNow feature_ibt =
    (if zRetpolineplt then if zNow then RetpolineZNow else Retpoline
     else if feature_ibt then IntelIBT else X86_64)"

fun plt_header_size :: "target \<Rightarrow> nat" where
  "plt_header_size X86_64 = 16"
| "plt_header_size IntelIBT = 0"
| "plt_header_size Retpoline = 48"
| "plt_header_size RetpolineZNow = 32"

fun plt_entry_size :: "target \<Rightarrow> nat" where
  "plt_entry_size RetpolineZNow = 16"
| "plt_entry_size _ = 32"

fun target_writePlt :: "target \<Rightarrow> code_ctx \<Rightarrow> symid \<Rightarrow> u64 \<Rightarrow> u8 list option" where
  "target_writePlt X86_64 X s a = writePlt X s a"
| "target_writePlt IntelIBT X s a = ibt_writePlt X s a"
| "target_writePlt Retpoline X s a = Some (retpoline_writePlt X s a)"
| "target_writePlt RetpolineZNow X s a = Some (znow_writePlt X s a)"

fun target_writePltHeader :: "target \<Rightarrow> code_ctx \<Rightarrow> u8 list" where
  "target_writePltHeader Retpoline X = retpoline_writePltHeader X"
| "target_writePltHeader RetpolineZNow X = znow_writePltHeader"
| "target_writePltHeader _ X = writePltHeader X"

text \<open>The copy of bytes into the section buffer; writing past its end is not defined.\<close>

definition put_bytes :: "nat \<Rightarrow> u8 list \<Rightarrow> u8 list \<Rightarrow> u8 list option" where
  "put_bytes off bs buf =
    (if off + length bs \<le> length buf then Some (take off buf @ bs @ drop (off + length bs) buf) else None)"

primrec write_entries :: "(symid \<Rightarrow> u64 \<Rightarrow> u8 list option) \<Rightarrow> nat \<Rightarrow> u64 \<Rightarrow> nat \<Rightarrow> symid list \<Rightarrow> u8 list \<Rightarrow> u8 list option" where
  "write_entries w sz va off [] buf = Some buf"
| "write_entries w sz va off (s # ss) buf =
    (case w s (va + of_nat off) of
       None \<Rightarrow> None
     | Some bs \<Rightarrow> Option.bind (put_bytes off bs buf) (write_entries w sz va (off + sz) ss))"

definition PltSection_writeTo :: "target \<Rightarrow> code_ctx \<Rightarrow> u8 list \<Rightarrow> u8 list option" where
  "PltSection_writeTo T X buf =
    Option.bind (put_bytes 0 (target_writePltHeader T X) buf)
      (write_entries (target_writePlt T X) (plt_entry_size T) (la_plt (cc_layout X)) (plt_header_size T) (lk_plt (cc_link X)))"

definition FakePltSection_writeTo :: "target \<Rightarrow> code_ctx \<Rightarrow> u8 list \<Rightarrow> u8 list option" where
  "FakePltSection_writeTo T X buf =
    write_entries (writeFakePlt X) (plt_entry_size T) (la_fakeplt (cc_layout X)) 0 (lk_fakeplt (cc_link X)) buf"

definition PltSection_getSize :: "target \<Rightarrow> code_ctx \<Rightarrow> nat" where
  "PltSection_getSize T X = plt_header_size T + length (lk_plt (cc_link X)) * plt_entry_size T"

definition FakePltSection_getSize :: "target \<Rightarrow> code_ctx \<Rightarrow> nat" where
  "FakePltSection_getSize T X = length (lk_fakeplt (cc_link X)) * plt_entry_size T"

section \<open>A processor for the code\<close>

text \<open>
  The instructions that occur in the entries.  Registers are numbered as in the encoding; 4 is the
  stack pointer.  Code and data are separate memories: the entries stand in segments that are never
  writable.
\<close>

datatype instr =
    I_Nop
  | I_Or nat u32
  | I_And nat u32
  | I_Load nat u32
  | I_JmpMem u32
  | I_PushMem u32
  | I_PushImm u32
  | I_Jmp u32
  | I_Call u32
  | I_StoreSp nat
  | I_Ret

record machine =
  x_rip :: u64
  x_reg :: "nat \<Rightarrow> u64"
  x_mem :: mem

definition imm32 :: "(nat \<Rightarrow> u8) \<Rightarrow> nat \<Rightarrow> u32" where
  "imm32 f k = of_le32 [f k, f (k + 1), f (k + 2), f (k + 3)]"

text \<open>The register field of a ModRM byte, extended by the R bit of the prefix.\<close>

definition modrm_reg :: "u8 \<Rightarrow> u8 \<Rightarrow> nat" where
  "modrm_reg rex m = unat (drop_bit 3 m AND 7) + (if rex AND 4 \<noteq> 0 then 8 else 0)"

definition decode :: "(nat \<Rightarrow> u8) \<Rightarrow> (instr \<times> nat) option" where
  "decode f =
    (if f 0 = 0xf3 \<and> f 1 = 0x0f \<and> f 2 = 0x1e \<and> f 3 = 0xfa then Some (I_Nop, 4)
     else if f 0 = 0x90 then Some (I_Nop, 1)
     else if f 0 = 0x68 then Some (I_PushImm (imm32 f 1), 5)
     else if f 0 = 0xe9 then Some (I_Jmp (imm32 f 1), 5)
     else if f 0 = 0xe8 then Some (I_Call (imm32 f 1), 5)
     else if f 0 = 0xc3 then Some (I_Ret, 1)
     else if f 0 = 0xff \<and> f 1 = 0x25 then Some (I_JmpMem (imm32 f 2), 6)
     else if f 0 = 0xff \<and> f 1 = 0x35 then Some (I_PushMem (imm32 f 2), 6)
     else if f 0 = 0x4c \<and> f 1 = 0x89 \<and> f 2 = 0x1c \<and> f 3 = 0x24 then Some (I_StoreSp 11, 4)
     else if f 0 AND 0xfb = 0x48 \<and> f 2 AND 0xc7 = 5
     then
       let r = modrm_reg (f 0) (f 2)
       in if f 1 = 0x0b then Some (I_Or r (imm32 f 3), 7)
          else if f 1 = 0x23 then Some (I_And r (imm32 f 3), 7)
          else if f 1 = 0x8b then Some (I_Load r (imm32 f 3), 7)
          else None
     else None)"

definition push :: "u64 \<Rightarrow> machine \<Rightarrow> machine" where
  "push v M = (let sp = x_reg M 4 - 8 in M\<lparr>x_reg := (x_reg M)(4 := sp), x_mem := store64 sp v (x_mem M)\<rparr>)"

text \<open>The effect of an instruction; \<open>nx\<close> is the address behind it.\<close>

fun exec :: "instr \<Rightarrow> u64 \<Rightarrow> machine \<Rightarrow> machine" where
  "exec I_Nop nx M = M\<lparr>x_rip := nx\<rparr>"
| "exec (I_Or r d) nx M = M\<lparr>x_rip := nx, x_reg := (x_reg M)(r := x_reg M r OR load64 (nx + scast d) (x_mem M))\<rparr>"
| "exec (I_And r d) nx M = M\<lparr>x_rip := nx, x_reg := (x_reg M)(r := x_reg M r AND load64 (nx + scast d) (x_mem M))\<rparr>"
| "exec (I_Load r d) nx M = M\<lparr>x_rip := nx, x_reg := (x_reg M)(r := load64 (nx + scast d) (x_mem M))\<rparr>"
| "exec (I_JmpMem d) nx M = M\<lparr>x_rip := load64 (nx + scast d) (x_mem M)\<rparr>"
| "exec (I_PushMem d) nx M = push (load64 (nx + scast d) (x_mem M)) (M\<lparr>x_rip := nx\<rparr>)"
| "exec (I_PushImm d) nx M = push (scast d) (M\<lparr>x_rip := nx\<rparr>)"
| "exec (I_Jmp d) nx M = M\<lparr>x_rip := nx + scast d\<rparr>"
| "exec (I_Call d) nx M = push nx (M\<lparr>x_rip := nx + scast d\<rparr>)"
| "exec (I_StoreSp r) nx M = M\<lparr>x_rip := nx, x_mem := store64 (x_reg M 4) (x_reg M r) (x_mem M)\<rparr>"
| "exec I_Ret nx M = M\<lparr>x_rip := load64 (x_reg M 4) (x_mem M), x_reg := (x_reg M)(4 := x_reg M 4 + 8)\<rparr>"

definition step :: "(u64 \<Rightarrow> u8) \<Rightarrow> machine \<Rightarrow> machine option" where
  "step code M =
    (case decode (\<lambda>i. code (x_rip M + of_nat i)) of
       None \<Rightarrow> None
     | Some (i, n) \<Rightarrow> Some (exec i (x_rip M + of_nat n) M))"

primrec steps :: "(u64 \<Rightarrow> u8) \<Rightarrow> nat \<Rightarrow> machine \<Rightarrow> machine option" where
  "steps code 0 M = Some M"
| "steps code (Suc n) M = Option.bind (step code M) (steps code n)"

primrec code_at :: "(u64 \<Rightarrow> u8) \<Rightarrow> u64 \<Rightarrow> u8 list \<Rightarrow> bool" where
  "code_at code a [] \<longleftrightarrow> True"
| "code_at code a (b # bs) \<longleftrightarrow> code a = b \<and> code_at code (a + 1) bs"

text \<open>A displacement that fits the instruction: sign extension of its low half gives it back.\<close>

definition fits32 :: "u64 \<Rightarrow> bool" where
  "fits32 d \<longleftrightarrow> scast (ucast d :: u32) = d"

definition arg_reg :: "int \<Rightarrow> nat" where
  "arg_reg p = [7, 6, 2, 1, 8, 9] ! nat p"

section \<open>Execution of straight-line code\<close>

named_theorems code_defs

lemmas code_bytes [code_defs] = write32le_def le32_def

lemma imm32_le32 [simp]:
  "of_le32 [ucast w, ucast (drop_bit 8 w), ucast (drop_bit 16 w), ucast (drop_bit 24 w)] = w"
  using of_le32_le32 [of w] by (simp add: le32_def)

lemma ucast_back [simp]: "ucast (ucast (x :: u32) :: u64) = x"
  by (simp add: bit_eq_iff bit_simps)

lemma scast_small:
  assumes "k < 2 ^ 31"
  shows "(scast (of_nat k :: u32) :: u64) = of_nat k"
  using assms by (simp add: scast_eq sint_uint unsigned_of_nat signed_take_bit_int_eq_self take_bit_nat_eq_self of_nat_less_iff)

lemma fits32D: "fits32 d \<Longrightarrow> scast (ucast d :: u32) = d"
  by (simp add: fits32_def)

lemma disp_target: "fits32 (t - b) \<Longrightarrow> b + scast (ucast (t - b) :: u32) = t"
  by (simp add: fits32_def)

lemma callback_table:
  "callback_bytes [0] = Some (0x48, 0x3d)" "callback_bytes [1] = Some (0x48, 0x35)" "callback_bytes [2] = Some (0x48, 0x15)"
  "callback_bytes [3] = Some (0x48, 0x0d)" "callback_bytes [4] = Some (0x4c, 0x05)" "callback_bytes [5] = Some (0x4c, 0x0d)"
  by code_simp+

lemma arg_reg_table:
  "arg_reg 0 = modrm_reg 0x48 0x3d" "arg_reg 1 = modrm_reg 0x48 0x35" "arg_reg 2 = modrm_reg 0x48 0x15"
  "arg_reg 3 = modrm_reg 0x48 0x0d" "arg_reg 4 = modrm_reg 0x4c 0x05" "arg_reg 5 = modrm_reg 0x4c 0x0d"
  by code_simp+

lemma callback_bytes_Some:
  assumes "0 \<le> p" "p \<le> 5"
  obtains init reg where "callback_bytes [p] = Some (init, reg)" "reg AND 0xc7 = 5"
    "modrm_reg init reg = arg_reg p" "init = 0x48 \<or> init = 0x4c" "reg \<noteq> 0x1c"
proof -
  have "p = 0 \<or> p = 1 \<or> p = 2 \<or> p = 3 \<or> p = 4 \<or> p = 5" using assms by arith
  then have "\<exists>init reg. callback_bytes [p] = Some (init, reg) \<and> reg AND 0xc7 = 5 \<and>
      modrm_reg init reg = arg_reg p \<and> (init = 0x48 \<or> init = 0x4c) \<and> reg \<noteq> 0x1c"
    by (elim disjE) (simp_all add: callback_table arg_reg_table)
  then show thesis using that by blast
qed

lemma code_at_append [simp]:
  "code_at code a (xs @ ys) \<longleftrightarrow> code_at code a xs \<and> code_at code (a + of_nat (length xs)) ys"
  by (induction xs arbitrary: a) (auto simp: ac_simps)

lemma code_at_le32: "code_at code a (le32 d) \<Longrightarrow> of_le32 [code a, code (a + 1), code (a + 2), code (a + 3)] = d"
  by (simp add: le32_def add.assoc)

text \<open>One rule per instruction: the bytes at the program counter give the step.\<close>

lemma step_endbr:
  "code_at code a [0xf3, 0x0f, 0x1e, 0xfa] \<Longrightarrow> x_rip M = a \<Longrightarrow> step code M = Some (M\<lparr>x_rip := a + 4\<rparr>)"
  by (simp add: step_def decode_def add.assoc)

lemma step_jmp_mem:
  assumes "code_at code a ([0xff, 0x25] @ le32 (ucast (t - (a + 6))))" "fits32 (t - (a + 6))" "x_rip M = a"
  shows "step code M = Some (M\<lparr>x_rip := load64 t (x_mem M)\<rparr>)"
  using assms code_at_le32 [of code "a + 2" "ucast (t - (a + 6))"] disp_target [of t "a + 6"]
  by (simp add: step_def decode_def imm32_def add.assoc)

lemma step_push_mem:
  assumes "code_at code a ([0xff, 0x35] @ le32 (ucast (t - (a + 6))))" "fits32 (t - (a + 6))" "x_rip M = a"
  shows "step code M = Some (push (load64 t (x_mem M)) (M\<lparr>x_rip := a + 6\<rparr>))"
  using assms code_at_le32 [of code "a + 2" "ucast (t - (a + 6))"] disp_target [of t "a + 6"]
  by (simp add: step_def decode_def imm32_def add.assoc)

lemma step_push_imm:
  assumes "code_at code a ([0x68] @ le32 d)" "x_rip M = a"
  shows "step code M = Some (push (scast d) (M\<lparr>x_rip := a + 5\<rparr>))"
  using assms code_at_le32 [of code "a + 1" d] by (simp add: step_def decode_def imm32_def add.assoc)

lemma step_jmp:
  assumes "code_at code a ([0xe9] @ le32 (ucast (t - (a + 5))))" "fits32 (t - (a + 5))" "x_rip M = a"
  shows "step code M = Some (M\<lparr>x_rip := t\<rparr>)"
  using assms code_at_le32 [of code "a + 1" "ucast (t - (a + 5))"] disp_target [of t "a + 5"]
  by (simp add: step_def decode_def imm32_def add.assoc)

lemma step_call:
  assumes "code_at code a ([0xe8] @ le32 (ucast (t - (a + 5))))" "fits32 (t - (a + 5))" "x_rip M = a"
  shows "step code M = Some (push (a + 5) (M\<lparr>x_rip := t\<rparr>))"
  using assms code_at_le32 [of code "a + 1" "ucast (t - (a + 5))"] disp_target [of t "a + 5"]
  by (simp add: step_def decode_def imm32_def add.assoc)

lemma step_load:
  assumes "code_at code a ([0x4c, 0x8b, 0x1d] @ le32 (ucast (t - (a + 7))))" "fits32 (t - (a + 7))" "x_rip M = a"
  shows "step code M = Some (M\<lparr>x_rip := a + 7, x_reg := (x_reg M)(11 := load64 t (x_mem M))\<rparr>)"
  using assms code_at_le32 [of code "a + 3" "ucast (t - (a + 7))"] disp_target [of t "a + 7"]
  by (simp add: step_def decode_def imm32_def add.assoc modrm_reg_def)

lemma step_store_sp:
  "code_at code a [0x4c, 0x89, 0x1c, 0x24] \<Longrightarrow> x_rip M = a \<Longrightarrow>
    step code M = Some (M\<lparr>x_rip := a + 4, x_mem := store64 (x_reg M 4) (x_reg M 11) (x_mem M)\<rparr>)"
  by (simp add: step_def decode_def add.assoc)

lemma step_ret:
  "code_at code a [0xc3] \<Longrightarrow> x_rip M = a \<Longrightarrow>
    step code M = Some (M\<lparr>x_rip := load64 (x_reg M 4) (x_mem M), x_reg := (x_reg M)(4 := x_reg M 4 + 8)\<rparr>)"
  by (simp add: step_def decode_def)

lemma step_or:
  assumes "code_at code a ([init, 0x0b, reg] @ le32 (ucast (t - (a + 7))))" "fits32 (t - (a + 7))" "x_rip M = a"
    and "init = 0x48 \<or> init = 0x4c" "reg AND 0xc7 = 5" "modrm_reg init reg = r"
  shows "step code M = Some (M\<lparr>x_rip := a + 7, x_reg := (x_reg M)(r := x_reg M r OR load64 t (x_mem M))\<rparr>)"
  using assms code_at_le32 [of code "a + 3" "ucast (t - (a + 7))"] disp_target [of t "a + 7"]
  by (elim disjE) (simp_all add: step_def decode_def imm32_def add.assoc)

lemma step_and:
  assumes "code_at code a ([init, 0x23, reg] @ le32 (ucast (t - (a + 7))))" "fits32 (t - (a + 7))" "x_rip M = a"
    and "init = 0x48 \<or> init = 0x4c" "reg AND 0xc7 = 5" "modrm_reg init reg = r"
  shows "step code M = Some (M\<lparr>x_rip := a + 7, x_reg := (x_reg M)(r := x_reg M r AND load64 t (x_mem M))\<rparr>)"
  using assms code_at_le32 [of code "a + 3" "ucast (t - (a + 7))"] disp_target [of t "a + 7"]
  by (elim disjE) (simp_all add: step_def decode_def imm32_def add.assoc)

section \<open>The entries as instruction sequences\<close>

lemma masking_entry_code:
  "masking_entry X s a (init, reg) =
    [0xf3, 0x0f, 0x1e, 0xfa] @
    ([init, 0x0b, reg] @ le32 (ucast (ormask_va X - (a + 11)))) @
    ([init, 0x23, reg] @ le32 (ucast (andmask_va X - (a + 18)))) @
    ([0xff, 0x25] @ le32 (ucast (gotplt_va X s - (a + 24)))) @ [0x90, 0x90]"
  by (simp add: masking_entry_def code_defs diff_diff_eq add.commute)

lemma tracked_entry_code:
  "tracked_entry d = [0xf3, 0x0f, 0x1e, 0xfa] @ ([0xff, 0x25] @ le32 (ucast d)) @ [0x66, 0x0f, 0x1f, 0x44, 0, 0]"
  by (simp add: tracked_entry_def code_defs)

lemma writePlt_code:
  assumes "cc_callb_get X (name_of X s) = None"
  shows "writePlt X s a = Some (([0xff, 0x25] @ le32 (ucast (gotplt_va X s - (a + 6)))) @
    ([0x68] @ le32 (reloc_index X s)) @ ([0xe9] @ le32 (ucast (la_plt (cc_layout X) - (a + 16)))))"
  using assms by (simp add: writePlt_def code_defs diff_diff_eq add.commute)

lemma writePlt_callback_code:
  assumes "cc_callb_get X (name_of X s) = Some ps" "callback_bytes ps = Some (init, reg)"
  shows "writePlt X s a = Some (([init, 0x0b, reg] @ le32 (ucast (ormask_va X - (a + 7)))) @
    ([0xff, 0x25] @ le32 (ucast (gotplt_va X s - (a + 13)))) @
    ([0x68] @ le32 (reloc_index X s)) @ ([0xe9] @ le32 (ucast (la_plt (cc_layout X) - (a + 23)))))"
  using assms by (simp add: writePlt_def code_defs diff_diff_eq add.commute)

lemma writePltHeader_code:
  assumes "cc_ibtplt X = None"
  shows "writePltHeader X = ([0xff, 0x35] @ le32 (ucast (la_gotplt (cc_layout X) + 8 - (la_plt (cc_layout X) + 6)))) @
    ([0xff, 0x25] @ le32 (ucast (la_gotplt (cc_layout X) + 16 - (la_plt (cc_layout X) + 12)))) @ [0x0f, 0x1f, 0x40, 0x00]"
  using assms by (simp add: writePltHeader_def Let_def code_defs algebra_simps)

section \<open>What the entries do\<close>

lemma steps_numeral [simp]: "steps code (numeral k) M = Option.bind (step code M) (steps code (pred_numeral k))"
  by (simp add: numeral_eq_Suc)

lemma masking_entry_steps:
  assumes code: "code_at code a (masking_entry X s a (init, reg))" and i: "init = 0x48 \<or> init = 0x4c" "reg AND 0xc7 = 5" "modrm_reg init reg = r"
    and fits: "fits32 (ormask_va X - (a + 11))" "fits32 (andmask_va X - (a + 18))" "fits32 (gotplt_va X s - (a + 24))" and rip: "x_rip M = a"
  shows "steps code 4 M = Some (M\<lparr>x_rip := load64 (gotplt_va X s) (x_mem M),
    x_reg := (x_reg M)(r := mask_target (load64 (ormask_va X) (x_mem M)) (load64 (andmask_va X) (x_mem M)) (x_reg M r))\<rparr>)"
proof -
  let ?om = "load64 (ormask_va X) (x_mem M)" and ?am = "load64 (andmask_va X) (x_mem M)"
  define M1 where "M1 = M\<lparr>x_rip := a + 4\<rparr>"
  define M2 where "M2 = M1\<lparr>x_rip := a + 11, x_reg := (x_reg M)(r := x_reg M r OR ?om)\<rparr>"
  define M3 where "M3 = M2\<lparr>x_rip := a + 18, x_reg := (x_reg M)(r := (x_reg M r OR ?om) AND ?am)\<rparr>"
  have c: "code_at code a [0xf3, 0x0f, 0x1e, 0xfa]"
    "code_at code (a + 4) ([init, 0x0b, reg] @ le32 (ucast (ormask_va X - (a + 11))))"
    "code_at code (a + 11) ([init, 0x23, reg] @ le32 (ucast (andmask_va X - (a + 18))))"
    "code_at code (a + 18) ([0xff, 0x25] @ le32 (ucast (gotplt_va X s - (a + 24))))"
    using code unfolding masking_entry_code by (simp_all add: add.assoc)
  have "step code M = Some M1" unfolding M1_def by (rule step_endbr [OF c(1) rip])
  moreover have "step code M1 = Some M2"
    using step_or [of code "a + 4" init reg "ormask_va X" M1 r] c(2) fits(1) i by (simp add: M1_def M2_def add.assoc)
  moreover have "step code M2 = Some M3"
    using step_and [of code "a + 11" init reg "andmask_va X" M2 r] c(3) fits(2) i by (simp add: M1_def M2_def M3_def add.assoc)
  moreover have "step code M3 = Some (M3\<lparr>x_rip := load64 (gotplt_va X s) (x_mem M)\<rparr>)"
    using step_jmp_mem [of code "a + 18" "gotplt_va X s" M3] c(4) fits(3) by (simp add: M1_def M2_def M3_def add.assoc)
  ultimately show ?thesis by (simp add: M1_def M2_def M3_def mask_target_def)
qed

lemma callback_entry_steps:
  assumes "cc_callb_get X (name_of X s) = Some [p]" "0 \<le> p" "p \<le> 5" "writeFakePlt X s a = Some bs" "code_at code a bs" "x_rip M = a"
    and "fits32 (ormask_va X - (a + 11))" "fits32 (andmask_va X - (a + 18))" "fits32 (gotplt_va X s - (a + 24))"
  shows "steps code 4 M = Some (M\<lparr>x_rip := load64 (gotplt_va X s) (x_mem M),
    x_reg := (x_reg M)(arg_reg p :=
      mask_target (load64 (ormask_va X) (x_mem M)) (load64 (andmask_va X) (x_mem M)) (x_reg M (arg_reg p)))\<rparr>)"
proof -
  obtain init reg where b: "callback_bytes [p] = Some (init, reg)" "reg AND 0xc7 = 5" "modrm_reg init reg = arg_reg p" "init = 0x48 \<or> init = 0x4c"
    using callback_bytes_Some [OF assms(2,3)] by metis
  then have "bs = masking_entry X s a (init, reg)" using assms(1,4) by (auto simp: writeFakePlt_def)
  then show ?thesis using masking_entry_steps [OF _ b(4,2,3) assms(7-9,6)] assms(5) by simp
qed

text \<open>Two words of memory that do not overlap.\<close>

definition apart :: "u64 \<Rightarrow> u64 \<Rightarrow> bool" where
  "apart a b \<longleftrightarrow> 8 \<le> unat (a - b) \<and> 8 \<le> unat (b - a)"

lemma load64_apart: "apart a b \<Longrightarrow> load64 b (store64 a v m) = load64 b m"
  by (rule load64_store64_other) (auto simp: apart_def)

text \<open>
  The ordinary entry: through the slot when it is resolved, otherwise through the header to the
  resolver in the third word of \<open>.got.plt\<close>.
\<close>

lemma plt_entry_jumps:
  assumes "cc_callb_get X (name_of X s) = None" "writePlt X s a = Some bs" "code_at code a bs" "x_rip M = a" "fits32 (gotplt_va X s - (a + 6))"
  shows "step code M = Some (M\<lparr>x_rip := load64 (gotplt_va X s) (x_mem M)\<rparr>)"
  using step_jmp_mem [of code a "gotplt_va X s" M] assms writePlt_code [OF assms(1), of a] by auto

definition lazy_ok :: "code_ctx \<Rightarrow> symid \<Rightarrow> u64 \<Rightarrow> u64 \<Rightarrow> bool" where
  "lazy_ok X s a sp \<longleftrightarrow>
    fits32 (gotplt_va X s - (a + 6)) \<and> fits32 (la_plt (cc_layout X) - (a + 16)) \<and>
    fits32 (la_gotplt (cc_layout X) + 8 - (la_plt (cc_layout X) + 6)) \<and>
    fits32 (la_gotplt (cc_layout X) + 16 - (la_plt (cc_layout X) + 12)) \<and>
    apart (sp - 8) (la_gotplt (cc_layout X) + 8) \<and> apart (sp - 8) (la_gotplt (cc_layout X) + 16) \<and>
    apart (sp - 16) (la_gotplt (cc_layout X) + 16)"

lemma lazy_steps:
  assumes cb: "cc_callb_get X (name_of X s) = None" and bs: "writePlt X s a = Some bs" "code_at code a bs"
    and hd: "cc_ibtplt X = None" "code_at code (la_plt (cc_layout X)) (writePltHeader X)"
    and rip: "x_rip M = a" and slot: "load64 (gotplt_va X s) (x_mem M) = a + 6" and ok: "lazy_ok X s a (x_reg M 4)"
  shows "steps code 5 M = Some (let G = la_gotplt (cc_layout X) in M\<lparr>
    x_rip := load64 (G + 16) (x_mem M), x_reg := (x_reg M)(4 := x_reg M 4 - 16),
    x_mem := store64 (x_reg M 4 - 16) (load64 (G + 8) (x_mem M))
               (store64 (x_reg M 4 - 8) (scast (reloc_index X s)) (x_mem M))\<rparr>)"
proof -
  let ?G = "la_gotplt (cc_layout X)" and ?P = "la_plt (cc_layout X)" and ?sp = "x_reg M 4"
  define M1 where "M1 = M\<lparr>x_rip := a + 6\<rparr>"
  define M2 where "M2 = M1\<lparr>x_rip := a + 11, x_reg := (x_reg M)(4 := ?sp - 8), x_mem := store64 (?sp - 8) (scast (reloc_index X s)) (x_mem M)\<rparr>"
  define M3 where "M3 = M2\<lparr>x_rip := ?P\<rparr>"
  define M4 where "M4 = M3\<lparr>x_rip := ?P + 6, x_reg := (x_reg M)(4 := ?sp - 16), x_mem := store64 (?sp - 16) (load64 (?G + 8) (x_mem M)) (x_mem M3)\<rparr>"
  have c: "code_at code (a + 6) ([0x68] @ le32 (reloc_index X s))" "code_at code (a + 11) ([0xe9] @ le32 (ucast (?P - (a + 16))))"
    using bs writePlt_code [OF cb, of a] by (auto simp add: add.assoc)
  have h: "code_at code ?P ([0xff, 0x35] @ le32 (ucast (?G + 8 - (?P + 6))))" "code_at code (?P + 6) ([0xff, 0x25] @ le32 (ucast (?G + 16 - (?P + 12))))"
    using hd(2) unfolding writePltHeader_code [OF hd(1)] by (simp_all add: add.assoc)
  note ok = ok [unfolded lazy_ok_def]
  have "step code M = Some M1" using plt_entry_jumps [OF cb bs rip] slot ok by (simp add: M1_def)
  moreover have "step code M1 = Some M2"
    using step_push_imm [OF c(1), of M1] by (simp add: M1_def M2_def push_def Let_def add.assoc)
  moreover have "step code M2 = Some M3"
    using step_jmp [of code "a + 11" ?P M2] c(2) ok by (simp add: M2_def M3_def add.assoc)
  moreover have "step code M3 = Some M4"
    using step_push_mem [of code ?P "?G + 8" M3] h(1) ok load64_apart [of "?sp - 8" "?G + 8"]
    by (simp add: M1_def M2_def M3_def M4_def push_def Let_def diff_diff_eq)
  moreover have "step code M4 = Some (M4\<lparr>x_rip := load64 (?G + 16) (x_mem M)\<rparr>)"
    using step_jmp_mem [of code "?P + 6" "?G + 16" M4] h(2) ok load64_apart [of "?sp - 8" "?G + 16"] load64_apart [of "?sp - 16" "?G + 16"]
    by (simp add: M1_def M2_def M3_def M4_def add.assoc)
  ultimately show ?thesis by (simp add: M1_def M2_def M3_def M4_def Let_def)
qed

lemma reloc_of_entry:
  assumes inv: "plt_inv n L" "32 * (n + 4) < 2 ^ 32" and i: "i < length (lk_plt L)" "lk_plt L ! i = s" "custom_of L s AND 1 = 0"
    and X: "cc_link X = L"
  shows "\<exists>k < length (lk_relaplt L). (scast (reloc_index X s) :: u64) = of_nat k \<and>
    dr_sym (lk_relaplt L ! k) = Some s \<and> dr_offset (lk_relaplt L ! k) = slot_offset k"
proof -
  have "plt_entry L s i" using inv(1) i by (auto simp: plt_inv_def all_at_def)
  then obtain k where k: "k < length (lk_gotplt L)" "a_plt (lk_aux L s) - a_both_plts (lk_aux L s) = of_nat k" "lk_gotplt L ! k = s"
    using i(3) unfolding plt_entry_def slot_at_def by blast
  have b: "length (lk_gotplt L) \<le> n" "length (lk_relaplt L) = length (lk_gotplt L)" "all_at (slot_rel L) (lk_relaplt L)"
    using inv(1) by (auto simp: plt_inv_def)
  have "k < 2 ^ 31" using k(1) b(1) inv(2) by simp
  then have "(scast (of_nat k :: u32) :: u64) = of_nat k" by (rule scast_small)
  moreover have "reloc_index X s = of_nat k" using k(2) i(3) X by (simp add: reloc_index_def Let_def)
  ultimately show ?thesis using b k by (auto simp: all_at_def slot_rel_def)
qed

text \<open>
  The ordinary entry of a function that receives a callback only sets the bits of the prefix.  The
  bytes written for it or the argument with the first mask and jump: the register holds the bits of
  the argument and of the first mask, and the second mask is never applied.
\<close>

theorem callback_plt_entry_only_ors:
  assumes "cc_callb_get X (name_of X s) = Some [p]" "0 \<le> p" "p \<le> 5"
    and "writePlt X s a = Some bs" "code_at code a bs" "x_rip M = a"
    and "fits32 (ormask_va X - (a + 7))" "fits32 (gotplt_va X s - (a + 13))"
  shows "steps code 2 M = Some (M\<lparr>x_rip := load64 (gotplt_va X s) (x_mem M),
    x_reg := (x_reg M)(arg_reg p := x_reg M (arg_reg p) OR load64 (ormask_va X) (x_mem M))\<rparr>)"
proof -
  obtain init reg where b: "callback_bytes [p] = Some (init, reg)" "reg AND 0xc7 = 5" "modrm_reg init reg = arg_reg p" "init = 0x48 \<or> init = 0x4c"
    using callback_bytes_Some [OF assms(2,3)] by metis
  define M1 where "M1 = M\<lparr>x_rip := a + 7, x_reg := (x_reg M)(arg_reg p := x_reg M (arg_reg p) OR load64 (ormask_va X) (x_mem M))\<rparr>"
  have c: "code_at code a ([init, 0x0b, reg] @ le32 (ucast (ormask_va X - (a + 7))))"
    "code_at code (a + 7) ([0xff, 0x25] @ le32 (ucast (gotplt_va X s - (a + 13))))"
    using assms(4,5) writePlt_callback_code [OF assms(1) b(1), of a] by (auto simp: add.assoc)
  have "step code M = Some M1" unfolding M1_def by (rule step_or [OF c(1) assms(7,6) b(4,2,3)])
  moreover have "step code M1 = Some (M1\<lparr>x_rip := load64 (gotplt_va X s) (x_mem M)\<rparr>)"
    using step_jmp_mem [of code "a + 7" "gotplt_va X s" M1] c(2) assms(8) by (simp add: M1_def add.assoc)
  ultimately show ?thesis by (simp add: M1_def)
qed

text \<open>
  The slot of a function with a \<open>.fakeplt\<close> entry starts with an address inside an instruction.
  The value the linker gives the slot is six bytes into the entry (ten for a function that receives a
  callback), but an instruction begins at byte four and reaches behind that address: unless the loader
  resolves the slot before the first call, control continues in the middle of a displacement.
\<close>

theorem fake_slot_inside_instruction:
  assumes "has_fake X s" "a = getFakePltVA (cc_layout X) (cc_link X) s" "writeFakePlt X s a = Some bs" "code_at code a bs"
  shows "\<exists>i n. decode (\<lambda>j. code (a + 4 + of_nat j)) = Some (i, n) \<and> 4 < unat (writeGotPlt X s - a) \<and> unat (writeGotPlt X s - a) < 4 + n"
proof (cases "cc_callb_get X (name_of X s)")
  case None
  have "code (a + 4) = 0xff" "code (a + 5) = 0x25"
    using assms(3,4) None by (auto simp: writeFakePlt_def tracked_entry_code add.assoc)
  then show ?thesis using None assms(1,2) by (simp add: decode_def add.assoc writeGotPlt_def)
next
  case (Some ps)
  obtain init reg where b: "callback_bytes ps = Some (init, reg)" "bs = masking_entry X s a (init, reg)"
    using assms(3) Some by (auto simp: writeFakePlt_def)
  then obtain p where p: "ps = [p]" "0 \<le> p" "p \<le> 5" by (auto simp: callback_bytes_def split: list.splits if_splits)
  have r: "reg AND 0xc7 = 5" "init = 0x48 \<or> init = 0x4c" using callback_bytes_Some [OF p(2,3)] b(1) p(1) by (metis option.inject prod.inject)+
  have "code (a + 4) = init" "code (a + 5) = 0x0b" "code (a + 6) = reg"
    using assms(4) unfolding b(2) masking_entry_code by (simp_all add: add.assoc)
  then show ?thesis using Some r assms(1,2) by (elim disjE) (simp_all add: decode_def add.assoc writeGotPlt_def)
qed

section \<open>The retpoline entries\<close>

lemma retpoline_header_code:
  "retpoline_writePltHeader X = take 32 (retpoline_writePltHeader X) @ [0x4c, 0x89, 0x1c, 0x24] @ [0xc3] @ drop 37 (retpoline_writePltHeader X)"
  "length (take 32 (retpoline_writePltHeader X)) = 32"
  by (simp_all add: retpoline_writePltHeader_def Let_def code_defs)

lemma retpoline_entry_code:
  "retpoline_writePlt X s a = ([0x4c, 0x8b, 0x1d] @ le32 (ucast (gotplt_va X s - (a + 7)))) @
    ([0xe8] @ le32 (ucast (la_plt (cc_layout X) + 32 - (a + 12)))) @
    ([0xe9] @ le32 (ucast (la_plt (cc_layout X) + 18 - (a + 17)))) @
    ([0x68] @ le32 (a_plt (lk_aux (cc_link X) s))) @
    ([0xe9] @ le32 (ucast (la_plt (cc_layout X) - (a + 27)))) @ [0xcc, 0xcc, 0xcc, 0xcc, 0xcc]"
  by (simp add: retpoline_writePlt_def Let_def code_defs algebra_simps)

lemma znow_entry_code:
  "znow_writePlt X s a = ([0x4c, 0x8b, 0x1d] @ le32 (ucast (gotplt_va X s - (a + 7)))) @
    ([0xe9] @ le32 (ucast (la_plt (cc_layout X) - (a + 12)))) @ [0xcc, 0xcc, 0xcc, 0xcc]"
  by (simp add: znow_writePlt_def code_defs algebra_simps)

lemma znow_header_code:
  "znow_writePltHeader = ([0xe8] @ le32 0x0b) @ [0xf3, 0x90, 0x0f, 0xae, 0xe8, 0xeb, 0xf9, 0xcc, 0xcc, 0xcc, 0xcc] @
    [0x4c, 0x89, 0x1c, 0x24] @ [0xc3] @ replicate 11 0xcc"
  by code_simp

text \<open>The thunk in both headers: the return address is replaced by the target.\<close>

lemma thunk_steps:
  assumes "code_at code t [0x4c, 0x89, 0x1c, 0x24]" "code_at code (t + 4) [0xc3]" "x_rip M = t"
  shows "steps code 2 M = Some (M\<lparr>x_rip := x_reg M 11, x_reg := (x_reg M)(4 := x_reg M 4 + 8),
    x_mem := store64 (x_reg M 4) (x_reg M 11) (x_mem M)\<rparr>)"
  using step_store_sp [OF assms(1,3)]
    step_ret [of code "t + 4" "M\<lparr>x_rip := t + 4, x_mem := store64 (x_reg M 4) (x_reg M 11) (x_mem M)\<rparr>"] assms(2)
  by simp

definition retpoline_result :: "u64 \<Rightarrow> u64 \<Rightarrow> machine \<Rightarrow> machine" where
  "retpoline_result ret target M = M\<lparr>x_rip := target, x_reg := (x_reg M)(11 := target),
    x_mem := store64 (x_reg M 4 - 8) target (store64 (x_reg M 4 - 8) ret (x_mem M))\<rparr>"

lemma retpoline_steps:
  assumes e: "code_at code a (retpoline_writePlt X s a)" and h: "code_at code (la_plt (cc_layout X)) (retpoline_writePltHeader X)"
    and rip: "x_rip M = a" and fits: "fits32 (gotplt_va X s - (a + 7))" "fits32 (la_plt (cc_layout X) + 32 - (a + 12))"
  shows "steps code 4 M = Some (retpoline_result (a + 12) (load64 (gotplt_va X s) (x_mem M)) M)"
proof -
  let ?v = "load64 (gotplt_va X s) (x_mem M)" and ?P = "la_plt (cc_layout X)"
  define M1 where "M1 = M\<lparr>x_rip := a + 7, x_reg := (x_reg M)(11 := ?v)\<rparr>"
  define M2 where "M2 = push (a + 12) (M1\<lparr>x_rip := ?P + 32\<rparr>)"
  have c: "code_at code a ([0x4c, 0x8b, 0x1d] @ le32 (ucast (gotplt_va X s - (a + 7))))"
    "code_at code (a + 7) ([0xe8] @ le32 (ucast (?P + 32 - (a + 12))))"
    using e unfolding retpoline_entry_code by (simp_all add: add.assoc)
  have t: "code_at code (?P + 32) [0x4c, 0x89, 0x1c, 0x24]" "code_at code (?P + 32 + 4) [0xc3]"
    using h unfolding arg_cong [OF retpoline_header_code(1), of "code_at code ?P"] code_at_append retpoline_header_code(2)
    by simp_all
  have "step code M = Some M1" unfolding M1_def by (rule step_load [OF c(1) fits(1) rip])
  moreover have "step code M1 = Some M2"
    using step_call [of code "a + 7" "?P + 32" M1] c(2) fits(2) by (simp add: M1_def M2_def add.assoc)
  moreover have "steps code 2 M2 = Some (retpoline_result (a + 12) ?v M)"
    using thunk_steps [OF t, of M2] by (simp add: M2_def M1_def push_def Let_def retpoline_result_def fun_upd_twist)
  ultimately show ?thesis by simp
qed

lemma znow_steps:
  assumes e: "code_at code a (znow_writePlt X s a)" and h: "code_at code (la_plt (cc_layout X)) znow_writePltHeader"
    and rip: "x_rip M = a" and fits: "fits32 (gotplt_va X s - (a + 7))" "fits32 (la_plt (cc_layout X) - (a + 12))"
  shows "steps code 5 M = Some (retpoline_result (la_plt (cc_layout X) + 5) (load64 (gotplt_va X s) (x_mem M)) M)"
proof -
  let ?v = "load64 (gotplt_va X s) (x_mem M)" and ?P = "la_plt (cc_layout X)"
  define M1 where "M1 = M\<lparr>x_rip := a + 7, x_reg := (x_reg M)(11 := ?v)\<rparr>"
  define M2 where "M2 = M1\<lparr>x_rip := ?P\<rparr>"
  define M3 where "M3 = push (?P + 5) (M2\<lparr>x_rip := ?P + 16\<rparr>)"
  have c: "code_at code a ([0x4c, 0x8b, 0x1d] @ le32 (ucast (gotplt_va X s - (a + 7))))"
    "code_at code (a + 7) ([0xe9] @ le32 (ucast (?P - (a + 12))))"
    using e unfolding znow_entry_code by (simp_all add: add.assoc)
  have t: "code_at code ?P ([0xe8] @ le32 0x0b)" "code_at code (?P + 16) [0x4c, 0x89, 0x1c, 0x24]" "code_at code (?P + 16 + 4) [0xc3]"
    using h unfolding znow_header_code by (simp_all add: add.assoc)
  have "step code M = Some M1" unfolding M1_def by (rule step_load [OF c(1) fits(1) rip])
  moreover have "step code M1 = Some M2"
    using step_jmp [of code "a + 7" ?P M1] c(2) fits(2) by (simp add: M1_def M2_def add.assoc)
  moreover have "step code M2 = Some M3"
    using step_call [of code ?P "?P + 16" M2] t(1) by (simp add: M1_def M2_def M3_def fits32_def)
  moreover have "steps code 2 M3 = Some (retpoline_result (?P + 5) ?v M)"
    using thunk_steps [OF t(2,3), of M3] by (simp add: M3_def M2_def M1_def push_def Let_def retpoline_result_def fun_upd_twist)
  ultimately show ?thesis by simp
qed

section \<open>Entries in their sections\<close>

lemma code_at_part:
  assumes "code_at code a out" "take (length bs) (drop n out) = bs" "n \<le> length out"
  shows "code_at code (a + of_nat n) bs"
proof -
  have "out = take n out @ bs @ drop (length bs) (drop n out)"
    using assms(2) append_take_drop_id [of n out] append_take_drop_id [of "length bs" "drop n out"] by simp
  then have "code_at code a (take n out @ bs @ drop (length bs) (drop n out))" using assms(1) by simp
  then show ?thesis using assms(3) by (simp add: min_absorb2)
qed

lemma put_bytesD:
  assumes "put_bytes off bs buf = Some out"
  shows "length out = length buf" "take off out = take off buf" "take (length bs) (drop off out) = bs" "off + length bs \<le> length buf"
  using assms by (auto simp: put_bytes_def min_def split: if_splits)

lemma write_entries_frame:
  "write_entries w sz va off ss buf = Some out \<Longrightarrow> length out = length buf \<and> (\<forall>n \<le> off. take n out = take n buf)"
proof (induction ss arbitrary: off buf)
  case (Cons s ss)
  then obtain bs buf' where b: "put_bytes off bs buf = Some buf'" "write_entries w sz va (off + sz) ss buf' = Some out"
    by (auto split: option.splits simp: Option.bind_eq_Some_conv)
  have "take n buf' = take n buf" if "n \<le> off" for n
    using put_bytesD(2) [OF b(1)] that by (metis min.absorb1 take_take)
  then show ?case using Cons.IH [OF b(2)] put_bytesD(1) [OF b(1)] by auto
qed simp

lemma write_entries_at:
  assumes "write_entries w sz va off ss buf = Some out" "\<forall>s a bs. w s a = Some bs \<longrightarrow> length bs \<le> sz" "i < length ss"
  shows "\<exists>bs. w (ss ! i) (va + of_nat (off + i * sz)) = Some bs \<and> take (length bs) (drop (off + i * sz) out) = bs \<and>
    off + i * sz + length bs \<le> length buf"
  using assms
proof (induction ss arbitrary: off buf i)
  case (Cons s ss)
  then obtain bs buf' where b: "w s (va + of_nat off) = Some bs" "put_bytes off bs buf = Some buf'"
      "write_entries w sz va (off + sz) ss buf' = Some out"
    by (auto split: option.splits simp: Option.bind_eq_Some_conv)
  note p = put_bytesD [OF b(2)]
  show ?case
  proof (cases i)
    case 0
    have l: "length bs \<le> sz" using Cons.prems(2) b(1) by blast
    then have "take (off + length bs) out = take (off + length bs) buf'"
      using write_entries_frame [OF b(3)] by simp
    then have "take (length bs) (drop off out) = bs" using p(3) by (metis take_drop add.commute)
    then show ?thesis using 0 b(1) p(4) by simp
  next
    case (Suc j)
    then have "j < length ss" using Cons.prems(3) by simp
    from Cons.IH [OF b(3) Cons.prems(2) this] show ?thesis using Suc p(1) by (simp add: add.assoc)
  qed
qed simp

lemma write_entries_total:
  assumes "\<forall>s \<in> set ss. \<forall>a. \<exists>bs. w s a = Some bs \<and> length bs \<le> sz" "off + length ss * sz \<le> length buf"
  shows "\<exists>out. write_entries w sz va off ss buf = Some out"
  using assms
proof (induction ss arbitrary: off buf)
  case (Cons s ss)
  obtain bs where bs: "w s (va + of_nat off) = Some bs" "length bs \<le> sz" using Cons.prems(1) by (meson list.set_intros(1))
  then have "off + length bs \<le> length buf" using Cons.prems(2) by simp
  then obtain buf' where b: "put_bytes off bs buf = Some buf'" by (simp add: put_bytes_def)
  have "off + sz + length ss * sz \<le> length buf'" using Cons.prems(2) put_bytesD(1) [OF b] by (simp add: add.assoc)
  then show ?case using Cons.IH [of "off + sz" buf'] Cons.prems(1) bs(1) b by simp
qed simp

lemma length_masking_entry: "length (masking_entry X s a b) = 26"
  by (cases b) (simp add: masking_entry_code)

lemma length_tracked_entry: "length (tracked_entry d) = 16"
  by (simp add: tracked_entry_code)

lemma length_writePlt: "writePlt X s a = Some bs \<Longrightarrow> length bs \<le> 32"
  by (cases "cc_callb_get X (name_of X s)")
    (auto simp: writePlt_code writePlt_def code_defs split: option.splits)

lemma length_fake_entry: "writeFakePlt X s a = Some bs \<Longrightarrow> length bs \<le> 32"
  by (auto simp: writeFakePlt_def length_masking_entry length_tracked_entry split: option.splits)

lemma length_target_entry: "target_writePlt T X s a = Some bs \<Longrightarrow> length bs \<le> plt_entry_size T"
  by (cases T)
    (auto simp: length_writePlt ibt_writePlt_def length_masking_entry length_tracked_entry retpoline_entry_code znow_entry_code split: option.splits)

lemma plt_section_entry:
  assumes "PltSection_writeTo T X buf = Some out" "i < length (lk_plt (cc_link X))" "code_at code (la_plt (cc_layout X)) out"
    and a: "a = la_plt (cc_layout X) + of_nat (plt_header_size T + i * plt_entry_size T)"
  shows "\<exists>bs. target_writePlt T X (lk_plt (cc_link X) ! i) a = Some bs \<and> code_at code a bs"
proof -
  obtain buf' where b: "put_bytes 0 (target_writePltHeader T X) buf = Some buf'"
    "write_entries (target_writePlt T X) (plt_entry_size T) (la_plt (cc_layout X)) (plt_header_size T) (lk_plt (cc_link X)) buf' = Some out"
    using assms(1) by (auto simp: PltSection_writeTo_def Option.bind_eq_Some_conv)
  then obtain bs where bs: "target_writePlt T X (lk_plt (cc_link X) ! i) a = Some bs"
    "take (length bs) (drop (plt_header_size T + i * plt_entry_size T) out) = bs" "plt_header_size T + i * plt_entry_size T + length bs \<le> length buf'"
    using write_entries_at [OF b(2) _ assms(2)] length_target_entry unfolding a by blast
  have "length out = length buf'" using write_entries_frame [OF b(2)] by simp
  then have "code_at code a bs" unfolding a using bs(3) by (intro code_at_part [OF assms(3) bs(2)]) simp
  then show ?thesis using bs(1) by blast
qed

lemma length_target_header: "length (target_writePltHeader T X) = (if T = IntelIBT then 16 else plt_header_size T)"
  by (cases T) (simp_all add: writePltHeader_def retpoline_writePltHeader_def znow_writePltHeader_def Let_def code_defs)

lemma plt_section_header:
  assumes "PltSection_writeTo T X buf = Some out" "code_at code (la_plt (cc_layout X)) out" "T \<noteq> IntelIBT"
  shows "code_at code (la_plt (cc_layout X)) (target_writePltHeader T X)"
proof -
  obtain buf' where b: "put_bytes 0 (target_writePltHeader T X) buf = Some buf'"
    "write_entries (target_writePlt T X) (plt_entry_size T) (la_plt (cc_layout X)) (plt_header_size T) (lk_plt (cc_link X)) buf' = Some out"
    using assms(1) by (auto simp: PltSection_writeTo_def Option.bind_eq_Some_conv)
  have "length (target_writePltHeader T X) = plt_header_size T" using assms(3) by (simp add: length_target_header)
  then have "take (length (target_writePltHeader T X)) (drop 0 out) = target_writePltHeader T X"
    using put_bytesD(3) [OF b(1)] write_entries_frame [OF b(2)] by simp
  from code_at_part [OF assms(2) this] show ?thesis by simp
qed

lemma fake_section_entry:
  assumes "FakePltSection_writeTo T X buf = Some out" "i < length (lk_fakeplt (cc_link X))" "code_at code (la_fakeplt (cc_layout X)) out"
    and "T \<noteq> RetpolineZNow" and a: "a = la_fakeplt (cc_layout X) + of_nat (32 * i)"
  shows "\<exists>bs. writeFakePlt X (lk_fakeplt (cc_link X) ! i) a = Some bs \<and> code_at code a bs"
proof -
  have sz: "plt_entry_size T = 32" using assms(4) by (cases T) auto
  note w = assms(1) [unfolded FakePltSection_writeTo_def sz]
  obtain bs where bs: "writeFakePlt X (lk_fakeplt (cc_link X) ! i) a = Some bs"
    "take (length bs) (drop (32 * i) out) = bs" "32 * i + length bs \<le> length buf"
    using write_entries_at [OF w _ assms(2)] length_fake_entry unfolding a by (auto simp: mult.commute)
  have "code_at code a bs" unfolding a
    using bs(3) write_entries_frame [OF w] by (intro code_at_part [OF assms(3) bs(2)]) simp
  then show ?thesis using bs(1) by blast
qed

text \<open>
  C8: The \<open>.fakeplt\<close> entry of a function that receives a callback masks that callback.  When the bytes
  of the written section are executed from the entry of the function, the argument register of the
  position given on the command line gets the masked pointer, every other register and the memory
  are unchanged, and control is at the address in the GOT slot of the function.
\<close>

theorem callback_entry_masks:
  assumes "FakePltSection_writeTo T X buf = Some out" "T \<noteq> RetpolineZNow" "code_at code (la_fakeplt (cc_layout X)) out"
    and "i < length (lk_fakeplt (cc_link X))" "s = lk_fakeplt (cc_link X) ! i" "a = la_fakeplt (cc_layout X) + of_nat (32 * i)"
    and "cc_callb_get X (name_of X s) = Some [p]" "0 \<le> p" "p \<le> 5" "x_rip M = a"
    and "fits32 (ormask_va X - (a + 11))" "fits32 (andmask_va X - (a + 18))" "fits32 (gotplt_va X s - (a + 24))"
  shows "steps code 4 M = Some (M\<lparr>x_rip := load64 (gotplt_va X s) (x_mem M),
    x_reg := (x_reg M)(arg_reg p :=
      mask_target (load64 (ormask_va X) (x_mem M)) (load64 (andmask_va X) (x_mem M)) (x_reg M (arg_reg p)))\<rparr>)"
proof -
  obtain bs where "writeFakePlt X s a = Some bs" "code_at code a bs"
    using fake_section_entry [OF assms(1,4,3,2,6)] assms(5) by blast
  then show ?thesis using callback_entry_steps [OF assms(7-9)] assms(10-13) by blast
qed


definition entry_fits :: "target \<Rightarrow> code_ctx \<Rightarrow> symid \<Rightarrow> u64 \<Rightarrow> bool" where
  "entry_fits T X s a \<longleftrightarrow> (case T of
     X86_64 \<Rightarrow> fits32 (gotplt_va X s - (a + 6))
   | IntelIBT \<Rightarrow> fits32 (gotplt_va X s - (a + 10)) \<and> \<not> starts_with ''placeholder'' (name_of X s)
   | Retpoline \<Rightarrow> fits32 (gotplt_va X s - (a + 7)) \<and> fits32 (la_plt (cc_layout X) + 32 - (a + 12))
   | RetpolineZNow \<Rightarrow> fits32 (gotplt_va X s - (a + 7)) \<and> fits32 (la_plt (cc_layout X) - (a + 12)))"

definition callb_ok :: "code_ctx \<Rightarrow> symid list \<Rightarrow> bool" where
  "callb_ok X ss \<longleftrightarrow> list_all (\<lambda>s. case cc_callb_get X (name_of X s) of None \<Rightarrow> True | Some ps \<Rightarrow> callback_bytes ps \<noteq> None) ss"

lemma target_writePlt_total:
  assumes "callb_ok X ss" "s \<in> set ss"
  shows "\<exists>bs. target_writePlt T X s a = Some bs"
proof -
  have "cc_callb_get X (name_of X s) = None \<or> (\<exists>ps b. cc_callb_get X (name_of X s) = Some ps \<and> callback_bytes ps = Some b)"
    using assms by (auto simp: callb_ok_def list_all_iff split: option.splits)
  then show ?thesis by (cases T) (auto simp: writePlt_def ibt_writePlt_def)
qed

lemma tracked_steps:
  assumes "code_at code a (tracked_entry (t - (a + 10)))" "x_rip M = a" "fits32 (t - (a + 10))"
  shows "steps code 2 M = Some (M\<lparr>x_rip := load64 t (x_mem M)\<rparr>)"
proof -
  have c: "code_at code a [0xf3, 0x0f, 0x1e, 0xfa]" "code_at code (a + 4) ([0xff, 0x25] @ le32 (ucast (t - (a + 10))))"
    using assms(1) unfolding tracked_entry_code by (simp_all add: add.assoc)
  show ?thesis
    using step_endbr [OF c(1) assms(2)] step_jmp_mem [of code "a + 4" t "M\<lparr>x_rip := a + 4\<rparr>"] c(2) assms(3) by (simp add: add.assoc)
qed

lemma plt_section_total:
  assumes "length buf = PltSection_getSize T X" "callb_ok X (lk_plt (cc_link X))" "lk_plt (cc_link X) \<noteq> []"
  shows "\<exists>out. PltSection_writeTo T X buf = Some out"
proof -
  have "1 \<le> length (lk_plt (cc_link X))" using assms(3) by (cases "lk_plt (cc_link X)") auto
  then have "length (target_writePltHeader T X) \<le> length buf"
    unfolding assms(1) PltSection_getSize_def length_target_header by (cases T) auto
  then obtain buf' where b: "put_bytes 0 (target_writePltHeader T X) buf = Some buf'" by (simp add: put_bytes_def)
  have "\<exists>out. write_entries (target_writePlt T X) (plt_entry_size T) (la_plt (cc_layout X)) (plt_header_size T) (lk_plt (cc_link X)) buf' = Some out"
    using target_writePlt_total [OF assms(2)] length_target_entry put_bytesD(1) [OF b] assms(1)
    by (intro write_entries_total) (blast, simp add: PltSection_getSize_def)
  then show ?thesis using b by (auto simp: PltSection_writeTo_def)
qed

lemma plt_section_length: "PltSection_writeTo T X buf = Some out \<Longrightarrow> length out = length buf"
  by (auto simp: PltSection_writeTo_def Option.bind_eq_Some_conv dest!: write_entries_frame put_bytesD(1))

lemma writeFakePlt_total: "callb_ok X ss \<Longrightarrow> s \<in> set ss \<Longrightarrow> \<exists>bs. writeFakePlt X s a = Some bs"
  by (auto simp: callb_ok_def list_all_iff writeFakePlt_def split: option.splits)

lemma fake_section_total:
  assumes "length buf = 32 * length (lk_fakeplt (cc_link X))" "callb_ok X (lk_fakeplt (cc_link X))" "T \<noteq> RetpolineZNow"
  shows "\<exists>out. FakePltSection_writeTo T X buf = Some out \<and> length out = length buf"
proof -
  have "\<exists>out. write_entries (writeFakePlt X) 32 (la_fakeplt (cc_layout X)) 0 (lk_fakeplt (cc_link X)) buf = Some out"
    using writeFakePlt_total [OF assms(2)] length_fake_entry assms(1) by (intro write_entries_total) (blast, simp)
  moreover have "plt_entry_size T = 32" using assms(3) by (cases T) auto
  ultimately show ?thesis using write_entries_frame by (fastforce simp: FakePltSection_writeTo_def)
qed

definition arrives :: "(u64 \<Rightarrow> u8) \<Rightarrow> machine \<Rightarrow> u64 \<Rightarrow> bool" where
  "arrives code M t \<longleftrightarrow> (\<exists>n M'. steps code n M = Some M' \<and> x_rip M' = t \<and> (\<forall>r. r \<noteq> 11 \<longrightarrow> x_reg M' r = x_reg M r))"

lemma arrivesI: "steps code n M = Some M' \<Longrightarrow> x_rip M' = t \<Longrightarrow> (\<And>r. r \<noteq> 11 \<Longrightarrow> x_reg M' r = x_reg M r) \<Longrightarrow> arrives code M t"
  unfolding arrives_def by blast

lemma plt_entry_arrives:
  assumes bs: "target_writePlt T X s a = Some bs" "code_at code a bs" and cb: "cc_callb_get X (name_of X s) = None"
    and hd: "T \<noteq> IntelIBT \<Longrightarrow> code_at code (la_plt (cc_layout X)) (target_writePltHeader T X)"
    and m: "entry_fits T X s a" "x_rip M = a"
  shows "arrives code M (load64 (gotplt_va X s) (x_mem M))"
proof (cases T)
  case X86_64
  then have "steps code (Suc 0) M = Some (M\<lparr>x_rip := load64 (gotplt_va X s) (x_mem M)\<rparr>)"
    using plt_entry_jumps [OF cb _ bs(2) m(2)] bs(1) m(1) by (simp add: entry_fits_def)
  then show ?thesis by (rule arrivesI) simp_all
next
  case IntelIBT
  then have "steps code 2 M = Some (M\<lparr>x_rip := load64 (gotplt_va X s) (x_mem M)\<rparr>)"
    using bs m cb by (intro tracked_steps) (auto simp: entry_fits_def ibt_writePlt_def diff_diff_eq)
  then show ?thesis by (rule arrivesI) simp_all
next
  case Retpoline
  then have "steps code 4 M = Some (retpoline_result (a + 12) (load64 (gotplt_va X s) (x_mem M)) M)"
    using bs hd m by (intro retpoline_steps) (auto simp: entry_fits_def)
  then show ?thesis by (rule arrivesI) (simp_all add: retpoline_result_def)
next
  case RetpolineZNow
  then have "steps code 5 M = Some (retpoline_result (la_plt (cc_layout X) + 5) (load64 (gotplt_va X s) (x_mem M)) M)"
    using bs hd m by (intro znow_steps) (auto simp: entry_fits_def)
  then show ?thesis by (rule arrivesI) (simp_all add: retpoline_result_def)
qed


section \<open>Stubs for indirect branch tracking\<close>

lemma ucast_of_nat_32: "(ucast (of_nat j :: u64) :: u32) = of_nat j"
  by (rule bit_word_eqI) (simp add: bit_simps)

lemma ibt_stub_code: "ibt_stub j = [0xf3, 0x0f, 0x1e, 0xfa] @ ([0x68] @ le32 (of_nat j)) @ drop 9 (ibt_stub j)"
  by (simp add: ibt_stub_def code_defs ucast_of_nat_32)

lemma length_ibt_stub: "length (ibt_stub j) = 16"
  by (simp add: ibt_stub_def code_defs)

lemma code_at_stubs: "code_at code a (concat (map ibt_stub [0..<n])) \<Longrightarrow> j < n \<Longrightarrow> code_at code (a + of_nat (16 * j)) (ibt_stub j)"
proof (induction n)
  case (Suc n)
  have "length (concat (map ibt_stub [0..<n])) = 16 * n" by (induction n) (simp_all add: length_ibt_stub)
  then show ?case using Suc by (cases "j = n") auto
qed simp

lemma ibt_stub_steps:
  assumes "code_at code a (ibt_stub j)" "j < 2 ^ 31" "x_rip M = a"
  shows "steps code 2 M = Some (push (of_nat j) (M\<lparr>x_rip := a + 9\<rparr>))"
proof -
  have c: "code_at code a [0xf3, 0x0f, 0x1e, 0xfa]" "code_at code (a + 4) ([0x68] @ le32 (of_nat j))"
    using assms(1) by (subst (asm) ibt_stub_code, simp add: add.assoc)+
  show ?thesis
    using step_endbr [OF c(1) assms(3)] step_push_imm [OF c(2), of "M\<lparr>x_rip := a + 4\<rparr>"] scast_small [OF assms(2)]
    by (simp add: add.assoc)
qed

text \<open>
  With indirect branch tracking lazy binding passes on twice the index.  The stubs are sixteen bytes
  long, but the value the linker gives the slot of the function with index k advances by the size of
  an ordinary entry, thirty-two bytes: control arrives at the stub with index 2 k, which pushes 2 k.
\<close>

theorem ibt_lazy_index_doubled:
  assumes "cc_ibtplt X = Some v" "\<not> starts_with ''placeholder'' (name_of X s)" "a_plt (lk_aux (cc_link X) s) = of_nat k"
    and "2 * k < n" "32 * n < 2 ^ 31" "code_at code v (writeIBTPlt X n)" "ibt_writeGotPlt X s = Some (x_rip M)"
  shows "\<exists>M'. steps code 2 M = Some M' \<and> load64 (x_reg M' 4) (x_mem M') = of_nat (2 * k)"
proof -
  have "x_rip M = v + 16 + of_nat (32 * k)"
    using assms(1,2,3,7) ucast_entry [of k] assms(4,5) by (simp add: ibt_writeGotPlt_def)
  then have rip: "x_rip M = v + 16 + of_nat (16 * (2 * k))" by simp
  have "length (writePltHeader X) = 16" using length_target_header [of X86_64 X] by simp
  then have "code_at code (v + 16) (concat (map ibt_stub [0..<n]))" using assms(6) by (simp add: writeIBTPlt_def)
  from code_at_stubs [OF this assms(4)] have "steps code 2 M = Some (push (of_nat (2 * k)) (M\<lparr>x_rip := v + 16 + of_nat (16 * (2 * k)) + 9\<rparr>))"
    using assms(4,5) rip by (intro ibt_stub_steps) auto
  then show ?thesis by (simp add: push_def Let_def del: steps_numeral)
qed

text \<open>A small output: \<open>qsort\<close> receives its callback in the fourth argument.\<close>

definition image_at :: "u64 \<Rightarrow> u8 list \<Rightarrow> u64 \<Rightarrow> u8" where
  "image_at a bs x = (let k = unat (x - a) in if k < length bs then bs ! k else 0)"

lemma code_at_image:
  assumes "length bs < 2 ^ 64"
  shows "code_at (image_at a bs) a bs"
proof -
  have "code_at (image_at a bs) (a + of_nat n) (drop n bs)" if "n \<le> length bs" for n
    using that
  proof (induction "length bs - n" arbitrary: n)
    case (Suc m)
    then have n: "n < length bs" by simp
    have "image_at a bs (a + of_nat n) = bs ! n" using n assms by (simp add: image_at_def unat_of_nat_u64)
    moreover have "code_at (image_at a bs) (a + of_nat (Suc n)) (drop (Suc n) bs)" using Suc n by (intro Suc.hyps(1)) auto
    ultimately show ?case using n by (simp add: Cons_nth_drop_Suc [symmetric] ac_simps)
  qed simp
  from this [of 0] show ?thesis by simp
qed

definition demo_ctx :: code_ctx where
  "demo_ctx = \<lparr>cc_callb_get = (\<lambda>n. if n = ''qsort'' then Some [3] else None), cc_layout = demo_layout,
     cc_link = postScanRelocations demo_link_cfg [0, 1, 2] (demo_link\<lparr>lk_andmask_offset := 8\<rparr>), cc_ibtplt = None, cc_dynamic = 0x2000\<rparr>"

definition demo_plt :: "u8 list" where
  "demo_plt = the (PltSection_writeTo X86_64 demo_ctx (replicate 80 0))"

definition demo_fakeplt :: "u8 list" where
  "demo_fakeplt = the (FakePltSection_writeTo X86_64 demo_ctx (replicate 64 0))"

definition demo_mem :: mem where
  "demo_mem = store64 0x3000 0x7f0000000000 (store64 0x3008 0x7f0000ffffff (store64 0x3108 0xaa (store64 0x3110 0xbb
     (store64 0x3118 0x1116 (store64 0x3120 0x55500 (\<lambda>_. 0))))))"

definition demo_machine :: "u64 \<Rightarrow> machine" where
  "demo_machine a = \<lparr>x_rip = a, x_reg = (\<lambda>r. if r = 4 then 0x9000 else 0x1234567), x_mem = demo_mem\<rparr>"

definition link_view :: "link \<Rightarrow> symid list \<times> symid list \<times> u64 \<times> u64 \<times> (string \<times> bool \<times> u32) list \<times> (u32 \<times> u32 \<times> u32 \<times> u32) list" where
  "link_view L = (lk_plt L, lk_fakeplt L, lk_ormask_offset L, lk_andmask_offset L,
     map (\<lambda>s. (sy_name (lk_syms L s), sy_in_iplt (lk_syms L s), customreloc_type (lk_syms L s))) [0, 1, 2],
     map (\<lambda>s. (a_plt (lk_aux L s), a_fakeplt (lk_aux L s), a_both_plts (lk_aux L s), a_non_fake_plt (lk_aux L s))) [0, 1])"

lemma demo_view:
  "link_view (cc_link demo_ctx) = ([0, 1], [1, 2], 0, 8, [(''puts'', False, 0), (''qsort'', False, 1), (''cmp'', False, 1)], [(0, - 1, 0, 0), (2, 1, 0, 0)])"
  by code_simp

lemmas demo_link_fields = demo_view [unfolded link_view_def, simplified prod.inject list.map list.inject, simplified]

lemma demo_layout_fields [simp]:
  "cc_layout demo_ctx = demo_layout" "la_plt demo_layout = 0x1100" "la_fakeplt demo_layout = 0x1200" "la_gotplt demo_layout = 0x3100"
  "cc_ibtplt demo_ctx = None" "la_plt_header demo_layout = 16" "la_got demo_layout = 0x3000"
  by (simp_all add: demo_ctx_def demo_layout_def)

lemma demo_callb_get: "cc_callb_get demo_ctx = (\<lambda>n. if n = ''qsort'' then Some [3] else None)"
  by (simp add: demo_ctx_def)

lemma demo_link_sections: "lk_fakeplt (cc_link demo_ctx) = [1, 2]" "lk_plt (cc_link demo_ctx) = [0, 1]"
  using demo_link_fields by simp_all

lemma demo_addresses:
  "ormask_va demo_ctx = 0x3000" "andmask_va demo_ctx = 0x3008"
  "getGotPltVA demo_layout (cc_link demo_ctx) 0 = 0x3118" "getGotPltVA demo_layout (cc_link demo_ctx) 1 = 0x3120"
  "getPltVA demo_layout (cc_link demo_ctx) 0 = 0x1110" "writeGotPlt demo_ctx 0 = 0x1116"
  by (simp_all add: demo_link_fields ormask_va_def andmask_va_def getGotPltVA_def getGotPltOffset_def getPltVA_def writeGotPlt_def demo_callb_get)

lemma demo_callbacks:
  "cc_callb_get demo_ctx (name_of demo_ctx 0) = None" "cc_callb_get demo_ctx (name_of demo_ctx 1) = Some [3]"
  "\<not> has_fake demo_ctx 0" "has_fake demo_ctx 1" "callb_ok demo_ctx [0, 1]" "callb_ok demo_ctx [1, 2]"
  by (simp_all add: demo_link_fields demo_callb_get callb_ok_def callback_bytes_def)

lemma demo_code_loads:
  "load64 0x3000 demo_mem = 0x7f0000000000" "load64 0x3008 demo_mem = 0x7f0000ffffff" "load64 0x3120 demo_mem = 0x55500"
  "load64 0x3118 demo_mem = 0x1116" "load64 0x3108 demo_mem = 0xaa" "load64 0x3110 demo_mem = 0xbb"
  unfolding demo_mem_def by (simp_all add: load64_store64_other)

lemma demo_written:
  "FakePltSection_writeTo X86_64 demo_ctx (replicate 64 0) = Some demo_fakeplt" "length demo_fakeplt = 64"
  "PltSection_writeTo X86_64 demo_ctx (replicate 80 0) = Some demo_plt" "length demo_plt = 80"
  using fake_section_total [of "replicate 64 0" demo_ctx X86_64] plt_section_total [of "replicate 80 0" X86_64 demo_ctx]
    plt_section_length [of X86_64 demo_ctx "replicate 80 0" demo_plt]
  by (auto simp: demo_link_sections demo_callbacks demo_fakeplt_def demo_plt_def PltSection_getSize_def simp del: One_nat_def)

lemma demo_code: "code_at (image_at 0x1100 demo_plt) 0x1100 demo_plt" "code_at (image_at 0x1200 demo_fakeplt) 0x1200 demo_fakeplt"
  by (rule code_at_image, simp add: demo_written)+

lemma demo_machine_fields [simp]: "x_rip (demo_machine a) = a" "x_mem (demo_machine a) = demo_mem" "x_reg (demo_machine a) 1 = 0x1234567"
  "x_reg (demo_machine a) 4 = 0x9000"
  by (simp_all add: demo_machine_def)

lemma demo_code_fits:
  "fits32 (0x3000 - (0x1200 + 11))" "fits32 (0x3008 - (0x1200 + 18))" "fits32 (0x3120 - (0x1200 + 24))"
  "lazy_ok demo_ctx 0 0x1110 0x9000" "fits32 (0x3000 - (0x1130 + 7))" "fits32 (0x3120 - (0x1130 + 13))"
  "entry_fits X86_64 demo_ctx 0 0x1110"
  unfolding lazy_ok_def entry_fits_def by (simp_all add: fits32_def apart_def demo_addresses)

theorem callback_entry_masks_witness:
  "map_option (\<lambda>M. (x_rip M, x_reg M 1)) (steps (image_at 0x1200 demo_fakeplt) 4 (demo_machine 0x1200)) =
    Some (0x55500, mask_target 0x7f0000000000 0x7f0000ffffff 0x1234567)"
proof -
  have "steps (image_at 0x1200 demo_fakeplt) 4 (demo_machine 0x1200) = Some ((demo_machine 0x1200)\<lparr>
      x_rip := load64 (gotplt_va demo_ctx 1) (x_mem (demo_machine 0x1200)), x_reg := (x_reg (demo_machine 0x1200))(arg_reg 3 :=
        mask_target (load64 (ormask_va demo_ctx) (x_mem (demo_machine 0x1200))) (load64 (andmask_va demo_ctx) (x_mem (demo_machine 0x1200)))
          (x_reg (demo_machine 0x1200) (arg_reg 3)))\<rparr>)"
    using demo_code(2) demo_code_fits(1-3)
    by (intro callback_entry_masks [OF demo_written(1), where i = 0 and a = "0x1200"])
      (simp_all only: demo_layout_fields demo_machine_fields demo_link_sections demo_callbacks demo_addresses, simp_all)
  moreover have "arg_reg 3 = 1" by code_simp
  ultimately show ?thesis
    by (simp only: option.map demo_addresses demo_layout_fields demo_machine_fields demo_code_loads) simp
qed



theorem callback_plt_entry_only_ors_witness:
  "\<exists>bs. writePlt demo_ctx 1 0x1130 = Some bs \<and>
    map_option (\<lambda>M. x_reg M 1) (steps (image_at 0x1130 bs) 2 (demo_machine 0x1130)) = Some (0x1234567 OR 0x7f0000000000)"
proof -
  obtain bs where bs: "writePlt demo_ctx 1 0x1130 = Some bs"
    using target_writePlt_total [OF demo_callbacks(5), of 1 X86_64 "0x1130"] by auto
  have c: "code_at (image_at 0x1130 bs) 0x1130 bs" using length_writePlt [OF bs] by (intro code_at_image) simp
  have r: "arg_reg 3 = 1" by code_simp
  have "steps (image_at 0x1130 bs) 2 (demo_machine 0x1130) = Some ((demo_machine 0x1130)\<lparr>
      x_rip := load64 (gotplt_va demo_ctx 1) (x_mem (demo_machine 0x1130)), x_reg := (x_reg (demo_machine 0x1130))(arg_reg 3 :=
        x_reg (demo_machine 0x1130) (arg_reg 3) OR load64 (ormask_va demo_ctx) (x_mem (demo_machine 0x1130)))\<rparr>)"
    using demo_code_fits(5,6) bs c
    by (intro callback_plt_entry_only_ors [where bs = bs and a = "0x1130"]) (simp_all add: demo_callbacks demo_addresses del: One_nat_def)
  then show ?thesis using bs by (simp add: r demo_addresses demo_code_loads del: steps_numeral One_nat_def)
qed

theorem fake_slot_inside_instruction_witness:
  "\<exists>bs i n. writeFakePlt demo_ctx 1 0x1200 = Some bs \<and> decode (\<lambda>j. image_at 0x1200 bs (0x1204 + of_nat j)) = Some (i, n) \<and>
    4 < unat (writeGotPlt demo_ctx 1 - 0x1200) \<and> unat (writeGotPlt demo_ctx 1 - 0x1200) < 4 + n"
proof -
  obtain bs where bs: "writeFakePlt demo_ctx 1 0x1200 = Some bs"
    using writeFakePlt_total [OF demo_callbacks(6), of 1 "0x1200"] by auto
  have c: "code_at (image_at 0x1200 bs) 0x1200 bs" using length_fake_entry [OF bs] by (intro code_at_image) simp
  have a: "0x1200 = getFakePltVA (cc_layout demo_ctx) (cc_link demo_ctx) 1"
    by (simp add: getFakePltVA_def demo_link_fields) (simp add: demo_layout_def)
  show ?thesis using fake_slot_inside_instruction [OF demo_callbacks(4) a bs c] bs by (auto simp: add.assoc)
qed

theorem ibt_lazy_index_doubled_witness:
  "\<exists>M'. steps (image_at 0x1400 (writeIBTPlt (demo_ctx\<lparr>cc_ibtplt := Some 0x1400\<rparr>) 5)) 2 (demo_machine 0x1450) = Some M' \<and>
    load64 (x_reg M' 4) (x_mem M') = 4"
proof -
  let ?X = "demo_ctx\<lparr>cc_ibtplt := Some 0x1400\<rparr>"
  have "length (writeIBTPlt ?X 5) = 96"
    using length_target_header [of X86_64 ?X] by (simp add: writeIBTPlt_def length_concat length_ibt_stub upt_rec comp_def)
  then have c: "code_at (image_at 0x1400 (writeIBTPlt ?X 5)) 0x1400 (writeIBTPlt ?X 5)" by (intro code_at_image) simp
  have s: "\<not> starts_with ''placeholder'' (name_of ?X 1)" "a_plt (lk_aux (cc_link ?X) 1) = of_nat 2"
    using demo_link_fields by (simp_all add: starts_with_def)
  have "ibt_writeGotPlt ?X 1 = Some (x_rip (demo_machine 0x1450))"
    using s demo_link_fields by (simp add: ibt_writeGotPlt_def)
  from ibt_lazy_index_doubled [OF _ s _ _ c this] show ?thesis by (simp del: steps_numeral)
qed

end
