(* ===== verification/Linker_Scan.thy ===== *)
theory Linker_Scan
  imports Linker_Plt
begin

text \<open>
  The scan of the input relocations (\<open>src/llvm-platypus/lld/ELF/Relocations.cpp\<close>: \<open>scanOne\<close>,
  \<open>handleTlsRelocation\<close>, \<open>processAux\<close>, \<open>isStaticLinkTimeConstant\<close>, and \<open>Arch/X86_64.cpp\<close>: \<open>getRelExpr\<close>,
  \<open>adjustGotPcExpr\<close>, \<open>getDynRel\<close>), for x86-64.  It recognises the mask symbols, the placeholders and
  the functions whose address is taken by their names and relocation types, and records in the flags
  of a symbol which entries it needs; \<open>Linker_Plt\<close> makes the entries from these flags.
\<close>

section \<open>Data\<close>

text \<open>What the scan reads of a symbol beyond the fields used for its entries.\<close>

record scan_sym = symbol +
  y_undefined :: bool
  y_weak :: bool
  y_local :: bool
  y_default_visible :: bool
  y_version_suffix :: bool
  y_shared :: bool
  y_dso_protected :: bool
  y_script_defined :: bool
  y_exported :: bool

datatype rel_expr =
    RE_NONE | RE_ABS | RE_ADDEND | RE_DTPREL | RE_TPREL | RE_TLSDESC_CALL | RE_TLSLD_PC | RE_TLSGD_PC | RE_SIZE | RE_PLT | RE_PLT_PC
  | RE_PC | RE_GOT | RE_GOTPLT | RE_TLSDESC_PC | RE_GOT_PC | RE_GOTPLTREL | RE_PLT_GOTPLT | RE_GOTPLTONLY_PC
  | RE_RELAX_GOT_PC | RE_RELAX_GOT_PC_NOPIC | RE_RELAX_TLS_GD_TO_IE | RE_RELAX_TLS_GD_TO_LE | RE_RELAX_TLS_IE_TO_LE | RE_RELAX_TLS_LD_TO_LE

record input_rel =
  ir_expr :: rel_expr
  ir_type :: u32
  ir_offset :: u64
  ir_addend :: u64
  ir_sym :: symid

datatype scan_error =
    Unknown_Relocation u32 symid
  | Undefined_Symbol symid u64 bool
  | Absolute_Symbol u32 symid
  | Shared_Tprel u32 symid
  | Cannot_Preempt symid
  | No_Copy_Reloc u32 symid
  | Needs_PIC u32 symid

datatype unresolved_policy = Report_Error | Warn_Only | Ignore_Unresolved

text \<open>
  The options and the section scanned.  The functions \<open>adjustTlsExpr\<close> and \<open>usesOnlyLowPageBits\<close> of
  the target, which this target inherits, are fields; so is the offset in the output section of a
  position of the input section.
\<close>

record scan_env =
  se_pic :: bool
  se_shared :: bool
  se_ifunc_noplt :: bool
  se_relax :: bool
  se_ztext :: bool
  se_copyreloc :: bool
  se_ignore_function_equality :: bool
  se_ignore_data_equality :: bool
  se_write_addends :: bool
  se_relr :: bool
  se_noinhibit :: bool
  se_unresolved :: unresolved_policy
  se_adjust_tls :: "u32 \<Rightarrow> rel_expr \<Rightarrow> rel_expr"
  se_low_page_bits :: "u32 \<Rightarrow> bool"
  se_content :: "u64 \<Rightarrow> u8"
  se_offset :: "u64 \<Rightarrow> u64"
  se_writable :: bool
  se_even_aligned :: bool
  se_eh :: bool

record dyn_input =
  di_type :: u32
  di_offset :: u64
  di_kind :: reloc_kind
  di_sym :: symid
  di_addend :: u64
  di_expr :: rel_expr

record scan_state =
  sc_syms :: "symid \<Rightarrow> scan_sym"
  sc_relocs :: "input_rel list"
  sc_dyn :: "dyn_input list"
  sc_relr :: "nat list"
  sc_gotplt_off :: bool
  sc_got_off :: bool
  sc_tls_ld :: bool
  sc_tls_ie :: bool
  sc_errors :: "scan_error list"

record elf_rela =
  er_offset :: u64
  er_type :: u32
  er_symindex :: u32
  er_sym :: symid
  er_addend :: u64

abbreviation (input) "R_X86_64_64 \<equiv> (1 :: u32)"
abbreviation (input) "R_X86_64_PC32 \<equiv> (2 :: u32)"
abbreviation (input) "R_X86_64_PLT32 \<equiv> (4 :: u32)"
abbreviation (input) "R_X86_64_GOTPCREL \<equiv> (9 :: u32)"
abbreviation (input) "R_X86_64_GOTPC32_TLSDESC \<equiv> (34 :: u32)"
abbreviation (input) "R_X86_64_TLSDESC_CALL \<equiv> (35 :: u32)"
abbreviation (input) "R_X86_64_GOTPCRELX \<equiv> (41 :: u32)"
abbreviation (input) "R_X86_64_REX_GOTPCRELX \<equiv> (42 :: u32)"
abbreviation (input) "R_X86_64_CODE_4_GOTPCRELX \<equiv> (43 :: u32)"
abbreviation (input) "R_X86_64_CODE_4_GOTPC32_TLSDESC \<equiv> (45 :: u32)"
abbreviation (input) "R_X86_64_ORMASK \<equiv> (1338 :: u32)"
abbreviation (input) "R_X86_64_ANDMASK \<equiv> (1339 :: u32)"
abbreviation (input) "R_X86_64_CALLBACK_TABLE \<equiv> (1340 :: u32)"
abbreviation (input) "R_X86_64_CALLBACK_MAYBE \<equiv> (1341 :: u32)"
abbreviation (input) "R_X86_64_DSO_BASE \<equiv> (1342 :: u32)"

abbreviation (input) "NEEDS_GOT_NONAUTH \<equiv> (0x400 :: u16)"

section \<open>The target\<close>

text \<open>The second component tells whether the type is known.\<close>

definition getRelExpr :: "u32 \<Rightarrow> rel_expr \<times> bool" where
  "getRelExpr type =
    (if type \<in> {14, 12, 10, 11, 1, R_X86_64_ORMASK, R_X86_64_ANDMASK, R_X86_64_CALLBACK_TABLE, R_X86_64_CALLBACK_MAYBE, R_X86_64_DSO_BASE}
     then (RE_ABS, True)
     else if type \<in> {21, 17} then (RE_DTPREL, True)
     else if type \<in> {23, 18} then (RE_TPREL, True)
     else if type = 35 then (RE_TLSDESC_CALL, True)
     else if type = 20 then (RE_TLSLD_PC, True)
     else if type = 19 then (RE_TLSGD_PC, True)
     else if type \<in> {32, 33} then (RE_SIZE, True)
     else if type = 4 then (RE_PLT_PC, True)
     else if type \<in> {15, 13, 2, 24} then (RE_PC, True)
     else if type \<in> {3, 27} then (RE_GOTPLT, True)
     else if type \<in> {34, 45} then (RE_TLSDESC_PC, True)
     else if type \<in> {9, 41, 42, 43, 22, 44, 50} then (RE_GOT_PC, True)
     else if type = 25 then (RE_GOTPLTREL, True)
     else if type = 31 then (RE_PLT_GOTPLT, True)
     else if type \<in> {26, 29} then (RE_GOTPLTONLY_PC, True)
     else if type = 0 then (RE_NONE, True)
     else (RE_NONE, False))"

definition getDynRel :: "u32 \<Rightarrow> u32" where
  "getDynRel type = (if type \<in> {1, 24, 32, 33, R_X86_64_CALLBACK_MAYBE} then type else 0)"

definition getTlsGdRelaxSkip :: "u32 \<Rightarrow> nat" where
  "getTlsGdRelaxSkip type =
    (if type = R_X86_64_GOTPC32_TLSDESC \<or> type = R_X86_64_CODE_4_GOTPC32_TLSDESC \<or> type = R_X86_64_TLSDESC_CALL then 1 else 2)"

definition adjustGotPcExpr :: "scan_env \<Rightarrow> u32 \<Rightarrow> u64 \<Rightarrow> u64 \<Rightarrow> rel_expr" where
  "adjustGotPcExpr E type addend loc =
    (if \<not> se_relax E \<or> addend \<noteq> - 4 \<or>
        (type \<noteq> R_X86_64_GOTPCRELX \<and> type \<noteq> R_X86_64_REX_GOTPCRELX \<and> type \<noteq> R_X86_64_CODE_4_GOTPCRELX)
     then RE_GOT_PC
     else
       let op = se_content E (loc - 2); modRm = se_content E (loc - 1)
       in if op = 0x8b then RE_RELAX_GOT_PC
          else if op = 0xff \<and> (modRm = 0x15 \<or> modRm = 0x25) then RE_RELAX_GOT_PC
          else if type = R_X86_64_GOTPCRELX then RE_GOT_PC
          else if se_pic E then RE_GOT_PC else RE_RELAX_GOT_PC_NOPIC)"

definition needsPlt :: "rel_expr \<Rightarrow> bool" where
  "needsPlt e = (e \<in> {RE_PLT, RE_PLT_PC, RE_PLT_GOTPLT})"

definition needsGot :: "rel_expr \<Rightarrow> bool" where
  "needsGot e = (e \<in> {RE_GOT, RE_GOT_PC, RE_GOTPLT})"

definition isRelExpr :: "rel_expr \<Rightarrow> bool" where
  "isRelExpr e = (e \<in> {RE_PC, RE_GOTPLTREL, RE_RELAX_GOT_PC})"

fun fromPlt :: "rel_expr \<Rightarrow> rel_expr" where
  "fromPlt RE_PLT_PC = RE_PC"
| "fromPlt RE_PLT = RE_ABS"
| "fromPlt RE_PLT_GOTPLT = RE_GOTPLTREL"
| "fromPlt e = e"

section \<open>Numbers in names\<close>

text \<open>The library function \<open>strtol\<close> with base 0, which finds the base in the text.\<close>

definition digit_val :: "char \<Rightarrow> nat option" where
  "digit_val c =
    (let n = of_char c :: nat in
     if 48 \<le> n \<and> n \<le> 57 then Some (n - 48)
     else if 97 \<le> n \<and> n \<le> 122 then Some (n - 87)
     else if 65 \<le> n \<and> n \<le> 90 then Some (n - 55)
     else None)"

definition is_digit :: "nat \<Rightarrow> char \<Rightarrow> bool" where
  "is_digit b c = (case digit_val c of Some d \<Rightarrow> d < b | None \<Rightarrow> False)"

definition number_of :: "nat \<Rightarrow> string \<Rightarrow> nat" where
  "number_of b cs = foldl (\<lambda>acc c. acc * b + the (digit_val c)) 0 (takeWhile (is_digit b) cs)"

definition is_space :: "char \<Rightarrow> bool" where
  "is_space c = (let n = of_char c :: nat in n = 32 \<or> (9 \<le> n \<and> n \<le> 13))"

definition magnitude0 :: "string \<Rightarrow> nat" where
  "magnitude0 cs =
    (if take 1 cs = ''0'' \<and> length cs \<ge> 3 \<and> cs ! 1 \<in> {CHR ''x'', CHR ''X''} \<and> is_digit 16 (cs ! 2) then number_of 16 (drop 2 cs)
     else if take 1 cs = ''0'' then number_of 8 cs
     else number_of 10 cs)"

definition strtol :: "string \<Rightarrow> int" where
  "strtol cs =
    (let cs = dropWhile is_space cs;
         neg = (take 1 cs = ''-'');
         cs = (if neg \<or> take 1 cs = ''+'' then drop 1 cs else cs);
         v = int (magnitude0 cs)
     in if neg then max (- (2 ^ 63)) (- v) else min (2 ^ 63 - 1) v)"

definition ends_with :: "string \<Rightarrow> string \<Rightarrow> bool" where
  "ends_with p s = (length p \<le> length s \<and> drop (length s - length p) s = p)"

section \<open>Recognising symbols\<close>

text \<open>The first chain of tests in \<open>scanOne\<close>.\<close>

definition mark_masks :: "scan_sym \<Rightarrow> u32 \<Rightarrow> scan_sym \<times> u32" where
  "mark_masks y type =
    (if starts_with ''or_mask'' (sy_name y) then (y\<lparr>sy_iscustomreloc := 0x2\<rparr>, R_X86_64_ORMASK)
     else if starts_with ''and_mask'' (sy_name y) then (y\<lparr>sy_iscustomreloc := 0xa\<rparr>, R_X86_64_ANDMASK)
     else if starts_with ''__libc_start_main'' (sy_name y) then (y\<lparr>sy_iscustomreloc := 0x1\<rparr>, type)
     else (y, type))"

text \<open>
  A name such as \<open>f_0x1234_1337\<close> asks for the address of a function at an offset of its library: the
  offset goes into the upper bits of \<open>iscustomreloc\<close> and the name is cut before the first underscore.
\<close>

definition mark_maybe :: "scan_sym \<Rightarrow> scan_sym" where
  "mark_maybe y =
    (if sy_iscustomreloc y < 0x100
     then
       let fname = takeWhile (\<lambda>c. c \<noteq> CHR ''_'') (sy_name y);
           dso_offset = word_of_int (strtol (takeWhile (\<lambda>c. c \<noteq> CHR ''_'') (drop (length fname + 1) (sy_name y)))) :: u64
       in y\<lparr>sy_iscustomreloc := ucast (dso_offset * 256 + 4), sy_name := fname\<rparr>
     else y)"

definition mark_functions :: "scan_sym \<Rightarrow> u32 \<Rightarrow> scan_sym \<times> u32" where
  "mark_functions y type =
    (if starts_with ''cccallback_table'' (sy_name y) then (y\<lparr>sy_iscustomreloc := 0x3\<rparr>, R_X86_64_CALLBACK_TABLE)
     else if sy_preemptible y \<and> sy_func y
     then (if type = 0x1 then y\<lparr>sy_iscustomreloc := 0x1\<rparr>
           else if type = 0x29 \<or> type = 0x2a \<or> type = 0x2 then y\<lparr>sy_iscustomreloc := 0x1\<rparr>
           else y, type)
     else if ends_with ''1337'' (sy_name y) \<and> CHR ''_'' \<in> set (sy_name y) then (mark_maybe y, R_X86_64_CALLBACK_MAYBE)
     else if starts_with ''placeholder'' (sy_name y) \<and> \<not> starts_with ''placeholder_'' (sy_name y)
     then (y\<lparr>sy_iscustomreloc := 0x1\<rparr>, type)
     else (y, type))"

definition recognise :: "scan_sym \<Rightarrow> u32 \<Rightarrow> scan_sym \<times> u32" where
  "recognise y type = (case mark_masks y type of (y, type) \<Rightarrow> mark_functions y type)"

section \<open>Effects of the scan\<close>

abbreviation upd_sym :: "symid \<Rightarrow> (scan_sym \<Rightarrow> scan_sym) \<Rightarrow> scan_state \<Rightarrow> scan_state" where
  "upd_sym s f S \<equiv> S\<lparr>sc_syms := (sc_syms S)(s := f (sc_syms S s))\<rparr>"

definition setFlags :: "symid \<Rightarrow> u16 \<Rightarrow> scan_state \<Rightarrow> scan_state" where
  "setFlags s bits S = upd_sym s (\<lambda>y. y\<lparr>sy_flags := sy_flags y OR bits\<rparr>) S"

definition sec_addReloc :: "input_rel \<Rightarrow> scan_state \<Rightarrow> scan_state" where
  "sec_addReloc r S = S\<lparr>sc_relocs := sc_relocs S @ [r]\<rparr>"

definition error_at :: "scan_error \<Rightarrow> scan_state \<Rightarrow> scan_state" where
  "error_at e S = S\<lparr>sc_errors := sc_errors S @ [e]\<rparr>"

definition isUndefWeak :: "scan_sym \<Rightarrow> bool" where
  "isUndefWeak y = (y_undefined y \<and> y_weak y)"

definition isAbsoluteValue :: "scan_sym \<Rightarrow> bool" where
  "isAbsoluteValue y = (isUndefWeak y \<or> sy_absolute y \<or> sy_tls y)"

definition canDefineSymbolInExecutable :: "scan_env \<Rightarrow> scan_sym \<Rightarrow> bool" where
  "canDefineSymbolInExecutable E y =
    (if \<not> y_dso_protected y then True
     else (sy_func y \<and> se_ignore_function_equality E) \<or> (sy_object y \<and> se_ignore_data_equality E))"

text \<open>The exception for the sections \<open>.got2\<close> and \<open>.toc\<close> of PowerPC is left out.\<close>

definition maybeReportUndefined :: "scan_env \<Rightarrow> symid \<Rightarrow> u64 \<Rightarrow> scan_state \<Rightarrow> bool \<times> scan_state" where
  "maybeReportUndefined E s offset S =
    (let y = sc_syms S s in
     if y_version_suffix y then (True, error_at (Undefined_Symbol s offset False) S)
     else if y_weak y then (False, S)
     else
       let canBeExternal = (\<not> y_local y \<and> y_default_visible y) in
       if se_unresolved E = Ignore_Unresolved \<and> canBeExternal then (False, S)
       else
         let isWarning = ((se_unresolved E = Warn_Only \<and> canBeExternal) \<or> se_noinhibit E)
         in (\<not> isWarning, error_at (Undefined_Symbol s offset isWarning) S))"

definition dyn_addReloc :: "scan_env \<Rightarrow> reloc_kind \<Rightarrow> u32 \<Rightarrow> u64 \<Rightarrow> symid \<Rightarrow> u64 \<Rightarrow> rel_expr \<Rightarrow> u32 \<Rightarrow> scan_state \<Rightarrow> scan_state" where
  "dyn_addReloc E kind dynType offset s addend expr addendRelType S =
    (let S = (if se_write_addends E \<and> (expr \<noteq> RE_ADDEND \<or> addend \<noteq> 0)
              then sec_addReloc \<lparr>ir_expr = expr, ir_type = addendRelType, ir_offset = offset, ir_addend = addend, ir_sym = s\<rparr> S else S)
     in S\<lparr>sc_dyn := sc_dyn S @ [\<lparr>di_type = dynType, di_offset = offset, di_kind = kind, di_sym = s, di_addend = addend, di_expr = expr\<rparr>]\<rparr>)"

definition addSymbolReloc :: "scan_env \<Rightarrow> u32 \<Rightarrow> u64 \<Rightarrow> symid \<Rightarrow> u64 \<Rightarrow> u32 \<Rightarrow> scan_state \<Rightarrow> scan_state" where
  "addSymbolReloc E dynType offset s addend addendRelType S =
    dyn_addReloc E AgainstSymbol dynType offset s addend RE_ADDEND addendRelType S"

definition sec_addRelativeReloc :: "scan_env \<Rightarrow> u64 \<Rightarrow> symid \<Rightarrow> u64 \<Rightarrow> rel_expr \<Rightarrow> u32 \<Rightarrow> scan_state \<Rightarrow> scan_state" where
  "sec_addRelativeReloc E offset s addend expr type S =
    (if se_relr E \<and> se_even_aligned E \<and> offset mod 2 = 0
     then
       let S = sec_addReloc \<lparr>ir_expr = expr, ir_type = type, ir_offset = offset, ir_addend = addend, ir_sym = s\<rparr> S
       in S\<lparr>sc_relr := sc_relr S @ [length (sc_relocs S) - 1]\<rparr>
     else dyn_addReloc E AddendOnlyWithTargetVA relativeRel offset s addend expr type S)"

text \<open>The second component is the state with the error for a reference to an absolute symbol.\<close>

definition isStaticLinkTimeConstant :: "scan_env \<Rightarrow> rel_expr \<Rightarrow> u32 \<Rightarrow> symid \<Rightarrow> scan_state \<Rightarrow> bool \<times> scan_state" where
  "isStaticLinkTimeConstant E e type s S =
    (let y = sc_syms S s in
     if e \<in> {RE_GOTPLT, RE_GOT_PC, RE_GOTPLTONLY_PC, RE_PLT_PC, RE_PLT_GOTPLT} then (True, S)
     else if e = RE_GOT \<or> e = RE_PLT then (se_low_page_bits E type \<or> \<not> se_pic E, S)
     else if sy_preemptible y then (False, S)
     else if \<not> se_pic E then (True, S)
     else if e = RE_SIZE then (True, S)
     else
       let absVal = isAbsoluteValue y; relE = isRelExpr e in
       if absVal \<and> \<not> relE then (True, S)
       else if \<not> absVal \<and> relE then (True, S)
       else if \<not> absVal \<and> \<not> relE then (se_low_page_bits E type, S)
       else if isUndefWeak y \<or> y_script_defined y then (True, S)
       else (True, error_at (Absolute_Symbol type s) S))"

text \<open>References to a non-preemptible symbol avoid the PLT and, where possible, the GOT.\<close>

definition direct_expr :: "scan_env \<Rightarrow> rel_expr \<Rightarrow> u32 \<Rightarrow> u64 \<Rightarrow> scan_sym \<Rightarrow> u64 \<Rightarrow> rel_expr" where
  "direct_expr E expr type offset y addend =
    (if \<not> sy_preemptible y \<and> (\<not> sy_gnu_ifunc y \<or> se_ifunc_noplt E)
     then
       if expr \<noteq> RE_GOT_PC then fromPlt expr
       else if \<not> isAbsoluteValue y then adjustGotPcExpr E type addend offset
       else expr
     else expr)"

text \<open>The flags the expression asks for.\<close>

definition demand :: "rel_expr \<Rightarrow> symid \<Rightarrow> scan_state \<Rightarrow> scan_state" where
  "demand expr s S =
    (if needsGot expr then setFlags s (NEEDS_GOT OR NEEDS_GOT_NONAUTH) S
     else if needsPlt expr then setFlags s NEEDS_PLT S
     else if sy_gnu_ifunc (sc_syms S s) then setFlags s HAS_DIRECT_RELOC S
     else S)"

text \<open>The last part of \<open>processAux\<close>: copy relocations and canonical PLT entries of an executable.\<close>

definition preempt_in_executable :: "scan_env \<Rightarrow> rel_expr \<Rightarrow> u32 \<Rightarrow> u64 \<Rightarrow> symid \<Rightarrow> u64 \<Rightarrow> scan_state \<Rightarrow> scan_state" where
  "preempt_in_executable E expr type offset s addend S =
    (let y = sc_syms S s;
         rel = \<lparr>ir_expr = expr, ir_type = type, ir_offset = offset, ir_addend = addend, ir_sym = s\<rparr>
     in if \<not> se_shared E \<and> y_shared y
        then
          if \<not> canDefineSymbolInExecutable E y then error_at (Cannot_Preempt s) S
          else if sy_object y
          then
            let S = (if \<not> se_copyreloc E then error_at (No_Copy_Reloc type s) S else S)
            in sec_addReloc rel (setFlags s NEEDS_COPY S)
          else if sy_func y then sec_addReloc rel (setFlags s (NEEDS_COPY OR NEEDS_PLT) S)
          else error_at (Needs_PIC type s) S
        else error_at (Needs_PIC type s) S)"

definition processAux :: "scan_env \<Rightarrow> rel_expr \<Rightarrow> u32 \<Rightarrow> u64 \<Rightarrow> symid \<Rightarrow> u64 \<Rightarrow> scan_state \<Rightarrow> scan_state" where
  "processAux E expr0 type offset s addend S =
    (let y = sc_syms S s;
         expr = direct_expr E expr0 type offset y addend;
         S = (if \<not> sy_preemptible y \<and> (\<not> sy_gnu_ifunc y \<or> se_ifunc_noplt E) \<and> expr0 = RE_GOT_PC \<and> \<not> isAbsoluteValue y \<and> expr = RE_RELAX_GOT_PC
              then S\<lparr>sc_got_off := True\<rparr> else S)
     in if sy_gnu_ifunc y \<and> se_ifunc_noplt E
        then addSymbolReloc E type offset s addend type (upd_sym s (\<lambda>y. y\<lparr>y_exported := True\<rparr>) S)
        else
          let S = demand expr s S;
              (const, S) = isStaticLinkTimeConstant E expr type s S
          in if const \<or> (\<not> se_pic E \<and> isUndefWeak y)
             then sec_addReloc \<lparr>ir_expr = expr, ir_type = type, ir_offset = offset, ir_addend = addend, ir_sym = s\<rparr> S
             else
               let canWrite = (se_writable E \<or> \<not> (se_ztext E \<or> se_eh E));
                   rel = getDynRel type
               in if canWrite \<and> (expr = RE_GOT \<or> (rel = symbolicRel \<and> \<not> sy_preemptible y))
                  then sec_addRelativeReloc E offset s addend expr type S
                  else if canWrite \<and> rel \<noteq> 0 then addSymbolReloc E rel offset s addend type S
                  else preempt_in_executable E expr type offset s addend S)"

text \<open>The number of relocations processed; 0 leaves the relocation to \<open>processAux\<close>.\<close>

definition handleTlsRelocation :: "scan_env \<Rightarrow> rel_expr \<Rightarrow> u32 \<Rightarrow> u64 \<Rightarrow> symid \<Rightarrow> u64 \<Rightarrow> scan_state \<Rightarrow> nat \<times> scan_state" where
  "handleTlsRelocation E expr type offset s addend S =
    (let y = sc_syms S s;
         rel = (\<lambda>e. \<lparr>ir_expr = e, ir_type = type, ir_offset = offset, ir_addend = addend, ir_sym = s\<rparr>);
         execOptimize = (\<not> se_shared E);
         isLocalInExecutable = (\<not> sy_preemptible y \<and> \<not> se_shared E)
     in if expr = RE_TPREL
        then if se_shared E then (1, error_at (Shared_Tprel type s) S) else (0, S)
        else if expr \<in> {RE_TLSDESC_CALL, RE_TLSDESC_PC} \<and> se_shared E
        then (1, if expr \<noteq> RE_TLSDESC_CALL then sec_addReloc (rel expr) (setFlags s NEEDS_TLSDESC S) else S)
        else if expr = RE_TLSLD_PC
        then if execOptimize
             then (getTlsGdRelaxSkip type, sec_addReloc (rel (se_adjust_tls E type RE_RELAX_TLS_LD_TO_LE)) S)
             else (1, sec_addReloc (rel expr) (S\<lparr>sc_tls_ld := True\<rparr>))
        else if expr = RE_DTPREL
        then (1, sec_addReloc (rel (if execOptimize then se_adjust_tls E type RE_RELAX_TLS_LD_TO_LE else expr)) S)
        else if expr \<in> {RE_TLSDESC_CALL, RE_TLSDESC_PC, RE_TLSGD_PC}
        then if \<not> execOptimize then (1, sec_addReloc (rel expr) (setFlags s NEEDS_TLSGD S))
             else (getTlsGdRelaxSkip type,
                   if sy_preemptible y
                   then sec_addReloc (rel (se_adjust_tls E type RE_RELAX_TLS_GD_TO_IE)) (setFlags s NEEDS_TLSGD_TO_IE S)
                   else sec_addReloc (rel (se_adjust_tls E type RE_RELAX_TLS_GD_TO_LE)) S)
        else if expr \<in> {RE_GOT, RE_GOTPLT, RE_GOT_PC}
        then
          let S = S\<lparr>sc_tls_ie := True\<rparr>
          in (1, if execOptimize \<and> isLocalInExecutable then sec_addReloc (rel RE_RELAX_TLS_IE_TO_LE) S
                 else
                   let S = setFlags s NEEDS_TLSIE S
                   in if expr = RE_GOT \<and> se_pic E \<and> \<not> se_low_page_bits E type then sec_addRelativeReloc E offset s addend expr type S
                      else sec_addReloc (rel expr) S)
        else (0, S))"

section \<open>The scan\<close>

text \<open>The result tells how many relocations after this one are skipped.\<close>

definition scanOne :: "scan_env \<Rightarrow> elf_rela \<Rightarrow> scan_state \<Rightarrow> nat \<times> scan_state" where
  "scanOne E r S =
    (let s = er_sym r;
         (y, type) = recognise (sc_syms S s) (er_type r);
         S = S\<lparr>sc_syms := (sc_syms S)(s := y)\<rparr>;
         offset = se_offset E (er_offset r)
     in if offset = - 1 then (0, S)
        else
          let (expr, known) = getRelExpr type;
              S = (if known then S else error_at (Unknown_Relocation type s) S);
              addend = er_addend r
          in if expr = RE_NONE then (0, S)
             else
               let expr = (if customreloc_type y > 1 \<and> customreloc_type y \<noteq> 4 then RE_GOT_PC else expr);
                   (failed, S) =
                     (if y_undefined y \<and> er_symindex r \<noteq> 0 \<and> customreloc_type y < 2 \<and> \<not> ends_with ''callback_table'' (sy_name y) \<and>
                         \<not> starts_with ''placeholder'' (sy_name y) \<and> \<not> starts_with ''dsym_'' (sy_name y)
                      then maybeReportUndefined E s offset S else (False, S))
               in if failed then (0, S)
                  else
                    let S = (if expr \<in> {RE_GOTPLTONLY_PC, RE_GOTPLTREL, RE_GOTPLT, RE_PLT_GOTPLT} then S\<lparr>sc_gotplt_off := True\<rparr> else S);
                        (processed, S) = (if sy_tls y \<or> expr \<in> {RE_TLSDESC_PC, RE_TLSDESC_CALL}
                                          then handleTlsRelocation E expr type offset s addend S else (0, S))
                    in if processed \<noteq> 0 then (processed - 1, S)
                       else (0, processAux E expr type offset s addend S))"

function scan :: "scan_env \<Rightarrow> elf_rela list \<Rightarrow> scan_state \<Rightarrow> scan_state" where
  "scan E [] S = S"
| "scan E (r # rs) S = (case scanOne E r S of (skip, S) \<Rightarrow> scan E (drop skip rs) S)"
  by pat_completeness auto
termination
  by (relation "measure (\<lambda>(E, rs, S). length rs)") auto

section \<open>Functions whose address is taken\<close>

text \<open>A function of another object, with none of the special names.\<close>

definition outer_function :: "scan_sym \<Rightarrow> bool" where
  "outer_function y \<longleftrightarrow> sy_preemptible y \<and> sy_func y \<and> \<not> starts_with ''or_mask'' (sy_name y) \<and>
    \<not> starts_with ''and_mask'' (sy_name y) \<and> \<not> starts_with ''cccallback_table'' (sy_name y)"

text \<open>Everything but the flags and the export mark of a symbol.\<close>

definition essence :: "scan_sym \<Rightarrow> scan_sym" where
  "essence y = y\<lparr>sy_flags := 0, y_exported := False\<rparr>"

lemma essence_fields:
  assumes "essence y = essence y'"
  shows "sy_name y' = sy_name y" "sy_iscustomreloc y' = sy_iscustomreloc y" "sy_preemptible y' = sy_preemptible y"
    "sy_func y' = sy_func y" "sy_gnu_ifunc y' = sy_gnu_ifunc y"
  using assms by (cases y; cases y'; simp add: essence_def)+

definition same_essence :: "scan_state \<Rightarrow> scan_state \<Rightarrow> bool" where
  "same_essence S S' \<longleftrightarrow> (\<forall>t. essence (sc_syms S' t) = essence (sc_syms S t))"

lemma same_essence_refl [simp]: "same_essence S S"
  by (simp add: same_essence_def)

lemma same_essence_trans: "same_essence S S' \<Longrightarrow> same_essence S' S'' \<Longrightarrow> same_essence S S''"
  by (simp add: same_essence_def)

lemma same_essence_if: "same_essence S A \<Longrightarrow> same_essence S B \<Longrightarrow> same_essence S (if c then A else B)"
  by simp

lemma same_essence_steps:
  "same_essence S (setFlags s b S)" "same_essence S (sec_addReloc r S)" "same_essence S (error_at e S)"
  "same_essence S (upd_sym s (\<lambda>y. y\<lparr>y_exported := v\<rparr>) S)" "same_essence S (S\<lparr>sc_got_off := v'\<rparr>)" "same_essence S (S\<lparr>sc_gotplt_off := v'\<rparr>)"
  "same_essence S (S\<lparr>sc_tls_ld := v'\<rparr>)" "same_essence S (S\<lparr>sc_tls_ie := v'\<rparr>)" "same_essence S (S\<lparr>sc_relr := ns\<rparr>)" "same_essence S (S\<lparr>sc_dyn := ds\<rparr>)"
  by (simp_all add: same_essence_def essence_def setFlags_def sec_addReloc_def error_at_def)

lemma same_essence_after:
  "same_essence S S' \<Longrightarrow> same_essence S (setFlags s b S')" "same_essence S S' \<Longrightarrow> same_essence S (sec_addReloc r S')"
  "same_essence S S' \<Longrightarrow> same_essence S (error_at e S')" "same_essence S S' \<Longrightarrow> same_essence S (S'\<lparr>sc_dyn := ds\<rparr>)"
  "same_essence S S' \<Longrightarrow> same_essence S (S'\<lparr>sc_relr := ns\<rparr>)"
  by (blast intro: same_essence_trans same_essence_steps)+

lemmas same_essence_rules = same_essence_if same_essence_after same_essence_steps same_essence_refl

lemma dyn_essence: "same_essence S (dyn_addReloc E k t off s a e t' S)"
  unfolding dyn_addReloc_def Let_def by (intro same_essence_rules)

lemma relative_essence: "same_essence S (sec_addRelativeReloc E off s a e t S)"
  unfolding sec_addRelativeReloc_def Let_def by (intro same_essence_if dyn_essence same_essence_after same_essence_refl)

lemma static_essence: "isStaticLinkTimeConstant E e t s S = (c, S') \<Longrightarrow> same_essence S S'"
  by (auto simp: isStaticLinkTimeConstant_def Let_def same_essence_steps split: if_splits)

lemma preempt_essence: "same_essence S (preempt_in_executable E e t off s a S)"
  unfolding preempt_in_executable_def Let_def by (intro same_essence_rules)

lemma demand_essence: "same_essence S (demand e s S)"
  unfolding demand_def by (intro same_essence_rules)

lemma processAux_essence: "same_essence S (processAux E e t off s a S)"
proof -
  define y where "y = sc_syms S s"
  define e' where "e' = direct_expr E e t off y a"
  define S1 where "S1 = (if \<not> sy_preemptible y \<and> (\<not> sy_gnu_ifunc y \<or> se_ifunc_noplt E) \<and> e = RE_GOT_PC \<and> \<not> isAbsoluteValue y \<and> e' = RE_RELAX_GOT_PC
    then S\<lparr>sc_got_off := True\<rparr> else S)"
  obtain c S2 where 2: "isStaticLinkTimeConstant E e' t s (demand e' s S1) = (c, S2)" by fastforce
  have 1: "same_essence S S1" unfolding S1_def by (intro same_essence_rules)
  have 3: "same_essence S S2"
    using same_essence_trans [OF same_essence_trans [OF 1 demand_essence] static_essence [OF 2]] .
  have x: "same_essence S (addSymbolReloc E t off s a t (upd_sym s (\<lambda>y. y\<lparr>y_exported := True\<rparr>) S1))"
    unfolding addSymbolReloc_def
    by (rule same_essence_trans [OF same_essence_trans [OF 1 same_essence_steps(4)] dyn_essence])
  show ?thesis
    unfolding processAux_def Let_def y_def [symmetric] e'_def [symmetric] S1_def [symmetric] 2 prod.case addSymbolReloc_def [of E "getDynRel t"]
    by (intro same_essence_if x same_essence_after 3 same_essence_trans [OF 3 relative_essence] same_essence_trans [OF 3 dyn_essence]
        same_essence_trans [OF 3 preempt_essence])
qed

lemma handleTls_essence: "same_essence S (snd (handleTlsRelocation E e t off s a S))"
proof -
  have 1: "same_essence S (sec_addRelativeReloc E off s a e t (setFlags s b (S\<lparr>sc_tls_ie := True\<rparr>)))" for b
    by (rule same_essence_trans [OF _ relative_essence]) (intro same_essence_rules)
  show ?thesis
    unfolding handleTlsRelocation_def Let_def
    by (simp only: if_distrib [of snd] snd_conv) (intro same_essence_if same_essence_after same_essence_steps same_essence_refl 1)
qed

lemma undefined_essence: "maybeReportUndefined E s off S = (b, S') \<Longrightarrow> same_essence S S'"
  by (auto simp: maybeReportUndefined_def Let_def same_essence_steps split: if_splits)

lemma scanOne_essence:
  "same_essence (S\<lparr>sc_syms := (sc_syms S)(er_sym r := fst (recognise (sc_syms S (er_sym r)) (er_type r)))\<rparr>) (snd (scanOne E r S))"
proof -
  obtain y type where r: "recognise (sc_syms S (er_sym r)) (er_type r) = (y, type)" by fastforce
  define S0 where "S0 = S\<lparr>sc_syms := (sc_syms S)(er_sym r := y)\<rparr>"
  obtain e known where g: "getRelExpr type = (e, known)" by fastforce
  define S1 where "S1 = (if known then S0 else error_at (Unknown_Relocation type (er_sym r)) S0)"
  define e1 where "e1 = (if customreloc_type y > 1 \<and> customreloc_type y \<noteq> 4 then RE_GOT_PC else e)"
  define off where "off = se_offset E (er_offset r)"
  obtain failed S2 where u: "(if y_undefined y \<and> er_symindex r \<noteq> 0 \<and> customreloc_type y < 2 \<and> \<not> ends_with ''callback_table'' (sy_name y) \<and>
      \<not> starts_with ''placeholder'' (sy_name y) \<and> \<not> starts_with ''dsym_'' (sy_name y)
      then maybeReportUndefined E (er_sym r) off S1 else (False, S1)) = (failed, S2)" by fastforce
  define S3 where "S3 = (if e1 \<in> {RE_GOTPLTONLY_PC, RE_GOTPLTREL, RE_GOTPLT, RE_PLT_GOTPLT} then S2\<lparr>sc_gotplt_off := True\<rparr> else S2)"
  obtain n S4 where h: "(if sy_tls y \<or> e1 \<in> {RE_TLSDESC_PC, RE_TLSDESC_CALL} then handleTlsRelocation E e1 type off (er_sym r) (er_addend r) S3 else (0, S3)) = (n, S4)"
    by fastforce
  have 1: "same_essence S0 S1" unfolding S1_def by (intro same_essence_rules)
  have 2: "same_essence S0 S2" using u undefined_essence same_essence_trans [OF 1] 1 by (auto split: if_splits)
  have 3: "same_essence S0 S3" unfolding S3_def by (intro same_essence_if 2 same_essence_trans [OF 2 same_essence_steps(6)])
  have 4: "same_essence S0 S4"
    using h handleTls_essence [of S3 E e1 type off "er_sym r" "er_addend r"] same_essence_trans [OF 3] 3 by (auto split: if_splits)
  have "same_essence S0 (snd (scanOne E r S))"
    unfolding scanOne_def Let_def r prod.case S0_def [symmetric] g S1_def [symmetric] e1_def [symmetric] off_def [symmetric] u S3_def [symmetric] h
    by (simp only: if_distrib [of snd] snd_conv)
      (intro same_essence_if same_essence_refl 1 2 4 same_essence_trans [OF 4 processAux_essence])
  then show ?thesis by (simp add: r S0_def)
qed

lemma recognise_outer:
  assumes "outer_function y"
  shows "fst (recognise y t) = y \<or> fst (recognise y t) = y\<lparr>sy_iscustomreloc := 1\<rparr>"
    and "t \<in> {1, 2, 41, 42} \<Longrightarrow> fst (recognise y t) = y\<lparr>sy_iscustomreloc := 1\<rparr>"
  using assms by (auto simp: recognise_def mark_masks_def mark_functions_def outer_function_def)

lemma outer_essence: "essence y' = essence y \<Longrightarrow> outer_function y' = outer_function y"
  using essence_fields [of y' y] by (simp add: outer_function_def)

lemma scanOne_outer:
  assumes "outer_function (sc_syms S s)" and y: "y = sc_syms S s" "y' = sc_syms (snd (scanOne E r S)) s"
  shows "outer_function y'" "sy_iscustomreloc y = 1 \<Longrightarrow> sy_iscustomreloc y' = 1" "sy_gnu_ifunc y' = sy_gnu_ifunc y"
    "er_sym r = s \<Longrightarrow> er_type r \<in> {1, 2, 41, 42} \<Longrightarrow> sy_iscustomreloc y' = 1"
proof -
  define z where "z = (if er_sym r = s then fst (recognise y (er_type r)) else y)"
  have "essence y' = essence z"
    using scanOne_essence [of S r E] unfolding same_essence_def z_def y by (auto dest: spec [of _ s] split: if_splits)
  note f = essence_fields [OF this] and o = outer_essence [OF this]
  have z: "z = y \<or> z = y\<lparr>sy_iscustomreloc := 1\<rparr>" "er_sym r = s \<Longrightarrow> er_type r \<in> {1, 2, 41, 42} \<Longrightarrow> z = y\<lparr>sy_iscustomreloc := 1\<rparr>"
    using recognise_outer [of y "er_type r"] assms(1) by (auto simp: z_def y)
  have "outer_function z" using z(1) assms(1) by (auto simp: outer_function_def y)
  then show "outer_function y'" using o by simp
  show "sy_iscustomreloc y = 1 \<Longrightarrow> sy_iscustomreloc y' = 1" "sy_gnu_ifunc y' = sy_gnu_ifunc y" using z(1) f by auto
  show "sy_iscustomreloc y' = 1" if "er_sym r = s" "er_type r \<in> {1, 2, 41, 42}" using z(2) [OF that] f(2) by simp
qed

text \<open>The relocations the scan looks at; those consumed by a TLS sequence are left out.\<close>

function visited :: "scan_env \<Rightarrow> elf_rela list \<Rightarrow> scan_state \<Rightarrow> elf_rela list" where
  "visited E [] S = []"
| "visited E (r # rs) S = (case scanOne E r S of (skip, S') \<Rightarrow> r # visited E (drop skip rs) S')"
  by pat_completeness auto
termination
  by (relation "measure (\<lambda>(E, rs, S). length rs)") auto

lemma scan_outer:
  assumes "outer_function (sc_syms S s)"
  shows "outer_function (sc_syms (scan E rs S) s) \<and> sy_gnu_ifunc (sc_syms (scan E rs S) s) = sy_gnu_ifunc (sc_syms S s) \<and>
    (sy_iscustomreloc (sc_syms S s) = 1 \<or> (\<exists>r \<in> set (visited E rs S). er_sym r = s \<and> er_type r \<in> {1, 2, 41, 42}) \<longrightarrow>
      sy_iscustomreloc (sc_syms (scan E rs S) s) = 1)"
  using assms
proof (induction E rs S rule: scan.induct)
  case (2 E r rs S)
  obtain skip S' where 1: "scanOne E r S = (skip, S')" by fastforce
  note o = scanOne_outer [where E = E and r = r, OF "2.prems" refl refl, unfolded 1 snd_conv]
  show ?case using "2.IH" [OF 1 [symmetric] o(1)] o(2-4) by (auto simp: 1)
qed simp

section \<open>From the scan to the entries\<close>

text \<open>
  Steps that leave the symbol records alone, and steps for a symbol other than \<open>s\<close> that keep the record
  of \<open>s\<close> and the entries made so far.
\<close>

definition same_syms :: "link \<Rightarrow> link \<Rightarrow> bool" where
  "same_syms L L' \<longleftrightarrow> lk_syms L' = lk_syms L \<and> lk_next L' = lk_next L \<and> set (lk_fakeplt L) \<subseteq> set (lk_fakeplt L')"

lemma same_syms_refl [simp]: "same_syms L L"
  by (simp add: same_syms_def)

lemma same_syms_trans: "same_syms L L' \<Longrightarrow> same_syms L' L'' \<Longrightarrow> same_syms L L''"
  by (auto simp: same_syms_def)

lemma same_syms_if: "same_syms L A \<Longrightarrow> same_syms L B \<Longrightarrow> same_syms L (if c then A else B)"
  by simp

lemma same_syms_after:
  "same_syms L L' \<Longrightarrow> same_syms L (got_addConstant c L')" "same_syms L L' \<Longrightarrow> same_syms L (rela_dyn r L')"
  "same_syms L L' \<Longrightarrow> same_syms L (got_addEntry s L')" "same_syms L L' \<Longrightarrow> same_syms L (got_addTlsDescEntry s L')"
  "same_syms L L' \<Longrightarrow> same_syms L (got_addDynTlsEntry s L')" "same_syms L L' \<Longrightarrow> same_syms L (L'\<lparr>lk_ormask_offset := v\<rparr>)"
  "same_syms L L' \<Longrightarrow> same_syms L (L'\<lparr>lk_andmask_offset := v\<rparr>)" "same_syms L L' \<Longrightarrow> same_syms L (L'\<lparr>lk_relrdyn := xs\<rparr>)"
  "same_syms L L' \<Longrightarrow> same_syms L (addPltEntry s L')" "same_syms L L' \<Longrightarrow> same_syms L (addFakePltEntry s L')"
  "same_syms L L' \<Longrightarrow> same_syms L (allocateAux s L')" "same_syms L L' \<Longrightarrow> same_syms L (upd_aux s f L')"
  "same_syms L L' \<Longrightarrow> same_syms L (addIpltEntry C s L')"
  by (auto simp: same_syms_def addPltEntry_def addFakePltEntry_def addIpltEntry_def Let_def link_defs)

lemma same_syms_relative: "same_syms L (addRelativeReloc C off s L)"
  unfolding addRelativeReloc_def by (intro same_syms_if same_syms_after same_syms_refl)

lemma same_syms_got: "same_syms L (addGotEntry C s L)"
  unfolding addGotEntry_def Let_def
  by (intro same_syms_if same_syms_after same_syms_refl same_syms_trans [OF _ same_syms_relative])

lemma same_syms_tls: "same_syms L (scanTls C s flags L)"
  unfolding scanTls_def Let_def addTpOffsetGotEntry_def by (intro same_syms_if same_syms_after same_syms_refl)

lemma same_syms_entries: "same_syms L (scanEntries C s flags tmp L)"
  unfolding scanEntries_def Let_def by (intro same_syms_if same_syms_after same_syms_got same_syms_refl)

definition keeps_sym :: "symid \<Rightarrow> link \<Rightarrow> link \<Rightarrow> bool" where
  "keeps_sym s L L' \<longleftrightarrow> lk_syms L' s = lk_syms L s \<and> lk_next L \<le> lk_next L' \<and> set (lk_fakeplt L) \<subseteq> set (lk_fakeplt L')"

lemma keeps_sym_trans: "keeps_sym s L L' \<Longrightarrow> keeps_sym s L' L'' \<Longrightarrow> keeps_sym s L L''"
  by (auto simp: keeps_sym_def)

lemma same_keeps: "same_syms L L' \<Longrightarrow> keeps_sym s L L'"
  by (simp add: same_syms_def keeps_sym_def)

lemma keeps_upd: "t \<noteq> s \<Longrightarrow> keeps_sym s L (L\<lparr>lk_syms := (lk_syms L)(t := y)\<rparr>)"
  by (simp add: keeps_sym_def)

text \<open>The reservation of space for copied data leaves functions and PLT entries alone.\<close>

definition copies_data :: "link_cfg \<Rightarrow> bool" where
  "copies_data C \<longleftrightarrow> (\<forall>t L s. sy_func (lk_syms L s) \<longrightarrow> keeps_sym s L (cf_add_copy_rel C t L))"

lemma ifunc_keeps:
  assumes "handleNonPreemptibleIfunc C t flags L = (fin, L')" "t \<noteq> s" "s < lk_next L"
  shows "keeps_sym s L L'"
proof -
  define y where "y = (lk_syms L t)\<lparr>sy_in_iplt := True\<rparr>"
  define L1 where "L1 = L\<lparr>lk_syms := (lk_syms L)(t := y, lk_next L := y), lk_next := lk_next L + 1\<rparr>"
  define L2 where "L2 = addIpltEntry C (lk_next L) (allocateAux (lk_next L) L1)"
  define L3 where "L3 = upd_aux t (\<lambda>a. a\<lparr>a_plt := a_plt (lk_aux L2 (lk_next L))\<rparr>) (allocateAux t L2)"
  have 1: "keeps_sym s L L1" using assms(2,3) by (simp add: keeps_sym_def L1_def)
  have "same_syms L1 L3" unfolding L3_def L2_def by (intro same_syms_after same_syms_refl)
  then have 3: "keeps_sym s L L3" using keeps_sym_trans [OF 1 same_keeps] by blast
  have "L' = L \<or> L' = L3 \<or> (\<exists>z. L' = L3\<lparr>lk_syms := (lk_syms L3)(t := z)\<rparr> \<or> L' = addGotEntry C t (L3\<lparr>lk_syms := (lk_syms L3)(t := z)\<rparr>))"
    using assms(1) unfolding handleNonPreemptibleIfunc_def Let_def y_def [symmetric] L1_def [symmetric] L2_def [symmetric] L3_def [symmetric]
    by (auto split: if_splits)
  moreover have "keeps_sym s L (L3\<lparr>lk_syms := (lk_syms L3)(t := z)\<rparr>)" for z by (rule keeps_sym_trans [OF 3 keeps_upd [OF assms(2)]])
  moreover from this have "keeps_sym s L (addGotEntry C t (L3\<lparr>lk_syms := (lk_syms L3)(t := z)\<rparr>))" for z
    by (rule keeps_sym_trans [OF _ same_keeps [OF same_syms_got]])
  moreover have "keeps_sym s L L" by (simp add: keeps_sym_def)
  ultimately show ?thesis using 3 by blast
qed

lemma postScanSymbol_keeps:
  assumes "t \<noteq> s" "s < lk_next L" "copies_data C" "sy_func (lk_syms L s)"
  shows "keeps_sym s L (postScanSymbol C t L)"
proof -
  obtain fin L1 where 1: "handleNonPreemptibleIfunc C t (sy_flags (lk_syms L t)) L = (fin, L1)" by fastforce
  define tmp where "tmp = (custom_of L1 t = 1 \<and> \<not> has_flag (sy_flags (lk_syms L t)) NEEDS_PLT)"
  define flags where "flags = (if tmp then sy_flags (lk_syms L t) OR NEEDS_PLT else sy_flags (lk_syms L t))"
  define L2 where "L2 = (if tmp then L1\<lparr>lk_syms := (lk_syms L1)(t := (lk_syms L1 t)\<lparr>sy_flags := sy_flags (lk_syms L1 t) OR NEEDS_PLT\<rparr>)\<rparr> else L1)"
  define L4 where "L4 = scanEntries C t flags tmp (allocateAux t L2)"
  define L5 where "L5 = (if has_flag flags NEEDS_COPY
    then if sy_object (lk_syms L4 t) then cf_add_copy_rel C t L4 else canonicalPlt t L4 else L4)"
  define L6 where "L6 = (if sy_tls (lk_syms L5 t) then scanTls C t flags L5 else L5)"
  have run: "postScanSymbol C t L = (if fin then L1 else if \<not> needsDynReloc (lk_syms L2 t) \<and> custom_of L2 t < 2 then L2 else L6)"
    unfolding postScanSymbol_def 1 Let_def prod.case
    by (simp only: tmp_def [symmetric] flags_def [symmetric] L2_def [symmetric] L4_def [symmetric] L5_def [symmetric] L6_def [symmetric])
  have k1: "keeps_sym s L L1" by (rule ifunc_keeps [OF 1 assms(1,2)])
  have k2: "keeps_sym s L L2" unfolding L2_def using k1 keeps_sym_trans [OF k1 keeps_upd [OF assms(1)]] by simp
  have "same_syms L2 L4" unfolding L4_def by (rule same_syms_trans [OF _ same_syms_entries]) (intro same_syms_after same_syms_refl)
  then have k4: "keeps_sym s L L4" using keeps_sym_trans [OF k2 same_keeps] by blast
  then have "sy_func (lk_syms L4 s)" using assms(4) by (simp add: keeps_sym_def)
  then have "keeps_sym s L4 L5"
    using assms(1,3) unfolding L5_def copies_data_def by (auto simp: canonicalPlt_def Let_def keeps_sym_def)
  moreover have "keeps_sym s L5 L6" unfolding L6_def using same_keeps [OF same_syms_tls] by (simp add: keeps_sym_def)
  ultimately have "keeps_sym s L L6" using keeps_sym_trans [OF keeps_sym_trans [OF k4]] by blast
  then show ?thesis unfolding run using k1 k2 by simp
qed

lemma addFakePltEntry_in: "s \<in> set (lk_fakeplt (addFakePltEntry s L))"
  by (simp add: addFakePltEntry_def Let_def link_defs)

lemma scanEntries_fake:
  assumes "custom_of L s = 1"
  shows "s \<in> set (lk_fakeplt (scanEntries C s flags tmp L))"
proof -
  define L1 where "L1 = (if has_flag flags NEEDS_GOT then addGotEntry C s L else L)"
  have "same_syms L L1" unfolding L1_def by (intro same_syms_if same_syms_got same_syms_refl)
  then have "custom_of L1 s = 1" using assms by (simp add: same_syms_def)
  moreover have "same_syms (addFakePltEntry s L1) (addPltEntry s (addFakePltEntry s L1))" by (intro same_syms_after same_syms_refl)
  ultimately show ?thesis
    using addFakePltEntry_in [of s L1] unfolding scanEntries_def Let_def L1_def [symmetric] by (auto simp: same_syms_def)
qed

lemma needs_plt_dyn:
  assumes "has_flag (sy_flags y) NEEDS_PLT"
  shows "needsDynReloc y"
proof -
  have "sy_flags y AND 2 = (sy_flags y AND 0x1fb) AND 2" by (simp add: and.assoc)
  then have "sy_flags y AND 0x1fb \<noteq> 0" using assms by (auto simp: has_flag_def)
  then show ?thesis by (simp add: needsDynReloc_def has_flag_def)
qed

lemma has_flag_or: "b \<noteq> 0 \<Longrightarrow> has_flag (x OR b) b"
proof -
  have "(x OR b) AND b = b" by (rule bit_word_eqI) (auto simp: bit_or_iff bit_and_iff)
  then show "b \<noteq> 0 \<Longrightarrow> has_flag (x OR b) b" by (simp add: has_flag_def)
qed

lemma postScanSymbol_adds:
  assumes "custom_of L s = 1" "\<not> sy_gnu_ifunc (lk_syms L s) \<or> sy_preemptible (lk_syms L s)" "copies_data C" "sy_func (lk_syms L s)"
  shows "s \<in> set (lk_fakeplt (postScanSymbol C s L)) \<and> sy_func (lk_syms (postScanSymbol C s L) s) \<and> lk_next L \<le> lk_next (postScanSymbol C s L)"
proof -
  have 1: "handleNonPreemptibleIfunc C s (sy_flags (lk_syms L s)) L = (False, L)"
    using assms(2) by (auto simp: handleNonPreemptibleIfunc_def Let_def)
  define tmp where "tmp = (\<not> has_flag (sy_flags (lk_syms L s)) NEEDS_PLT)"
  define flags where "flags = (if tmp then sy_flags (lk_syms L s) OR NEEDS_PLT else sy_flags (lk_syms L s))"
  define L2 where "L2 = (if tmp then L\<lparr>lk_syms := (lk_syms L)(s := (lk_syms L s)\<lparr>sy_flags := sy_flags (lk_syms L s) OR NEEDS_PLT\<rparr>)\<rparr> else L)"
  define L4 where "L4 = scanEntries C s flags tmp (allocateAux s L2)"
  define L5 where "L5 = (if has_flag flags NEEDS_COPY
    then if sy_object (lk_syms L4 s) then cf_add_copy_rel C s L4 else canonicalPlt s L4 else L4)"
  define L6 where "L6 = (if sy_tls (lk_syms L5 s) then scanTls C s flags L5 else L5)"
  have c2: "custom_of L2 s = 1" "sy_func (lk_syms L2 s)" using assms(1,4) by (simp_all add: L2_def customreloc_type_def)
  have "has_flag (sy_flags (lk_syms L2 s)) NEEDS_PLT"
    by (simp add: L2_def tmp_def has_flag_or)
  then have "needsDynReloc (lk_syms L2 s)" by (rule needs_plt_dyn)
  then have run: "postScanSymbol C s L = L6"
    unfolding postScanSymbol_def 1 Let_def prod.case assms(1)
    by (simp only: simp_thms if_False tmp_def [symmetric] flags_def [symmetric] L2_def [symmetric] L4_def [symmetric] L5_def [symmetric] L6_def [symmetric])
  have "custom_of (allocateAux s L2) s = 1" using c2 by (simp add: allocateAux_def)
  then have "s \<in> set (lk_fakeplt L4)" unfolding L4_def by (rule scanEntries_fake)
  moreover have f4: "sy_func (lk_syms L4 s)" "lk_next L4 = lk_next L"
    using c2 same_syms_entries [of "allocateAux s L2" C s flags tmp] by (simp_all add: L4_def same_syms_def allocateAux_def L2_def)
  moreover have "set (lk_fakeplt L4) \<subseteq> set (lk_fakeplt L5) \<and> sy_func (lk_syms L5 s) \<and> lk_next L4 \<le> lk_next L5"
    using assms(3) f4(1) unfolding L5_def copies_data_def keeps_sym_def by (auto simp: canonicalPlt_def Let_def)
  moreover have "set (lk_fakeplt L5) \<subseteq> set (lk_fakeplt L6) \<and> lk_syms L6 = lk_syms L5 \<and> lk_next L6 = lk_next L5"
    unfolding L6_def using same_syms_tls [of L5 C s flags] by (simp add: same_syms_def)
  ultimately show ?thesis unfolding run by auto
qed

lemma fold_postScan_stays:
  assumes "s \<in> set (lk_fakeplt L)" "s \<notin> set syms" "s < lk_next L" "copies_data C" "sy_func (lk_syms L s)"
  shows "s \<in> set (lk_fakeplt (fold (postScanSymbol C) syms L))"
  using assms
proof (induction syms arbitrary: L)
  case (Cons t syms)
  then have k: "keeps_sym s L (postScanSymbol C t L)" by (intro postScanSymbol_keeps) auto
  have "s \<in> set (lk_fakeplt (fold (postScanSymbol C) syms (postScanSymbol C t L)))"
    by (rule Cons.IH) (use Cons.prems k in \<open>auto simp: keeps_sym_def\<close>)
  then show ?case by simp
qed simp

lemma fold_postScan_fake:
  assumes "s \<in> set syms" "distinct syms" "s < lk_next L" "custom_of L s = 1" "\<not> sy_gnu_ifunc (lk_syms L s) \<or> sy_preemptible (lk_syms L s)"
    and "copies_data C" "sy_func (lk_syms L s)"
  shows "s \<in> set (lk_fakeplt (fold (postScanSymbol C) syms L))"
  using assms
proof (induction syms arbitrary: L)
  case (Cons t syms)
  show ?case
  proof (cases "t = s")
    case True
    define L1 where "L1 = postScanSymbol C s L"
    have "s \<in> set (lk_fakeplt L1) \<and> sy_func (lk_syms L1 s) \<and> lk_next L \<le> lk_next L1"
      unfolding L1_def by (rule postScanSymbol_adds) (use Cons.prems in auto)
    then have "s \<in> set (lk_fakeplt (fold (postScanSymbol C) syms L1))"
      using Cons.prems True by (intro fold_postScan_stays) auto
    then show ?thesis using True by (simp add: L1_def)
  next
    case False
    note k = postScanSymbol_keeps [OF False Cons.prems(3,6,7), unfolded keeps_sym_def]
    have "s \<in> set (lk_fakeplt (fold (postScanSymbol C) syms (postScanSymbol C t L)))"
      by (rule Cons.IH) (use Cons.prems False k in auto)
    then show ?thesis by simp
  qed
qed simp

text \<open>The symbols after the scan, as \<open>postScanRelocations\<close> finds them.\<close>

definition link_of :: "scan_state \<Rightarrow> link \<Rightarrow> link" where
  "link_of S L = L\<lparr>lk_syms := (\<lambda>t. symbol.truncate (sc_syms S t))\<rparr>"

lemma truncate_fields [simp]:
  "sy_iscustomreloc (symbol.truncate y) = sy_iscustomreloc y" "sy_preemptible (symbol.truncate y) = sy_preemptible y"
  "sy_func (symbol.truncate y) = sy_func y" "sy_flags (symbol.truncate y) = sy_flags y" "sy_name (symbol.truncate y) = sy_name y"
  by (simp_all add: symbol.truncate_def)

lemma postScanRelocations_fold:
  "\<exists>L1. postScanRelocations C syms L = fold (postScanSymbol C) syms L1 \<and> same_syms L L1"
proof -
  obtain added L1 where 1: "(if cf_needs_tls_ld C then got_addTlsIndex L else (False, L)) = (added, L1)" by fastforce
  have u: "same_syms L L1" using 1 by (auto simp: got_addTlsIndex_def same_syms_def split: if_splits)
  show ?thesis
    unfolding postScanRelocations_def 1 Let_def prod.case
    by (rule exI, rule conjI [OF refl]) (intro same_syms_if same_syms_after u)
qed

text \<open>
  Every function of another object whose address is taken gets an entry in \<open>.fakeplt\<close>.  When the
  scan of an input section looks at a relocation of one of the types 64, PC32, GOTPCRELX or
  REX_GOTPCRELX against such a function, then, whatever other relocations the section has and
  whatever other symbols are processed, the function has an entry in \<open>.fakeplt\<close> in the end.
\<close>

lemma address_taken_entry:
  assumes "outer_function (sc_syms S s)" "r \<in> set (visited E rs S)" "er_sym r = s" "er_type r \<in> {1, 2, 41, 42}"
    and "s \<in> set syms" "distinct syms" "s < lk_next L" "copies_data C"
  shows "s \<in> set (lk_fakeplt (postScanRelocations C syms (link_of (scan E rs S) L)))"
proof -
  define y where "y = sc_syms (scan E rs S) s"
  have y: "outer_function y" "sy_iscustomreloc y = 1" using scan_outer [OF assms(1), of E rs] assms(2-4) by (auto simp: y_def)
  obtain L1 where L1: "postScanRelocations C syms (link_of (scan E rs S) L) = fold (postScanSymbol C) syms L1"
      "same_syms (link_of (scan E rs S) L) L1"
    using postScanRelocations_fold by blast
  then have "lk_syms L1 s = symbol.truncate y" "lk_next L1 = lk_next L" by (simp_all add: same_syms_def link_of_def y_def)
  then show ?thesis
    unfolding L1(1) using assms(5-8) y by (intro fold_postScan_fake) (auto simp: outer_function_def customreloc_type_def)
qed

definition demo_scan_sym :: "string \<Rightarrow> scan_sym" where
  "demo_scan_sym nm = \<lparr>sy_name = nm, sy_iscustomreloc = 0, sy_flags = 0, sy_preemptible = True, sy_defined = False,
     sy_func = True, sy_object = False, sy_tls = False, sy_gnu_ifunc = False, sy_absolute = False, sy_in_iplt = False,
     sy_got_in_igot = False, sy_canonical = None, y_undefined = False, y_weak = False, y_local = False, y_default_visible = True,
     y_version_suffix = False, y_shared = True, y_dso_protected = False, y_script_defined = False, y_exported = False\<rparr>"

definition demo_scan_env :: scan_env where
  "demo_scan_env = \<lparr>se_pic = True, se_shared = True, se_ifunc_noplt = False, se_relax = True, se_ztext = True, se_copyreloc = True,
     se_ignore_function_equality = False, se_ignore_data_equality = False, se_write_addends = False, se_relr = False, se_noinhibit = False,
     se_unresolved = Report_Error, se_adjust_tls = (\<lambda>t e. e), se_low_page_bits = (\<lambda>t. False), se_content = (\<lambda>a. 0x8b), se_offset = (\<lambda>a. a),
     se_writable = False, se_even_aligned = True, se_eh = False\<rparr>"

definition demo_scan_state :: scan_state where
  "demo_scan_state = \<lparr>sc_syms = (\<lambda>s. demo_scan_sym (if s = 0 then ''puts'' else if s = 1 then ''qsort'' else ''f_0x1234_1337'')), sc_relocs = [], sc_dyn = [],
     sc_relr = [], sc_gotplt_off = False, sc_got_off = False, sc_tls_ld = False, sc_tls_ie = False, sc_errors = []\<rparr>"

text \<open>
  C35: The address of a function taken through a plain GOTPCREL relocation is not recognised.  The scan
  leaves the function unmarked and only asks for a GOT entry, whose relocation has the loader store
  the address of the function itself instead of that of a masking entry.
\<close>

theorem gotpcrel_not_recognised:
  assumes y: "y = sc_syms S (er_sym r)" "outer_function y" "sy_iscustomreloc y = 0" "\<not> starts_with ''__libc_start_main'' (sy_name y)"
    and "\<not> y_undefined y" "\<not> sy_tls y" "\<not> sy_gnu_ifunc y" "er_type r = 9" "se_offset E (er_offset r) \<noteq> - 1"
    and L': "L' = addGotEntry C (er_sym r) (link_of (snd (scanOne E r S)) L)"
  shows "sy_iscustomreloc (sc_syms (snd (scanOne E r S)) (er_sym r)) = 0 \<and>
    has_flag (sy_flags (sc_syms (snd (scanOne E r S)) (er_sym r))) NEEDS_GOT \<and>
    (\<exists>off. lk_reladyn L' = lk_reladyn L @ [against gotRel off (er_sym r)])"
proof -
  have n: "\<not> starts_with ''or_mask'' (sy_name y)" "\<not> starts_with ''and_mask'' (sy_name y)" "\<not> starts_with ''cccallback_table'' (sy_name y)"
    "sy_preemptible y" "sy_func y"
    using y(2) by (simp_all add: outer_function_def)
  have "recognise y 9 = (y, 9)" using n y(4) by (simp add: recognise_def mark_masks_def mark_functions_def)
  then have r: "recognise (sc_syms S (er_sym r)) (er_type r) = (y, 9)" using y(1) assms(8) by simp
  have g: "getRelExpr 9 = (RE_GOT_PC, True)" by (simp add: getRelExpr_def)
  have ct: "customreloc_type y = 0" using y(3) by (simp add: customreloc_type_def)
  have u: "S\<lparr>sc_syms := (sc_syms S)(er_sym r := y)\<rparr> = S" using y(1) by simp
  have "snd (scanOne E r S) = processAux E RE_GOT_PC 9 (se_offset E (er_offset r)) (er_sym r) (er_addend r) S"
    using assms(5,6,9) unfolding scanOne_def Let_def r prod.case u g ct by simp
  also have "\<dots> = sec_addReloc \<lparr>ir_expr = RE_GOT_PC, ir_type = 9, ir_offset = se_offset E (er_offset r), ir_addend = er_addend r, ir_sym = er_sym r\<rparr>
      (setFlags (er_sym r) (NEEDS_GOT OR NEEDS_GOT_NONAUTH) S)"
    using assms(7) n(4) unfolding processAux_def Let_def y(1) [symmetric]
    by (simp add: direct_expr_def demand_def needsGot_def isStaticLinkTimeConstant_def)
  finally have e: "sc_syms (snd (scanOne E r S)) = (sc_syms S)(er_sym r := y\<lparr>sy_flags := sy_flags y OR 0x401\<rparr>)"
    by (simp add: sec_addReloc_def setFlags_def y(1))
  have "(sy_flags y OR 0x401) AND 1 = 1" by (rule bit_word_eqI) (auto simp: bit_simps)
  moreover have "\<exists>off. lk_reladyn L' = lk_reladyn L @ [against gotRel off (er_sym r)]"
    unfolding L' addGotEntry_def Let_def using n(4) y(3) by (simp add: link_of_def e customreloc_type_def link_defs) blast
  ultimately show ?thesis using y(3) by (simp add: e has_flag_def)
qed

theorem gotpcrel_not_recognised_witness:
  "let r = \<lparr>er_offset = 0x20, er_type = 9, er_symindex = 2, er_sym = 1, er_addend = - 4\<rparr>; S' = snd (scanOne demo_scan_env r demo_scan_state) in
    sy_iscustomreloc (sc_syms S' 1) = 0 \<and> has_flag (sy_flags (sc_syms S' 1)) NEEDS_GOT \<and>
    (\<exists>off. lk_reladyn (addGotEntry demo_link_cfg 1 (link_of S' demo_link)) = [against gotRel off 1])"
proof -
  let ?r = "\<lparr>er_offset = 0x20, er_type = 9, er_symindex = 2, er_sym = 1, er_addend = - 4\<rparr> :: elf_rela"
  have "outer_function (demo_scan_sym ''qsort'')" by (simp add: outer_function_def demo_scan_sym_def starts_with_def)
  then show ?thesis
    using gotpcrel_not_recognised [of "demo_scan_sym ''qsort''" demo_scan_state ?r demo_scan_env _ demo_link_cfg demo_link, OF _ _ _ _ _ _ _ _ _ refl]
    by (simp add: Let_def demo_scan_state_def demo_scan_sym_def demo_scan_env_def starts_with_def demo_link_def)
qed

section \<open>Offsets in names\<close>

fun hex_digits :: "nat \<Rightarrow> string" where
  "hex_digits n = (if n < 16 then [''0123456789abcdef'' ! n] else hex_digits (n div 16) @ [''0123456789abcdef'' ! (n mod 16)])"

declare hex_digits.simps [simp del]

lemma hex_char: "n < 16 \<Longrightarrow> digit_val (''0123456789abcdef'' ! n) = Some n \<and> ''0123456789abcdef'' ! n \<noteq> CHR ''_''"
proof -
  have "\<forall>n \<in> set [0..<16]. digit_val (''0123456789abcdef'' ! n) = Some n \<and> ''0123456789abcdef'' ! n \<noteq> CHR ''_''" by code_simp
  then show "n < 16 \<Longrightarrow> ?thesis" by simp
qed

lemma hex_digits_chars: "c \<in> set (hex_digits n) \<Longrightarrow> is_digit 16 c \<and> c \<noteq> CHR ''_''"
proof (induction n rule: hex_digits.induct)
  case (1 n)
  show ?case
  proof (cases "n < 16")
    case True
    then show ?thesis using "1.prems" hex_char [of n] by (subst (asm) hex_digits.simps) (auto simp: is_digit_def)
  next
    case False
    then show ?thesis
      using "1.prems" "1.IH" hex_char [of "n mod 16"] by (subst (asm) hex_digits.simps) (auto simp: is_digit_def)
  qed
qed

lemma foldl_hex: "foldl (\<lambda>acc c. acc * 16 + the (digit_val c)) 0 (hex_digits n) = n"
proof (induction n rule: hex_digits.induct)
  case (1 n)
  show ?case
  proof (cases "n < 16")
    case True
    then show ?thesis using hex_char [of n] by (subst hex_digits.simps) simp
  next
    case False
    then show ?thesis using "1.IH" hex_char [of "n mod 16"] by (subst hex_digits.simps) simp
  qed
qed

lemma number_of_hex: "number_of 16 (hex_digits n) = n"
proof -
  have "takeWhile (is_digit 16) (hex_digits n) = hex_digits n" using hex_digits_chars by auto
  then show ?thesis by (simp only: number_of_def foldl_hex)
qed

definition hex_text :: "nat \<Rightarrow> string" where
  "hex_text n = ''0x'' @ hex_digits n"

lemma strtol_hex: "n < 2 ^ 63 \<Longrightarrow> strtol (hex_text n) = int n"
proof -
  assume n: "n < 2 ^ 63"
  obtain c cs where h: "hex_digits n = c # cs" by (cases "hex_digits n") (auto simp: hex_digits.simps [of n] split: if_splits)
  then have d: "is_digit 16 c" using hex_digits_chars [of c n] by simp
  have "magnitude0 (hex_text n) = n"
    using d number_of_hex [of n] unfolding magnitude0_def hex_text_def h by simp
  moreover have "dropWhile is_space (hex_text n) = hex_text n" "take 1 (hex_text n) = ''0''" by (simp_all add: hex_text_def is_space_def)
  ultimately show ?thesis using n by (simp add: strtol_def Let_def)
qed

lemma takeWhile_sep: "CHR ''_'' \<notin> set xs \<Longrightarrow> takeWhile (\<lambda>c. c \<noteq> CHR ''_'') (xs @ CHR ''_'' # ys) = xs"
  by (induction xs) auto

end
