(* ===== verification/Linker_Dynrel.thy ===== *)
theory Linker_Dynrel
  imports Linker_Scan "HOL-Library.Product_Lexorder" "HOL-Library.Multiset"
begin

text \<open>
  The last step of the linker (\<open>src/llvm-platypus/lld/ELF\<close>): the value of an input relocation
  (\<open>InputSection.cpp\<close>: \<open>getRelocTargetVA\<close>, \<open>getTlsTpOffset\<close>; \<open>Symbols.cpp\<close>: \<open>getSymVA\<close>, \<open>getVA\<close>), and the
  dynamic relocations as they are written to the output file (\<open>SyntheticSections.cpp\<close>: \<open>DynamicReloc\<close>
  and \<open>RelocationBaseSection\<close>, with \<open>computeRaw\<close>, which redirects pointers to functions of other
  objects to their entries in \<open>.fakeplt\<close>, and \<open>computeRels\<close>, which orders the table for the loader).
\<close>

section \<open>Addresses of symbols\<close>

text \<open>
  Where a symbol is: an absolute value; a section, given by the address of each of its offsets, with
  the value of the symbol and whether it is the section symbol; or not in this output.  A TLS symbol
  without TLS segment, which the linker reports as an error, has address 0.
\<close>

datatype sym_place = Place_Absolute u64 | Place_Section "u64 \<Rightarrow> u64" u64 bool | Place_Shared | Place_Undefined

record tls_phdr =
  tp_vaddr :: u64
  tp_memsz :: u64
  tp_align :: u64
  tp_first_sec :: u64

record va_env =
  ve_layout :: layout
  ve_place :: "symid \<Rightarrow> sym_place"
  ve_size :: "symid \<Rightarrow> u64"
  ve_tls :: "tls_phdr option"
  ve_tls_module_base :: "symid option"
  ve_input :: "nat \<Rightarrow> u64 \<Rightarrow> u64"
  ve_dynsym_index :: "symid \<Rightarrow> u32"

definition getSymVA :: "va_env \<Rightarrow> link \<Rightarrow> symid \<Rightarrow> u64 \<Rightarrow> u64" where
  "getSymVA V L s addend =
    (case ve_place V s of
       Place_Absolute v \<Rightarrow> v
     | Place_Section sec v isSection \<Rightarrow>
         let offset = (if isSection then v + addend else v);
             va = sec offset;
             va = (if isSection then va - addend else va)
         in if sy_tls (lk_syms L s) then (case ve_tls V of None \<Rightarrow> 0 | Some t \<Rightarrow> va - tp_first_sec t) else va
     | Place_Shared \<Rightarrow> 0
     | Place_Undefined \<Rightarrow> 0)"

definition getVA :: "va_env \<Rightarrow> link \<Rightarrow> symid \<Rightarrow> u64 \<Rightarrow> u64" where
  "getVA V L s addend = getSymVA V L s addend + addend"

definition getTlsTpOffset :: "va_env \<Rightarrow> link \<Rightarrow> symid \<Rightarrow> u64" where
  "getTlsTpOffset V L s =
    (if ve_tls_module_base V = Some s then 0
     else case ve_tls V of
       None \<Rightarrow> 0
     | Some t \<Rightarrow> getVA V L s 0 - tp_memsz t - ((- tp_vaddr t - tp_memsz t) AND (tp_align t - 1)))"

definition getTlsDescAddr :: "va_env \<Rightarrow> link \<Rightarrow> symid \<Rightarrow> u64" where
  "getTlsDescAddr V L s = la_got (ve_layout V) + ucast (a_tlsdesc (lk_aux L s) * 8)"

definition getGlobalDynAddr :: "va_env \<Rightarrow> link \<Rightarrow> symid \<Rightarrow> u64" where
  "getGlobalDynAddr V L s = la_got (ve_layout V) + ucast (a_tlsgd (lk_aux L s) * 8)"

fun undefined_place :: "sym_place \<Rightarrow> bool" where
  "undefined_place Place_Undefined = True"
| "undefined_place _ = False"

text \<open>The address of the entry calls and pointers use for a symbol.\<close>

definition plt_target :: "va_env \<Rightarrow> link \<Rightarrow> symid \<Rightarrow> u64" where
  "plt_target V L s = (if custom_of L s AND 1 \<noteq> 0 then getFakePltVA (ve_layout V) L s else getPltVA (ve_layout V) L s)"

text \<open>The value of an input relocation at address \<open>p\<close>; \<open>None\<close> for expressions that have no value.\<close>

definition getRelocTargetVA :: "va_env \<Rightarrow> link \<Rightarrow> rel_expr \<Rightarrow> u64 \<Rightarrow> symid \<Rightarrow> u64 \<Rightarrow> u64 option" where
  "getRelocTargetVA V L expr a s p =
    (let A = ve_layout V in
     case expr of
       RE_ABS \<Rightarrow> Some (getVA V L s a)
     | RE_DTPREL \<Rightarrow> Some (getVA V L s a)
     | RE_RELAX_GOT_PC_NOPIC \<Rightarrow> Some (getVA V L s a)
     | RE_ADDEND \<Rightarrow> Some a
     | RE_GOT \<Rightarrow> Some (getGotVA A L s + a)
     | RE_GOTPLTONLY_PC \<Rightarrow> Some (la_gotplt A + a - p)
     | RE_GOTPLTREL \<Rightarrow> Some (getVA V L s a - la_gotplt A)
     | RE_GOTPLT \<Rightarrow> Some (getGotVA A L s + a - la_gotplt A)
     | RE_GOT_PC \<Rightarrow> Some (getGotVA A L s + a - p)
     | RE_RELAX_TLS_GD_TO_IE \<Rightarrow> Some (getGotVA A L s + a - p)
     | RE_PC \<Rightarrow> Some (getVA V L s a - p)
     | RE_PLT \<Rightarrow> Some (plt_target V L s + a)
     | RE_PLT_PC \<Rightarrow> Some (plt_target V L s + a - p)
     | RE_PLT_GOTPLT \<Rightarrow> Some (plt_target V L s + a - la_gotplt A)
     | RE_RELAX_GOT_PC \<Rightarrow> Some (getVA V L s a - p)
     | RE_RELAX_TLS_GD_TO_LE \<Rightarrow> Some (if undefined_place (ve_place V s) then a else getTlsTpOffset V L s + a)
     | RE_RELAX_TLS_IE_TO_LE \<Rightarrow> Some (if undefined_place (ve_place V s) then a else getTlsTpOffset V L s + a)
     | RE_RELAX_TLS_LD_TO_LE \<Rightarrow> Some (if undefined_place (ve_place V s) then a else getTlsTpOffset V L s + a)
     | RE_TPREL \<Rightarrow> Some (if undefined_place (ve_place V s) then a else getTlsTpOffset V L s + a)
     | RE_SIZE \<Rightarrow> Some (ve_size V s + a)
     | RE_TLSDESC_PC \<Rightarrow> Some (getTlsDescAddr V L s + a - p)
     | RE_TLSGD_PC \<Rightarrow> Some (getGlobalDynAddr V L s + a - p)
     | RE_TLSLD_PC \<Rightarrow> Some (la_got A + ucast (lk_tls_index_off L) + a - p)
     | RE_NONE \<Rightarrow> None
     | RE_TLSDESC_CALL \<Rightarrow> None)"

section \<open>Dynamic relocations\<close>

text \<open>
  A relocation stands in one of the linker's own sections or in an input section.  The field
  \<open>dn_r_sym\<close> is the member \<open>r_sym\<close>, which the constructors leave as the memory was.
\<close>

datatype reloc_section = Synthetic out_section | Input_Section nat

record dynamic_reloc =
  dn_type :: u32
  dn_section :: reloc_section
  dn_offset :: u64
  dn_kind :: reloc_kind
  dn_sym :: "symid option"
  dn_addend :: u64
  dn_expr :: rel_expr
  dn_r_sym :: u32

text \<open>The relocations made for table entries, and those made by the scan of an input section.\<close>

definition of_dynrel :: "u32 \<Rightarrow> dynrel \<Rightarrow> dynamic_reloc" where
  "of_dynrel mem r = \<lparr>dn_type = dr_type r, dn_section = Synthetic (dr_section r), dn_offset = dr_offset r, dn_kind = dr_kind r,
     dn_sym = dr_sym r, dn_addend = dr_addend r, dn_expr = (if dr_kind r = AddendOnlyWithTargetVA then RE_ABS else RE_ADDEND), dn_r_sym = mem\<rparr>"

definition of_dyn_input :: "nat \<Rightarrow> u32 \<Rightarrow> dyn_input \<Rightarrow> dynamic_reloc" where
  "of_dyn_input sec mem r = \<lparr>dn_type = di_type r, dn_section = Input_Section sec, dn_offset = di_offset r, dn_kind = di_kind r,
     dn_sym = Some (di_sym r), dn_addend = di_addend r, dn_expr = di_expr r, dn_r_sym = mem\<rparr>"

fun getOffset :: "va_env \<Rightarrow> reloc_section \<Rightarrow> u64 \<Rightarrow> u64" where
  "getOffset V (Synthetic Sec_Got) off = la_got (ve_layout V) + off"
| "getOffset V (Synthetic Sec_GotPlt) off = la_gotplt (ve_layout V) + off"
| "getOffset V (Synthetic Sec_IgotPlt) off = la_igotplt (ve_layout V) + off"
| "getOffset V (Input_Section i) off = ve_input V i off"

definition computeAddend :: "va_env \<Rightarrow> link \<Rightarrow> dynamic_reloc \<Rightarrow> u64 option" where
  "computeAddend V L r =
    (case dn_kind r of
       AddendOnly \<Rightarrow> Some (dn_addend r)
     | AgainstSymbol \<Rightarrow> Some (dn_addend r)
     | AddendOnlyWithTargetVA \<Rightarrow>
         (case dn_sym r of
            None \<Rightarrow> None
          | Some s \<Rightarrow> getRelocTargetVA V L (dn_expr r) (dn_addend r) s (getOffset V (dn_section r) (dn_offset r))))"

definition getSymIndex :: "va_env \<Rightarrow> link \<Rightarrow> dynamic_reloc \<Rightarrow> u32" where
  "getSymIndex V L r =
    (if dn_kind r \<noteq> AgainstSymbol then 0
     else case dn_sym r of
       None \<Rightarrow> 0
     | Some s \<Rightarrow>
         let nm = sy_name (lk_syms L s) in
         if starts_with ''or_mask'' nm \<or> starts_with ''and_mask'' nm then 0 else ve_dynsym_index V s)"

text \<open>An entry of the written table.\<close>

record raw_rel =
  rr_offset :: u64
  rr_type :: u32
  rr_sym :: u32
  rr_addend :: u64

text \<open>The distance of the first entry of \<open>.fakeplt\<close> for a symbol of this name.\<close>

fun fakeplt_offset :: "link \<Rightarrow> string \<Rightarrow> symid list \<Rightarrow> u64 \<Rightarrow> u64 option" where
  "fakeplt_offset L nm [] pltOffset = None"
| "fakeplt_offset L nm (s # ss) pltOffset =
    (if sy_name (lk_syms L s) = nm then Some pltOffset else fakeplt_offset L nm ss (pltOffset + 32))"

text \<open>\<open>None\<close> where the linker exits.\<close>

definition computeRaw :: "va_env \<Rightarrow> link \<Rightarrow> bool \<Rightarrow> dynamic_reloc \<Rightarrow> raw_rel option" where
  "computeRaw V L reladyn r =
    (let raw = (\<lambda>sym addend. \<lparr>rr_offset = getOffset V (dn_section r) (dn_offset r), rr_type = dn_type r, rr_sym = sym, rr_addend = addend\<rparr>);
         index = getSymIndex V L r;
         general = map_option (raw index) (computeAddend V L r)
     in case dn_sym r of
          None \<Rightarrow> general
        | Some s \<Rightarrow>
            let ct = custom_of L s; nm = sy_name (lk_syms L s) in
            if \<not> reladyn then general
            else if ct AND 1 \<noteq> 0
            then map_option (\<lambda>pltOffset. raw 0 (pltOffset + la_fakeplt (ve_layout V))) (fakeplt_offset L nm (lk_fakeplt L) 0)
            else if ct = 2 then Some (raw index 0)
            else if ct = 4 then Some (raw index (ucast (drop_bit 8 (sy_iscustomreloc (lk_syms L s) AND 0xffffff00))))
            else if ct = 6 then Some (raw (dn_r_sym r) 0)
            else if starts_with ''_DYNAMIC'' nm then Some (raw index 0)
            else if ct = 10 then Some (raw index 0)
            else general)"

section \<open>The table\<close>

text \<open>The relocations found by each thread, appended in the order of the threads.\<close>

definition mergeRels :: "dynamic_reloc list \<Rightarrow> dynamic_reloc list list \<Rightarrow> dynamic_reloc list" where
  "mergeRels relocs relocsVec = relocs @ concat relocsVec"

definition stable_partition :: "('a \<Rightarrow> bool) \<Rightarrow> 'a list \<Rightarrow> nat \<times> 'a list" where
  "stable_partition P xs = (length (filter P xs), filter P xs @ filter (\<lambda>x. \<not> P x) xs)"

text \<open>The number of relative relocations and the relocations with these first.\<close>

definition partitionRels :: "bool \<Rightarrow> dynamic_reloc list \<Rightarrow> nat \<times> dynamic_reloc list" where
  "partitionRels combreloc relocs =
    (if \<not> combreloc then (0, relocs) else stable_partition (\<lambda>r. dn_type r = relativeRel) relocs)"

fun computeAll :: "va_env \<Rightarrow> link \<Rightarrow> bool \<Rightarrow> dynamic_reloc list \<Rightarrow> raw_rel list option" where
  "computeAll V L reladyn [] = Some []"
| "computeAll V L reladyn (r # rs) =
    (case computeRaw V L reladyn r of
       None \<Rightarrow> None
     | Some x \<Rightarrow> map_option (\<lambda>xs. x # xs) (computeAll V L reladyn rs))"

text \<open>
  Both sorts leave entries that compare equal in their order, one of the results the unstable sorts of
  the library allow.
\<close>

definition computeRels :: "va_env \<Rightarrow> link \<Rightarrow> string \<Rightarrow> bool \<Rightarrow> nat \<Rightarrow> dynamic_reloc list \<Rightarrow> raw_rel list option" where
  "computeRels V L name combreloc numRelativeRelocs relocs =
    (case computeAll V L (name = ''.rela.dyn'') relocs of
       None \<Rightarrow> None
     | Some xs \<Rightarrow>
         let (irelative, rest) = stable_partition (\<lambda>r. rr_type r \<noteq> iRelativeRel) (drop numRelativeRelocs xs)
         in Some (if combreloc
                  then sort_key rr_offset (take numRelativeRelocs xs) @
                    sort_key (\<lambda>r. (rr_sym r, rr_offset r)) (take irelative rest) @ drop irelative rest
                  else take numRelativeRelocs xs @ rest))"

definition write_rela :: "raw_rel \<Rightarrow> u8 list" where
  "write_rela r = le64 (rr_offset r) @ le64 (push_bit 32 (ucast (rr_sym r)) + ucast (rr_type r)) @ le64 (rr_addend r)"

lemma length_write_rela [simp]: "length (write_rela r) = 24"
  by (simp add: write_rela_def)

lemma length_concat_rela: "length (concat (map write_rela xs)) = 24 * length xs"
  by (induction xs) simp_all

text \<open>The contents of a relocation section.\<close>

definition RelocationSection_writeTo :: "va_env \<Rightarrow> link \<Rightarrow> string \<Rightarrow> bool \<Rightarrow> nat \<Rightarrow> dynamic_reloc list \<Rightarrow> u8 list option" where
  "RelocationSection_writeTo V L name combreloc numRelativeRelocs relocs =
    map_option (\<lambda>xs. concat (map write_rela xs)) (computeRels V L name combreloc numRelativeRelocs relocs)"

section \<open>Order of the written table\<close>

lemma computeRaw_fields:
  "computeRaw V L b r = Some x \<Longrightarrow> rr_type x = dn_type r \<and> rr_offset x = getOffset V (dn_section r) (dn_offset r)"
  unfolding computeRaw_def Let_def by (auto split: option.splits if_splits)

lemma computeAll_Some_iff: "computeAll V L b rs = Some xs \<longleftrightarrow> list_all2 (\<lambda>r x. computeRaw V L b r = Some x) rs xs"
  by (induction rs arbitrary: xs) (auto simp: list_all2_Cons1 split: option.splits)

lemma computeAll_types: "computeAll V L b rs = Some xs \<Longrightarrow> map rr_type xs = map dn_type rs"
  unfolding computeAll_Some_iff by (induction rule: list_all2_induct) (auto dest: computeRaw_fields)

lemma computeAll_append:
  "computeAll V L b (rs @ rs') = Some xs \<longleftrightarrow> (\<exists>ys zs. xs = ys @ zs \<and> computeAll V L b rs = Some ys \<and> computeAll V L b rs' = Some zs)"
  unfolding computeAll_Some_iff list_all2_append1 by (metis list_all2_lengthD)

lemma computeAll_filter:
  "computeAll V L b (filter P rs @ filter (\<lambda>r. \<not> P r) rs) = Some xs \<Longrightarrow> \<exists>raws. computeAll V L b rs = Some raws \<and> mset raws = mset xs"
proof (induction rs arbitrary: xs)
  case Nil
  then show ?case by simp
next
  case (Cons r rs)
  obtain ys zs where xs: "xs = ys @ zs" "computeAll V L b (filter P (r # rs)) = Some ys" "computeAll V L b (filter (\<lambda>r. \<not> P r) (r # rs)) = Some zs"
    using Cons.prems unfolding computeAll_append by blast
  show ?case
  proof (cases "P r")
    case True
    then obtain y ys' where y: "ys = y # ys'" "computeRaw V L b r = Some y" "computeAll V L b (filter P rs) = Some ys'"
      using xs(2) by (auto split: option.splits)
    have "computeAll V L b (filter P rs @ filter (\<lambda>r. \<not> P r) rs) = Some (ys' @ zs)"
      using y(3) xs(3) True unfolding computeAll_append by auto
    from Cons.IH [OF this] obtain raws where "computeAll V L b rs = Some raws" "mset raws = mset (ys' @ zs)" by blast
    then show ?thesis using y xs(1) by auto
  next
    case False
    then obtain z zs' where z: "zs = z # zs'" "computeRaw V L b r = Some z" "computeAll V L b (filter (\<lambda>r. \<not> P r) rs) = Some zs'"
      using xs(3) by (auto split: option.splits)
    have "computeAll V L b (filter P rs @ filter (\<lambda>r. \<not> P r) rs) = Some (ys @ zs')"
      using z(3) xs(2) False unfolding computeAll_append by auto
    from Cons.IH [OF this] obtain raws where "computeAll V L b rs = Some raws" "mset raws = mset (ys @ zs')" by blast
    then show ?thesis using z xs(1) by auto
  qed
qed

text \<open>The three parts of a table: relative entries by offset, others by symbol and offset, indirect ones last.\<close>

definition rela_parts :: "nat \<Rightarrow> nat \<Rightarrow> raw_rel list \<Rightarrow> bool" where
  "rela_parts n m ys \<longleftrightarrow> n \<le> m \<and> m \<le> length ys \<and>
    sorted (map rr_offset (take n ys)) \<and> sorted (map (\<lambda>r. (rr_sym r, rr_offset r)) (take (m - n) (drop n ys))) \<and>
    (\<forall>k < length ys. (rr_type (ys ! k) = relativeRel \<longleftrightarrow> k < n) \<and> (rr_type (ys ! k) = iRelativeRel \<longleftrightarrow> m \<le> k))"

lemma rela_partsI:
  assumes "\<forall>r \<in> set as. rr_type r = relativeRel" "\<forall>r \<in> set bs. rr_type r \<noteq> relativeRel \<and> rr_type r \<noteq> iRelativeRel"
    and "\<forall>r \<in> set cs. rr_type r = iRelativeRel"
    and "sorted (map rr_offset as)" "sorted (map (\<lambda>r. (rr_sym r, rr_offset r)) bs)"
  shows "rela_parts (length as) (length as + length bs) (as @ bs @ cs)"
proof -
  have "(rr_type ((as @ bs @ cs) ! k) = relativeRel \<longleftrightarrow> k < length as) \<and> (rr_type ((as @ bs @ cs) ! k) = iRelativeRel \<longleftrightarrow> length as + length bs \<le> k)"
    if "k < length (as @ bs @ cs)" for k
  proof (cases "k < length as")
    case True
    then show ?thesis using assms(1) by (simp add: nth_append)
  next
    case False
    then show ?thesis using assms(2,3) that by (cases "k < length as + length bs") (auto simp: nth_append not_less less_diff_conv2)
  qed
  then show ?thesis using assms(4,5) by (simp add: rela_parts_def)
qed

text \<open>
  C16: The written table has the shape the loader relies on.  It is the relocations collected, each
  computed once, with the relative ones first, as many as the linker reports in the dynamic section
  and by increasing offset, then the others by symbol and offset, and the indirect relative ones,
  whose resolvers may use everything else, last.
\<close>

theorem rela_table_ordered:
  assumes "partitionRels True relocs = (n, rs)" "computeRels V L name True n rs = Some ys"
  shows "(\<exists>raws. computeAll V L (name = ''.rela.dyn'') relocs = Some raws \<and> mset ys = mset raws) \<and> (\<exists>m. rela_parts n m ys)"
proof -
  define P where "P = (\<lambda>r :: dynamic_reloc. dn_type r = relativeRel)"
  define I where "I = (\<lambda>r :: raw_rel. rr_type r \<noteq> iRelativeRel)"
  have p: "n = length (filter P relocs)" "rs = filter P relocs @ filter (\<lambda>r. \<not> P r) relocs"
    using assms(1) by (auto simp: partitionRels_def stable_partition_def P_def)
  obtain xs where xs: "computeAll V L (name = ''.rela.dyn'') rs = Some xs"
    using assms(2) unfolding computeRels_def by (auto split: option.splits)
  obtain as bs where ab: "xs = as @ bs" "computeAll V L (name = ''.rela.dyn'') (filter P relocs) = Some as"
      "computeAll V L (name = ''.rela.dyn'') (filter (\<lambda>r. \<not> P r) relocs) = Some bs"
    using xs unfolding p(2) computeAll_append by blast
  have t: "map rr_type as = map dn_type (filter P relocs)" "map rr_type bs = map dn_type (filter (\<lambda>r. \<not> P r) relocs)"
    using ab(2,3) by (auto dest: computeAll_types)
  have n: "length as = n" using t(1) p(1) by (metis length_map)
  have ta: "\<forall>r \<in> set as. rr_type r = relativeRel"
  proof -
    have "set (map rr_type as) \<subseteq> {relativeRel}" unfolding t(1) by (auto simp: P_def)
    then show ?thesis by auto
  qed
  have tb: "\<forall>r \<in> set bs. rr_type r \<noteq> relativeRel"
  proof -
    have "relativeRel \<notin> set (map rr_type bs)" unfolding t(2) by (auto simp: P_def)
    then show ?thesis by (metis image_eqI set_map)
  qed
  have ys: "ys = sort_key rr_offset as @ sort_key (\<lambda>r. (rr_sym r, rr_offset r)) (filter I bs) @ filter (\<lambda>r. \<not> I r) bs"
    using assms(2) xs n by (simp add: computeRels_def ab(1) stable_partition_def I_def)
  have "mset ys = mset xs" unfolding ys ab(1) by (simp add: mset_filter)
  moreover have "rela_parts (length (sort_key rr_offset as)) (length (sort_key rr_offset as) + length (sort_key (\<lambda>r. (rr_sym r, rr_offset r)) (filter I bs))) ys"
    unfolding ys
  proof (rule rela_partsI)
    show "\<forall>r \<in> set (sort_key (\<lambda>r. (rr_sym r, rr_offset r)) (filter I bs)). rr_type r \<noteq> relativeRel \<and> rr_type r \<noteq> iRelativeRel"
      using tb by (simp add: I_def)
  qed (use ta in \<open>simp_all add: I_def\<close>)
  then have "rela_parts n (n + length (filter I bs)) ys" using n by simp
  moreover obtain raws where "computeAll V L (name = ''.rela.dyn'') relocs = Some raws" "mset raws = mset xs"
    using computeAll_filter [of V L _ P relocs xs] xs p(2) by blast
  ultimately show ?thesis by metis
qed

definition demo_va :: va_env where
  "demo_va = \<lparr>ve_layout = demo_layout, ve_place = (\<lambda>s. Place_Shared), ve_size = (\<lambda>s. 0), ve_tls = None, ve_tls_module_base = None,
     ve_input = (\<lambda>i off. 0x4000 + off), ve_dynsym_index = (\<lambda>s. of_nat (s + 1))\<rparr>"

definition demo_dynrels :: "dynamic_reloc list" where
  "demo_dynrels = map (\<lambda>(t, off). \<lparr>dn_type = t, dn_section = Synthetic Sec_Got, dn_offset = off, dn_kind = AddendOnly, dn_sym = None, dn_addend = 0x10,
     dn_expr = RE_ADDEND, dn_r_sym = 0\<rparr>) [(iRelativeRel, 8), (relativeRel, 24), (16, 16), (relativeRel, 0)]"

theorem rela_table_ordered_witness:
  "\<exists>n rs ys raws m. partitionRels True demo_dynrels = (n, rs) \<and> computeRels demo_va demo_link ''.rela.dyn'' True n rs = Some ys \<and>
    computeAll demo_va demo_link True demo_dynrels = Some raws \<and> mset ys = mset raws \<and> rela_parts n m ys"
proof -
  obtain n rs where p: "partitionRels True demo_dynrels = (n, rs)" by fastforce
  have "case partitionRels True demo_dynrels of (n, rs) \<Rightarrow> computeRels demo_va demo_link ''.rela.dyn'' True n rs \<noteq> None"
    by code_simp
  then obtain ys where y: "computeRels demo_va demo_link ''.rela.dyn'' True n rs = Some ys" using p by auto
  then show ?thesis using rela_table_ordered [OF p y] p by auto
qed

section \<open>Pointers to functions of other objects\<close>

lemma fakeplt_offset_at:
  assumes "i < length ss" "distinct ss" "inj_on (\<lambda>t. sy_name (lk_syms L t)) (set ss)"
  shows "fakeplt_offset L (sy_name (lk_syms L (ss ! i))) ss off = Some (off + of_nat (32 * i))"
  using assms
proof (induction ss arbitrary: i off)
  case (Cons s ss)
  show ?case
  proof (cases i)
    case (Suc j)
    then have j: "j < length ss" "ss ! j \<noteq> s" using Cons.prems(1,2) by auto
    have "sy_name (lk_syms L s) \<noteq> sy_name (lk_syms L (ss ! j))"
      using Cons.prems(3) j by (auto simp: inj_on_def)
    then show ?thesis using Suc Cons.IH [of j "off + 32"] Cons.prems(2,3) j(1) by (simp add: algebra_simps)
  qed simp
qed simp

lemma fakeplt_distinct:
  assumes "plt_inv n L" "n < 2 ^ 32"
  shows "distinct (lk_fakeplt L)"
  unfolding distinct_conv_nth
proof (intro allI impI notI)
  fix i j assume ij: "i < length (lk_fakeplt L)" "j < length (lk_fakeplt L)" "i \<noteq> j" "lk_fakeplt L ! i = lk_fakeplt L ! j"
  have f: "\<forall>k < length (lk_fakeplt L). a_non_fake_plt (lk_aux L (lk_fakeplt L ! k)) = of_nat k" "length (lk_fakeplt L) \<le> n"
    using assms(1) by (auto simp: plt_inv_def all_at_def fake_entry_def slot_at_def)
  then have "(of_nat i :: u32) = of_nat j" using ij by metis
  then have "unat (of_nat i :: u32) = unat (of_nat j :: u32)" by simp
  then show False using ij f(2) assms(2) by (simp add: unsigned_of_nat take_bit_nat_eq_self)
qed

lemma computeRaw_redirects:
  assumes "plt_inv n L" "n < 2 ^ 32" "inj_on (\<lambda>t. sy_name (lk_syms L t)) (set (lk_fakeplt L))"
    and "i < length (lk_fakeplt L)" "dn_sym d = Some (lk_fakeplt L ! i)"
  shows "computeRaw V L True d = Some \<lparr>rr_offset = getOffset V (dn_section d) (dn_offset d), rr_type = dn_type d, rr_sym = 0,
    rr_addend = la_fakeplt (ve_layout V) + of_nat (32 * i)\<rparr>"
proof -
  have "custom_of L (lk_fakeplt L ! i) = 1" using assms(1,4) by (simp add: plt_inv_def all_at_def fake_entry_def)
  then show ?thesis
    using fakeplt_offset_at [OF assms(4) fakeplt_distinct [OF assms(1,2)] assms(3), of 0] assms(5)
    unfolding computeRaw_def Let_def by simp
qed


text \<open>One relocation of the scan example, which takes the address of \<open>qsort\<close>.\<close>

abbreviation (input) "demo_taken \<equiv> \<lparr>er_offset = 0x20, er_type = 42, er_symindex = 2, er_sym = 1, er_addend = - 4\<rparr> :: elf_rela"
abbreviation (input) "demo_scanned \<equiv> link_of (scan demo_scan_env [demo_taken] demo_scan_state) demo_link"

lemma demo_redirect:
  "(custom_of demo_scanned 1, sy_in_iplt (lk_syms demo_scanned 1)) = (1, False)"
  "lk_fakeplt (postScanRelocations demo_link_cfg [1] demo_scanned) = [1]"
  by code_simp+


section \<open>Offsets carried in symbol names\<close>

lemma mark_maybe_offset:
  assumes "sy_name y = f @ ''_'' @ hex_text off @ ''_'' @ tail" "CHR ''_'' \<notin> set f" "off < 2 ^ 24" "sy_iscustomreloc y < 0x100"
  shows "mark_maybe y = y\<lparr>sy_iscustomreloc := of_nat (off * 256 + 4), sy_name := f\<rparr>"
proof -
  have f: "takeWhile (\<lambda>c. c \<noteq> CHR ''_'') (sy_name y) = f" unfolding assms(1) using takeWhile_sep [OF assms(2)] by simp
  have h: "CHR ''_'' \<notin> set (hex_text off)" using hex_digits_chars by (auto simp: hex_text_def)
  have "drop (length f + 1) (sy_name y) = hex_text off @ ''_'' @ tail" by (simp add: assms(1))
  then have "takeWhile (\<lambda>c. c \<noteq> CHR ''_'') (drop (length f + 1) (sy_name y)) = hex_text off" using takeWhile_sep [OF h] by simp
  moreover have "strtol (hex_text off) = int off" using assms(3) by (intro strtol_hex) simp
  moreover have "ucast (word_of_int (int off) * 256 + 4 :: u64) = (of_nat (off * 256 + 4) :: u32)"
  proof -
    have "word_of_int (int off) * 256 + 4 = (of_nat (off * 256 + 4) :: u64)" by simp
    moreover have "ucast (of_nat (off * 256 + 4) :: u64) = (of_nat (off * 256 + 4) :: u32)"
      using assms(3) by (simp add: unsigned_of_nat take_bit_nat_eq_self del: of_nat_add of_nat_mult)
    ultimately show ?thesis by metis
  qed
  ultimately show ?thesis using assms(4) unfolding mark_maybe_def Let_def f by simp
qed

lemma maybe_fields:
  assumes "off < 2 ^ 24"
  shows "(of_nat (off * 256 + 4) :: u32) AND 0xff = 4"
    and "ucast (drop_bit 8 ((of_nat (off * 256 + 4) :: u32) AND 0xffffff00)) = (of_nat off :: u64)"
proof -
  have w: "(of_nat (off * 256 + 4) :: u32) = push_bit 8 (of_nat off) + 4" by (simp add: push_bit_eq_mult mult.commute)
  have n: "unat (of_nat off :: u32) = off" using assms by (simp add: unsigned_of_nat take_bit_nat_eq_self)
  have b4: "bit (4 :: u32) m \<longleftrightarrow> m = 2" "bit (4 :: int) m \<longleftrightarrow> m = 2" "bit (4 :: nat) m \<longleftrightarrow> m = 2" for m
    using bit_exp_iff [where 'a = u32, of 2 m] bit_exp_iff [where 'a = int, of 2 m] bit_exp_iff [where 'a = nat, of 2 m] by auto
  have "push_bit 8 (of_nat off :: u32) AND 4 = 0" by (rule bit_word_eqI) (auto simp: bit_push_bit_iff bit_and_iff b4)
  then have o: "push_bit 8 (of_nat off :: u32) + 4 = push_bit 8 (of_nat off) OR 4" by (simp add: disjunctive_add_eq_or)
  have ff: "(0xff :: u32) = mask 8" "(0xffffff00 :: u32) = NOT (mask 8)" by (simp_all add: mask_eq_exp_minus_1)
  show "(of_nat (off * 256 + 4) :: u32) AND 0xff = 4"
    unfolding w o ff by (rule bit_word_eqI) (auto simp: bit_simps b4)
  have "drop_bit 8 ((push_bit 8 (of_nat off) OR 4) AND NOT (mask 8)) = take_bit 24 (of_nat off :: u32)"
    by (rule bit_word_eqI) (auto simp: bit_simps b4)
  then have "drop_bit 8 ((of_nat (off * 256 + 4) :: u32) AND 0xffffff00) = take_bit 24 (of_nat off)" unfolding w o ff by simp
  also have "\<dots> = of_nat off" using assms by (simp add: take_bit_of_nat take_bit_nat_eq_self)
  finally show "ucast (drop_bit 8 ((of_nat (off * 256 + 4) :: u32) AND 0xffffff00)) = (of_nat off :: u64)"
    using assms by (simp add: unsigned_of_nat take_bit_nat_eq_self)
qed

lemma starts_with_sep:
  assumes "starts_with (a @ CHR ''_'' # c # cs) (f @ CHR ''_'' # d # ds)" "CHR ''_'' \<notin> set a" "CHR ''_'' \<notin> set f"
  shows "c = d"
proof -
  obtain rest where "f @ CHR ''_'' # d # ds = (a @ CHR ''_'' # c # cs) @ rest"
    using assms(1) unfolding starts_with_def by (metis append_take_drop_id)
  then have e: "f @ CHR ''_'' # d # ds = a @ CHR ''_'' # c # (cs @ rest)" by simp
  have "f = a" using takeWhile_sep [OF assms(3), of "d # ds"] takeWhile_sep [OF assms(2), of "c # (cs @ rest)"] unfolding e by simp
  then show ?thesis using e by simp
qed

lemma starts_with_no_sep: "CHR ''_'' \<in> set p \<Longrightarrow> CHR ''_'' \<notin> set f \<Longrightarrow> \<not> starts_with p f"
  unfolding starts_with_def by (metis in_set_takeD)

lemma recognise_maybe:
  assumes "sy_name y = f @ ''_'' @ hex_text off @ ''_'' @ tail @ ''1337''" "CHR ''_'' \<notin> set f" "off < 2 ^ 24" "sy_iscustomreloc y < 0x100"
    and "\<not> (sy_preemptible y \<and> sy_func y)"
  shows "recognise y type = (y\<lparr>sy_iscustomreloc := of_nat (off * 256 + 4), sy_name := f\<rparr>, R_X86_64_CALLBACK_MAYBE)"
proof -
  obtain ds where nm: "sy_name y = f @ CHR ''_'' # CHR ''0'' # ds" using assms(1) by (simp add: hex_text_def)
  have n: "\<not> starts_with ''or_mask'' (sy_name y)" "\<not> starts_with ''and_mask'' (sy_name y)"
      "\<not> starts_with ''__libc_start_main'' (sy_name y)" "\<not> starts_with ''cccallback_table'' (sy_name y)"
    unfolding nm using starts_with_sep [of "''or''" "CHR ''m''" "''ask''" f "CHR ''0''" ds] starts_with_sep [of "''and''" "CHR ''m''" "''ask''" f "CHR ''0''" ds]
      starts_with_sep [of "[]" "CHR ''_''" "''libc_start_main''" f "CHR ''0''" ds] starts_with_sep [of "''cccallback''" "CHR ''t''" "''able''" f "CHR ''0''" ds] assms(2)
    by auto
  have e: "ends_with ''1337'' (sy_name y)" "CHR ''_'' \<in> set (sy_name y)" unfolding assms(1) by (simp_all add: ends_with_def)
  show ?thesis
    using n e assms(5) mark_maybe_offset [OF assms(1-4)]
    by (cases "sy_preemptible y"; simp add: recognise_def mark_masks_def mark_functions_def)
qed



end
