(* ===== verification/Linker_Options.thy ===== *)
theory Linker_Options
  imports Linker_Scan
begin

text \<open>
  The option \<open>--callb_getter=<file>\<close> of the linker (\<open>lld/ELF/DriverUtils.cpp\<close>): the file has one line
  \<open>name:(p1,p2,...)\<close> for each function that stores callbacks, with the positions of the arguments that
  are callbacks.  What is read is the map \<open>cc_callb_get\<close> of the writers of the PLT code.
\<close>

section \<open>Reading\<close>

datatype option_error = Exit_1337 | Stoi_Invalid | Stoi_Range

type_synonym getters = "string \<Rightarrow> int list option"

text \<open>Repeated calls of \<open>std::getline\<close> until the input is used up.\<close>

function getlines :: "char \<Rightarrow> string \<Rightarrow> string list" where
  "getlines d [] = []"
| "getlines d (c # cs) = takeWhile (\<lambda>x. x \<noteq> d) (c # cs) # getlines d (drop 1 (dropWhile (\<lambda>x. x \<noteq> d) (c # cs)))"
  by pat_completeness auto

lemma length_dropWhile_less: "length (dropWhile P xs) \<le> length xs"
  by (induction xs) auto

termination getlines
proof (relation "measure (\<lambda>(d, cs). length cs)")
  fix d c :: char and cs :: string
  show "((d, drop 1 (dropWhile (\<lambda>x. x \<noteq> d) (c # cs))), d, c # cs) \<in> measure (\<lambda>(d, cs). length cs)"
    using length_dropWhile_less [of "\<lambda>x. x \<noteq> d" "c # cs"] by (simp only: in_measure prod.case length_drop length_Cons)
qed simp

definition stoi :: "string \<Rightarrow> option_error + int" where
  "stoi cs =
    (let cs = dropWhile is_space cs;
         neg = (take 1 cs = ''-'');
         cs = (if neg \<or> take 1 cs = ''+'' then drop 1 cs else cs);
         v = (if neg then - int (number_of 10 cs) else int (number_of 10 cs))
     in if cs = [] \<or> \<not> is_digit 10 (hd cs) then Inl Stoi_Invalid
        else if v < - (2 ^ 31) \<or> 2 ^ 31 \<le> v then Inl Stoi_Range
        else Inr v)"

fun parse_positions :: "string list \<Rightarrow> option_error + int list" where
  "parse_positions [] = Inr []"
| "parse_positions (item # items) =
    (if item = [] then parse_positions items
     else case stoi item of
       Inl e \<Rightarrow> Inl e
     | Inr p \<Rightarrow> (case parse_positions items of Inl e \<Rightarrow> Inl e | Inr ps \<Rightarrow> Inr (p # ps)))"

definition parse_line :: "string \<Rightarrow> option_error + string \<times> int list" where
  "parse_line line =
    (if CHR '':'' \<notin> set line then Inl Exit_1337
     else
       let key = takeWhile (\<lambda>c. c \<noteq> CHR '':'') line;
           values = drop 1 (dropWhile (\<lambda>c. c \<noteq> CHR '':'') line)
       in if length values < 2 \<or> hd values \<noteq> CHR ''('' \<or> List.last values \<noteq> CHR '')'' then Inl Exit_1337
          else case parse_positions (getlines CHR '','' (take (length values - 2) (drop 1 values))) of
            Inl e \<Rightarrow> Inl e
          | Inr ps \<Rightarrow> Inr (key, ps))"

fun read_getters :: "string list \<Rightarrow> getters \<Rightarrow> option_error + getters" where
  "read_getters [] m = Inr m"
| "read_getters (line # lines) m =
    (if line = [] then read_getters lines m
     else case parse_line line of Inl e \<Rightarrow> Inl e | Inr (key, ps) \<Rightarrow> read_getters lines (m(key \<mapsto> ps)))"

text \<open>The unknown arguments of the command line; the files are those that can be opened.\<close>

datatype report = Missing_File string | Unknown_Argument string

definition getter_path :: "string \<Rightarrow> string option" where
  "getter_path arg =
    (if CHR ''='' \<in> set arg \<and> takeWhile (\<lambda>c. c \<noteq> CHR ''='') arg = ''--callb_getter''
     then Some (drop 1 (dropWhile (\<lambda>c. c \<noteq> CHR ''='') arg)) else None)"

fun unknown_args :: "(string \<Rightarrow> string option) \<Rightarrow> string list \<Rightarrow> getters \<Rightarrow> option_error + getters \<times> report list" where
  "unknown_args files [] m = Inr (m, [])"
| "unknown_args files (arg # args) m =
    (case getter_path arg of
       Some path \<Rightarrow>
         (case files path of
            None \<Rightarrow> Inr (m, [Missing_File path])
          | Some text \<Rightarrow>
              (case read_getters (getlines CHR ''\<newline>'' text) m of
                 Inl e \<Rightarrow> Inl e
               | Inr m' \<Rightarrow> unknown_args files args m'))
     | None \<Rightarrow> map_sum id (apsnd (Cons (Unknown_Argument arg))) (unknown_args files args m))"

section \<open>Writing\<close>

fun dec_digits :: "nat \<Rightarrow> string" where
  "dec_digits n = (if n < 10 then [''0123456789'' ! n] else dec_digits (n div 10) @ [''0123456789'' ! (n mod 10)])"

declare dec_digits.simps [simp del]

definition show_int :: "int \<Rightarrow> string" where
  "show_int i = (if i < 0 then ''-'' @ dec_digits (nat (- i)) else dec_digits (nat i))"

fun join :: "string list \<Rightarrow> string" where
  "join [] = []"
| "join [x] = x"
| "join (x # xs) = x @ '','' @ join xs"

definition show_getter :: "string \<times> int list \<Rightarrow> string" where
  "show_getter e = fst e @ '':('' @ join (map show_int (snd e)) @ '')''"

definition show_getters :: "(string \<times> int list) list \<Rightarrow> string" where
  "show_getters es = concat (map (\<lambda>e. show_getter e @ ''\<newline>'') es)"

section \<open>Round trip\<close>

lemma getlines_sep: "d \<notin> set x \<Longrightarrow> getlines d (x @ d # ys) = x # getlines d ys"
proof -
  assume d: "d \<notin> set x"
  have w: "takeWhile (\<lambda>c. c \<noteq> d) (x @ d # ys) = x" "dropWhile (\<lambda>c. c \<noteq> d) (x @ d # ys) = d # ys"
    using d by (induction x) auto
  obtain c cs where c: "x @ d # ys = c # cs" by (cases "x @ d # ys") auto
  show ?thesis using w unfolding c by simp
qed

lemma getlines_one: "d \<notin> set x \<Longrightarrow> x \<noteq> [] \<Longrightarrow> getlines d x = [x]"
proof -
  assume x: "d \<notin> set x" "x \<noteq> []"
  have w: "takeWhile (\<lambda>c. c \<noteq> d) x = x" "dropWhile (\<lambda>c. c \<noteq> d) x = []" using x(1) by (induction x) auto
  obtain c cs where c: "x = c # cs" using x(2) by (cases x) auto
  show ?thesis using w unfolding c by simp
qed

lemma dec_char:
  "n < 10 \<Longrightarrow> digit_val (''0123456789'' ! n) = Some n \<and> ''0123456789'' ! n \<notin> {CHR '','', CHR ''\<newline>'', CHR ''-'', CHR ''+''} \<and> \<not> is_space (''0123456789'' ! n)"
proof -
  have "\<forall>n \<in> set [0..<10]. digit_val (''0123456789'' ! n) = Some n \<and> ''0123456789'' ! n \<notin> {CHR '','', CHR ''\<newline>'', CHR ''-'', CHR ''+''} \<and> \<not> is_space (''0123456789'' ! n)"
    by code_simp
  then show "n < 10 \<Longrightarrow> ?thesis" by simp
qed

lemma dec_digits_chars: "c \<in> set (dec_digits n) \<Longrightarrow> is_digit 10 c \<and> c \<notin> {CHR '','', CHR ''\<newline>'', CHR ''-'', CHR ''+''} \<and> \<not> is_space c"
proof (induction n rule: dec_digits.induct)
  case (1 n)
  show ?case
  proof (cases "n < 10")
    case True
    then show ?thesis using "1.prems" dec_char [of n] by (subst (asm) dec_digits.simps) (auto simp: is_digit_def)
  next
    case False
    then show ?thesis using "1.prems" "1.IH" dec_char [of "n mod 10"] by (subst (asm) dec_digits.simps) (auto simp: is_digit_def)
  qed
qed

lemma foldl_dec: "foldl (\<lambda>acc c. acc * 10 + the (digit_val c)) 0 (dec_digits n) = n"
proof (induction n rule: dec_digits.induct)
  case (1 n)
  show ?case
  proof (cases "n < 10")
    case True
    then show ?thesis using dec_char [of n] by (subst dec_digits.simps) simp
  next
    case False
    then show ?thesis using "1.IH" dec_char [of "n mod 10"] by (subst dec_digits.simps) simp
  qed
qed

lemma number_of_dec: "number_of 10 (dec_digits n) = n"
proof -
  have "takeWhile (is_digit 10) (dec_digits n) = dec_digits n" using dec_digits_chars by auto
  then show ?thesis by (simp only: number_of_def foldl_dec)
qed

lemma dec_digits_Cons: "\<exists>c cs. dec_digits n = c # cs \<and> is_digit 10 c \<and> \<not> is_space c \<and> c \<noteq> CHR ''-'' \<and> c \<noteq> CHR ''+''"
proof -
  obtain c cs where h: "dec_digits n = c # cs" by (cases "dec_digits n") (auto simp: dec_digits.simps [of n] split: if_splits)
  then show ?thesis using dec_digits_chars [of c n] by auto
qed

lemma stoi_show: "- (2 ^ 31) \<le> i \<Longrightarrow> i < 2 ^ 31 \<Longrightarrow> stoi (show_int i) = Inr i"
proof -
  assume r: "- (2 ^ 31) \<le> i" "i < 2 ^ 31"
  obtain c cs where c: "dec_digits (nat (if i < 0 then - i else i)) = c # cs" "is_digit 10 c" "\<not> is_space c" "c \<noteq> CHR ''-''" "c \<noteq> CHR ''+''"
    using dec_digits_Cons by blast
  have n: "int (number_of 10 (c # cs)) = (if i < 0 then - i else i)" unfolding c(1) [symmetric] number_of_dec by simp
  show ?thesis
  proof (cases "i < 0")
    case True
    then have "show_int i = ''-'' @ c # cs" using c(1) by (simp add: show_int_def)
    then show ?thesis using True r n c by (simp add: stoi_def Let_def is_space_def)
  next
    case False
    then have "show_int i = c # cs" using c(1) by (simp add: show_int_def)
    then show ?thesis using False r n c by (simp add: stoi_def Let_def)
  qed
qed

lemma show_int_chars: "CHR '','' \<notin> set (show_int i) \<and> CHR ''\<newline>'' \<notin> set (show_int i) \<and> show_int i \<noteq> []"
proof -
  obtain c cs where "dec_digits (nat (if i < 0 then - i else i)) = c # cs" using dec_digits_Cons by blast
  then show ?thesis using dec_digits_chars [of _ "nat (- i)"] dec_digits_chars [of _ "nat i"] by (auto simp: show_int_def)
qed

lemma parse_join: "\<forall>p \<in> set ps. - (2 ^ 31) \<le> p \<and> p < 2 ^ 31 \<Longrightarrow> parse_positions (getlines CHR '','' (join (map show_int ps))) = Inr ps"
proof (induction ps)
  case (Cons p ps)
  have p: "stoi (show_int p) = Inr p" "CHR '','' \<notin> set (show_int p)" "show_int p \<noteq> []" using Cons.prems stoi_show show_int_chars by auto
  show ?case
  proof (cases ps)
    case Nil
    then show ?thesis using p by (simp add: getlines_one)
  next
    case (Cons q qs)
    then have "join (map show_int (p # ps)) = show_int p @ CHR '','' # join (map show_int ps)" by simp
    then have "getlines CHR '','' (join (map show_int (p # ps))) = show_int p # getlines CHR '','' (join (map show_int ps))"
      by (simp only: getlines_sep [OF p(2)])
    then show ?thesis using p Cons.IH Cons.prems by simp
  qed
qed simp

lemma parse_show_getter:
  assumes "CHR '':'' \<notin> set key" "\<forall>p \<in> set ps. - (2 ^ 31) \<le> p \<and> p < 2 ^ 31"
  shows "parse_line (show_getter (key, ps)) = Inr (key, ps)"
proof -
  let ?v = "''('' @ join (map show_int ps) @ '')''"
  have s: "show_getter (key, ps) = key @ CHR '':'' # ?v" by (simp add: show_getter_def)
  have w: "takeWhile (\<lambda>c. c \<noteq> CHR '':'') (key @ CHR '':'' # ?v) = key" "dropWhile (\<lambda>c. c \<noteq> CHR '':'') (key @ CHR '':'' # ?v) = CHR '':'' # ?v"
    using assms(1) by (induction key) auto
  have "take (length ?v - 2) (drop 1 ?v) = join (map show_int ps)" by simp
  then show ?thesis unfolding parse_line_def Let_def s w using parse_join [OF assms(2)] by simp
qed

lemma join_chars: "CHR ''\<newline>'' \<notin> set (join (map show_int ps))"
  by (induction ps rule: induct_list012) (simp_all add: show_int_chars)

lemma read_shown:
  assumes "\<forall>(key, ps) \<in> set es. CHR '':'' \<notin> set key \<and> CHR ''\<newline>'' \<notin> set key \<and> (\<forall>p \<in> set ps. - (2 ^ 31) \<le> p \<and> p < 2 ^ 31)"
  shows "read_getters (getlines CHR ''\<newline>'' (show_getters es)) m = Inr (m ++ map_of (rev es))"
  using assms
proof (induction es arbitrary: m)
  case Nil
  then show ?case by (simp add: show_getters_def)
next
  case (Cons e es)
  obtain key ps where e: "e = (key, ps)" by (cases e)
  have n: "CHR ''\<newline>'' \<notin> set (show_getter e)" using Cons.prems join_chars by (auto simp: e show_getter_def)
  have "show_getters (e # es) = show_getter e @ CHR ''\<newline>'' # show_getters es" by (simp add: show_getters_def)
  moreover have "parse_line (show_getter e) = Inr (key, ps)" unfolding e using Cons.prems e by (intro parse_show_getter) auto
  moreover have "show_getter e \<noteq> []" by (simp add: show_getter_def)
  ultimately show ?case using Cons by (simp add: getlines_sep [OF n [unfolded e]] e map_add_assoc)
qed

section \<open>Properties\<close>

text \<open>
  C40: A file written for the option is read back.  For entries whose names have no colon and no
  newline and whose positions are 32-bit integers, the linker reads exactly these entries from the
  text of the file, a later entry replacing an earlier one of the same name, and continues with the
  arguments behind the option.
\<close>

theorem getter_file_roundtrip:
  assumes "\<forall>(key, ps) \<in> set es. CHR '':'' \<notin> set key \<and> CHR ''\<newline>'' \<notin> set key \<and> (\<forall>p \<in> set ps. - (2 ^ 31) \<le> p \<and> p < 2 ^ 31)"
    and "files path = Some (show_getters es)"
  shows "unknown_args files ((''--callb_getter='' @ path) # args) m = unknown_args files args (m ++ map_of (rev es))"
proof -
  have "getter_path (''--callb_getter='' @ path) = Some path" by (simp add: getter_path_def)
  then show ?thesis using read_shown [OF assms(1), of m] assms(2) by simp
qed

theorem getter_file_roundtrip_witness:
  "unknown_args (\<lambda>p. if p = ''f'' then Some (show_getters [(''signal'', [1]), (''qsort'', [3, -1])]) else None) [''--callb_getter=f''] (\<lambda>_. None) =
    Inr ([''signal'' \<mapsto> [1], ''qsort'' \<mapsto> [3, -1]], [])"
  using getter_file_roundtrip [of "[(''signal'', [1]), (''qsort'', [3, -1])]" "\<lambda>p. if p = ''f'' then Some (show_getters [(''signal'', [1]), (''qsort'', [3, -1])]) else None"
      "''f''" "[]" "\<lambda>_. None"]
  by simp

end
