(* ===== verification/Backend_Jmp.thy ===== *)
theory Backend_Jmp
  imports Loader_Window
begin

text \<open>
  The machine pass of the X86 backend (\<open>X86InstrumentJmpPass.cpp\<close>): a jump through a register loads the
  two masks into new virtual registers, combines them with the target and jumps through the result.
  The instructions around the jumps are arbitrary; what they do is a parameter of the machine.
\<close>

section \<open>Machine code\<close>

type_synonym reg = nat

datatype mask_var = Or_Mask | And_Mask

text \<open>The other instructions have a result register and operand registers.\<close>

datatype minstr =
    JMP64r reg
  | JMP32r reg
  | MOV64rm reg mask_var
  | MOV32rm reg mask_var
  | OR64rr reg reg reg
  | OR32rr reg reg reg
  | AND64rr reg reg reg
  | AND32rr reg reg reg
  | Other_MI nat reg "reg list"

record mfunction =
  mf_blocks :: "minstr list list"
  mf_next_reg :: reg
  mf_globals :: "string list"

section \<open>The pass\<close>

text \<open>The code for one jump, with four new registers.\<close>

definition masked_jump64 :: "reg \<Rightarrow> reg \<Rightarrow> minstr list" where
  "masked_jump64 n TargetReg =
    [MOV64rm n Or_Mask, OR64rr (n + 1) n TargetReg, MOV64rm (n + 2) And_Mask, AND64rr (n + 3) (n + 1) (n + 2), JMP64r (n + 3)]"

definition masked_jump32 :: "reg \<Rightarrow> reg \<Rightarrow> minstr list" where
  "masked_jump32 n TargetReg =
    [MOV32rm n Or_Mask, OR32rr (n + 1) n TargetReg, MOV32rm (n + 2) And_Mask, AND32rr (n + 3) (n + 1) (n + 2), JMP32r (n + 3)]"

fun jmp_block :: "minstr list \<Rightarrow> reg \<Rightarrow> minstr list \<times> reg" where
  "jmp_block [] n = ([], n)"
| "jmp_block (JMP64r r # is) n = (case jmp_block is (n + 4) of (js, k) \<Rightarrow> (masked_jump64 n r @ js, k))"
| "jmp_block (JMP32r r # is) n = (case jmp_block is (n + 4) of (js, k) \<Rightarrow> (masked_jump32 n r @ js, k))"
| "jmp_block (i # is) n = (case jmp_block is n of (js, k) \<Rightarrow> (i # js, k))"

fun jmp_blocks :: "minstr list list \<Rightarrow> reg \<Rightarrow> minstr list list \<times> reg" where
  "jmp_blocks [] n = ([], n)"
| "jmp_blocks (b # bs) n = (case jmp_block b n of (b', n') \<Rightarrow> case jmp_blocks bs n' of (bs', k) \<Rightarrow> (b' # bs', k))"

definition add_global :: "string \<Rightarrow> string list \<Rightarrow> string list" where
  "add_global g gs = (if g \<in> set gs then gs else gs @ [g])"

text \<open>The flag tells whether the environment variable \<open>PROTECT_JMP\<close> is set.\<close>

definition runOnMachineFunction :: "bool \<Rightarrow> mfunction \<Rightarrow> mfunction" where
  "runOnMachineFunction protect MF =
    (if \<not> protect then MF
     else case jmp_blocks (mf_blocks MF) (mf_next_reg MF) of
       (bs, n) \<Rightarrow> MF\<lparr>mf_blocks := bs, mf_next_reg := n, mf_globals := add_global ''and_mask'' (add_global ''or_mask'' (mf_globals MF))\<rparr>)"

section \<open>Meaning\<close>

record 'm machine =
  mm_or :: u64
  mm_and :: u64
  mm_other :: "nat \<Rightarrow> u64 list \<Rightarrow> 'm \<Rightarrow> u64 \<times> 'm"

text \<open>A block jumps to an address or ends; a 32-bit result is extended with zeros.\<close>

datatype 'm outcome = Jumps64 u64 'm | Jumps32 u32 'm | Ends "reg \<Rightarrow> u64" 'm

definition mask_of :: "'m machine \<Rightarrow> mask_var \<Rightarrow> u64" where
  "mask_of M g = (case g of Or_Mask \<Rightarrow> mm_or M | And_Mask \<Rightarrow> mm_and M)"

abbreviation low32 :: "u64 \<Rightarrow> u32" where
  "low32 x \<equiv> ucast x"

fun exec_block :: "'m machine \<Rightarrow> minstr list \<Rightarrow> (reg \<Rightarrow> u64) \<Rightarrow> 'm \<Rightarrow> 'm outcome" where
  "exec_block M [] R m = Ends R m"
| "exec_block M (JMP64r r # is) R m = Jumps64 (R r) m"
| "exec_block M (JMP32r r # is) R m = Jumps32 (low32 (R r)) m"
| "exec_block M (MOV64rm d g # is) R m = exec_block M is (R(d := mask_of M g)) m"
| "exec_block M (MOV32rm d g # is) R m = exec_block M is (R(d := ucast (low32 (mask_of M g)))) m"
| "exec_block M (OR64rr d a b # is) R m = exec_block M is (R(d := R a OR R b)) m"
| "exec_block M (OR32rr d a b # is) R m = exec_block M is (R(d := ucast (low32 (R a) OR low32 (R b)))) m"
| "exec_block M (AND64rr d a b # is) R m = exec_block M is (R(d := R a AND R b)) m"
| "exec_block M (AND32rr d a b # is) R m = exec_block M is (R(d := ucast (low32 (R a) AND low32 (R b)))) m"
| "exec_block M (Other_MI k d rs # is) R m = (case mm_other M k (map R rs) m of (x, m) \<Rightarrow> exec_block M is (R(d := x)) m)"

fun regs_of :: "minstr \<Rightarrow> reg list" where
  "regs_of (JMP64r r) = [r]"
| "regs_of (JMP32r r) = [r]"
| "regs_of (MOV64rm d g) = [d]"
| "regs_of (MOV32rm d g) = [d]"
| "regs_of (OR64rr d a b) = [d, a, b]"
| "regs_of (OR32rr d a b) = [d, a, b]"
| "regs_of (AND64rr d a b) = [d, a, b]"
| "regs_of (AND32rr d a b) = [d, a, b]"
| "regs_of (Other_MI k d rs) = d # rs"

definition below :: "reg \<Rightarrow> minstr list \<Rightarrow> bool" where
  "below n b \<longleftrightarrow> (\<forall>i \<in> set b. \<forall>r \<in> set (regs_of i). r < n)"

text \<open>The same outcome, but with the target masked.\<close>

fun masked_outcome :: "'m machine \<Rightarrow> reg \<Rightarrow> 'm outcome \<Rightarrow> 'm outcome \<Rightarrow> bool" where
  "masked_outcome M n (Jumps64 t m) o' = (o' = Jumps64 (mask_target (mm_or M) (mm_and M) t) m)"
| "masked_outcome M n (Jumps32 t m) o' = (o' = Jumps32 ((t OR low32 (mm_or M)) AND low32 (mm_and M)) m)"
| "masked_outcome M n (Ends R m) o' = (\<exists>R'. o' = Ends R' m \<and> (\<forall>r < n. R' r = R r))"

section \<open>Correctness\<close>

lemma low32_ops: "low32 (ucast (x :: u32)) = x" "low32 (x' OR y') = low32 x' OR low32 y'" "low32 (x' AND y') = low32 x' AND low32 y'"
  by (rule bit_word_eqI, simp add: bit_simps)+

lemma run_masked_jump64: "r < n \<Longrightarrow> exec_block M (masked_jump64 n r @ js) R m = Jumps64 (mask_target (mm_or M) (mm_and M) (R r)) m"
  by (simp add: masked_jump64_def mask_of_def mask_target_def or.commute)

lemma run_masked_jump32: "r < n \<Longrightarrow> exec_block M (masked_jump32 n r @ js) R m = Jumps32 ((low32 (R r) OR low32 (mm_or M)) AND low32 (mm_and M)) m"
  by (simp add: masked_jump32_def mask_of_def low32_ops or.commute)

lemma jmp_block_correct:
  "below n0 b \<Longrightarrow> n0 \<le> n \<Longrightarrow> \<forall>r < n0. R' r = R r \<Longrightarrow> masked_outcome M n0 (exec_block M b R m) (exec_block M (fst (jmp_block b n)) R' m)"
proof (induction b arbitrary: n R R' m)
  case Nil
  then show ?case by simp
next
  case (Cons i b)
  have b: "below n0 b" "\<forall>r \<in> set (regs_of i). r < n0" using Cons.prems(1) by (simp_all add: below_def)
  note IH = Cons.IH [OF b(1) Cons.prems(2)]
  show ?case
  proof (cases i)
    case (JMP64r r)
    then show ?thesis using b(2) Cons.prems(2,3) by (simp add: case_prod_beta run_masked_jump64)
  next
    case (JMP32r r)
    then show ?thesis using b(2) Cons.prems(2,3) by (simp add: case_prod_beta run_masked_jump32)
  next
    case (Other_MI k d rs)
    have "map R' rs = map R rs" using b(2) Cons.prems(3) Other_MI by simp
    then have "mm_other M k (map R' rs) m = mm_other M k (map R rs) m" by (simp only:)
    moreover obtain x m1 where "mm_other M k (map R rs) m = (x, m1)" by (cases "mm_other M k (map R rs) m")
    ultimately show ?thesis using Cons.prems(3) Other_MI by (auto simp: case_prod_beta intro!: IH)
  qed (use b(2) Cons.prems(3) in \<open>auto simp: case_prod_beta intro!: IH\<close>)
qed

lemma jmp_block_next: "n \<le> snd (jmp_block b n)"
  by (induction b n rule: jmp_block.induct) (auto simp: case_prod_beta)

lemma jmp_blocks_correct:
  "\<forall>b \<in> set bs. below n0 b \<Longrightarrow> n0 \<le> n \<Longrightarrow>
    list_all2 (\<lambda>b b'. \<forall>R m. masked_outcome M n0 (exec_block M b R m) (exec_block M b' R m)) bs (fst (jmp_blocks bs n))"
proof (induction bs arbitrary: n)
  case (Cons b bs)
  have "n0 \<le> snd (jmp_block b n)" using jmp_block_next [of n b] Cons.prems(2) by simp
  then show ?case using Cons by (simp add: case_prod_beta jmp_block_correct)
qed simp


definition demo_mf :: mfunction where
  "demo_mf = \<lparr>mf_blocks = [[Other_MI 0 1 [0], JMP64r 1], [JMP32r 0]], mf_next_reg = 2, mf_globals = [''or_mask'']\<rparr>"

definition demo_mm :: "unit machine" where
  "demo_mm = \<lparr>mm_or = 0x7fffefff8000, mm_and = 0x7fffefffffff, mm_other = (\<lambda>k vs m. (hd vs + 16, m))\<rparr>"


end
