(* ===== verification/Pass_Analysis.thy ===== *)
theory Pass_Analysis
  imports Platypus_Prelude
begin

text \<open>
  The analysis of indirect calls in the LLVM pass BitMasks
  (\<open>src/llvm-passes/BitMasks/Helper_Functions.cpp\<close>): where the called pointer of an indirect call comes
  from, judged by the IR values it is computed from and by the debug information of the variables
  that hold them.  The result decides how the pass instruments the call.
\<close>

section \<open>Debug types\<close>

text \<open>
  Derived types form chains; composite types, through which types can refer to themselves, are
  numbered, with their elements in a table.
\<close>

datatype di_tag =
    DW_pointer | DW_const | DW_volatile | DW_restrict | DW_typedef | DW_structure | DW_union | DW_subroutine | DW_member | DW_base | DW_other nat

datatype di_type = Derived di_tag string "di_type option" | Composite di_tag string nat | Di_Other di_tag string

fun di_tag_of :: "di_type \<Rightarrow> di_tag" where
  "di_tag_of (Derived t _ _) = t"
| "di_tag_of (Composite t _ _) = t"
| "di_tag_of (Di_Other t _) = t"

fun di_name :: "di_type \<Rightarrow> string" where
  "di_name (Derived _ n _) = n"
| "di_name (Composite _ n _) = n"
| "di_name (Di_Other _ n) = n"

text \<open>\<open>None\<close> is the null pointer.\<close>

fun stripToStruct :: "di_type \<Rightarrow> di_type option" where
  "stripToStruct (Derived t n b) =
    (if t = DW_pointer then Some (Derived t n b) else case b of None \<Rightarrow> None | Some ty \<Rightarrow> stripToStruct ty)"
| "stripToStruct ty = Some ty"

fun stripPtrToStruct :: "di_type \<Rightarrow> di_type option" where
  "stripPtrToStruct (Derived t n b) =
    (case b of None \<Rightarrow> None | Some ty \<Rightarrow> if t = DW_pointer then stripToStruct ty else stripPtrToStruct ty)"
| "stripPtrToStruct ty = None"

fun as_composite :: "di_type \<Rightarrow> (di_tag \<times> string \<times> nat) option" where
  "as_composite (Composite t n c) = Some (t, n, c)"
| "as_composite _ = None"

definition strip_prefix :: "string \<Rightarrow> string \<Rightarrow> string option" where
  "strip_prefix p s = (if take (length p) s = p then Some (drop (length p) s) else None)"

definition stripStructPrefix :: "string \<Rightarrow> string" where
  "stripStructPrefix name =
    (case strip_prefix ''struct.'' name of
       Some r \<Rightarrow> r
     | None \<Rightarrow> case strip_prefix ''union.'' name of
         Some r \<Rightarrow> r
       | None \<Rightarrow> case strip_prefix ''class.'' name of Some r \<Rightarrow> r | None \<Rightarrow> name)"

fun points_to_function :: "di_type \<Rightarrow> bool" where
  "points_to_function (Derived t _ (Some b)) = (t = DW_pointer \<and> di_tag_of b = DW_subroutine)"
| "points_to_function _ = False"

fun field_type :: "di_type \<Rightarrow> di_type option" where
  "field_type (Derived _ _ b) = b"
| "field_type _ = None"

definition hasFunctionPointerField :: "di_type list \<Rightarrow> bool" where
  "hasFunctionPointerField elements =
    list_ex (\<lambda>e. case field_type e of None \<Rightarrow> False | Some ft \<Rightarrow> points_to_function ft) elements"

section \<open>Values of a function\<close>

type_synonym val = nat

datatype ir_type = Struct_Ty "string option" | Int_Ty nat | Other_Ty

text \<open>The operands of a \<open>getelementptr\<close> are its base and its indices, \<open>None\<close> where not constant.\<close>

datatype ir_value =
    V_Arg nat
  | V_BitCast val
  | V_GEP ir_type val "nat option list"
  | V_Load val
  | V_Alloca ir_type
  | V_Global string ir_type
  | V_Function string
  | V_Phi "val list"
  | V_Select val val
  | V_ConstGEP val
  | V_InlineAsm
  | V_Other

record local_var =
  lv_arg :: nat
  lv_type :: "di_type option"

text \<open>A debug record with its address or value, as its kind has, and its variable.\<close>

record dbg_record =
  db_value :: "val option"
  db_var :: "local_var option"

text \<open>
  What the analysis reads of a function: its values, numbered below \<open>fi_nvals\<close> (a number outside is
  a null pointer); for each \<open>alloca\<close> the pointer and value operands of the stores among its users;
  the debug records, and the addresses and variables of \<open>dbg.declare\<close> instructions; the variables and
  the argument types of its subprogram; and \<open>stripPointerCasts\<close>, a function of LLVM.
\<close>

record func_info =
  fi_nvals :: nat
  fi_value :: "val \<Rightarrow> ir_value"
  fi_store_users :: "val \<Rightarrow> (val \<times> val) list"
  fi_args :: "val list"
  fi_strip :: "val \<Rightarrow> val"
  fi_elements :: "nat \<Rightarrow> di_type list"
  fi_retained :: "local_var list option"
  fi_types :: "di_type option list option"
  fi_records :: "dbg_record list"
  fi_declares :: "(val \<times> local_var) list"

definition value_of :: "func_info \<Rightarrow> val \<Rightarrow> ir_value option" where
  "value_of F v = (if v < fi_nvals F then Some (fi_value F v) else None)"

section \<open>The argument a value comes from\<close>

text \<open>
  The search with its set of visited values.  Every nested call visits a new value, so the number of
  values plus one bounds the depth.
\<close>

fun getOriginArgumentImpl :: "func_info \<Rightarrow> nat \<Rightarrow> val \<Rightarrow> val list \<Rightarrow> val option \<times> val list"
  and origin_of_stores :: "func_info \<Rightarrow> nat \<Rightarrow> val \<Rightarrow> (val \<times> val) list \<Rightarrow> val list \<Rightarrow> val option \<times> val list" where
  "getOriginArgumentImpl F 0 v visited = (None, visited)"
| "getOriginArgumentImpl F (Suc n) v visited =
    (if v \<ge> fi_nvals F \<or> v \<in> set visited then (None, visited)
     else
       let visited = v # visited in
       case fi_value F v of
         V_Arg k \<Rightarrow> (Some v, visited)
       | V_BitCast w \<Rightarrow> getOriginArgumentImpl F n w visited
       | V_GEP ty w idx \<Rightarrow> getOriginArgumentImpl F n w visited
       | V_Load p \<Rightarrow>
           (case value_of F p of
              Some (V_Alloca ty) \<Rightarrow> origin_of_stores F n p (fi_store_users F p) visited
            | _ \<Rightarrow> (None, visited))
       | _ \<Rightarrow> (None, visited))"
| "origin_of_stores F n p [] visited = (None, visited)"
| "origin_of_stores F n p ((ptr, stored) # us) visited =
    (if ptr = p
     then
       (case getOriginArgumentImpl F n stored visited of
          (Some a, visited) \<Rightarrow> (Some a, visited)
        | (None, visited) \<Rightarrow> origin_of_stores F n p us visited)
     else origin_of_stores F n p us visited)"

definition getOriginArgument :: "func_info \<Rightarrow> val \<Rightarrow> val option" where
  "getOriginArgument F v = fst (getOriginArgumentImpl F (Suc (fi_nvals F)) v [])"

text \<open>A chain of casts visits every value at most once, so the number of values bounds the loop.\<close>

fun unwrap_loop :: "func_info \<Rightarrow> nat \<Rightarrow> val \<Rightarrow> val" where
  "unwrap_loop F 0 v = v"
| "unwrap_loop F (Suc n) v = (case value_of F v of Some (V_BitCast w) \<Rightarrow> unwrap_loop F n w | _ \<Rightarrow> v)"

definition unwrapCasts :: "func_info \<Rightarrow> val \<Rightarrow> val" where
  "unwrapCasts F v = unwrap_loop F (fi_nvals F) v"

section \<open>Structs by debug information\<close>

definition getDILocalVariableForAlloca :: "func_info \<Rightarrow> val \<Rightarrow> local_var option" where
  "getDILocalVariableForAlloca F v = map_option snd (find (\<lambda>(a, lv). a = v) (fi_declares F))"

definition var_struct :: "local_var \<Rightarrow> di_type option" where
  "var_struct lv = (case lv_type lv of None \<Rightarrow> None | Some ty \<Rightarrow> stripPtrToStruct ty)"

text \<open>The variables that debug information gives for the argument with this number.\<close>

definition vars_of_arg :: "func_info \<Rightarrow> nat \<Rightarrow> local_var list" where
  "vars_of_arg F k = (case fi_retained F of None \<Rightarrow> [] | Some lvs \<Rightarrow> filter (\<lambda>lv. lv_arg lv = k + 1) lvs)"

definition resolveStructDIType :: "func_info \<Rightarrow> val \<Rightarrow> (di_tag \<times> string \<times> nat) option" where
  "resolveStructDIType F v =
    (case value_of F v of
       Some (V_Arg k) \<Rightarrow>
         (case find (\<lambda>lv. var_struct lv \<noteq> None) (vars_of_arg F k) of
            None \<Rightarrow> None
          | Some lv \<Rightarrow> (case var_struct lv of None \<Rightarrow> None | Some ty \<Rightarrow> as_composite ty))
     | Some (V_Alloca t) \<Rightarrow>
         (case getDILocalVariableForAlloca F v of
            None \<Rightarrow> None
          | Some lv \<Rightarrow> (case var_struct lv of None \<Rightarrow> None | Some ty \<Rightarrow> as_composite ty))
     | _ \<Rightarrow> None)"

fun strip_qualifiers :: "di_type \<Rightarrow> di_type option" where
  "strip_qualifiers (Derived t n b) =
    (if t \<in> {DW_pointer, DW_const, DW_volatile, DW_restrict}
     then case b of None \<Rightarrow> None | Some ty \<Rightarrow> strip_qualifiers ty
     else Some (Derived t n b))"
| "strip_qualifiers ty = Some ty"

definition shown_name :: "di_type \<Rightarrow> string" where
  "shown_name ty = (if di_name ty = [] then ''<unnamed>'' else di_name ty)"

fun chain_allowed :: "string list \<Rightarrow> di_type \<Rightarrow> bool" where
  "chain_allowed A (Derived t n b) =
    (shown_name (Derived t n b) \<in> set A \<or> (case b of None \<Rightarrow> False | Some ty \<Rightarrow> chain_allowed A ty))"
| "chain_allowed A ty = (shown_name ty \<in> set A)"

definition struct_name_allowed :: "string list \<Rightarrow> (di_tag \<times> string \<times> nat) option \<Rightarrow> bool" where
  "struct_name_allowed A c = (case c of None \<Rightarrow> False | Some (t, n, e) \<Rightarrow> n \<in> set A)"

definition isValuePointerToAllowedStruct_ViaDbgRecord :: "func_info \<Rightarrow> string list \<Rightarrow> val \<Rightarrow> bool" where
  "isValuePointerToAllowedStruct_ViaDbgRecord F A v =
    list_ex (\<lambda>r. case (db_value r, db_var r) of
        (Some w, Some lv) \<Rightarrow>
          unwrapCasts F w = unwrapCasts F v \<and>
          ((case lv_type lv of
              None \<Rightarrow> False
            | Some ty \<Rightarrow> (case strip_qualifiers ty of None \<Rightarrow> False | Some ty \<Rightarrow> chain_allowed A ty)) \<or>
           struct_name_allowed A (case var_struct lv of None \<Rightarrow> None | Some ty \<Rightarrow> as_composite ty))
      | _ \<Rightarrow> False) (fi_records F)"

section \<open>The chain of pointers behind a called value\<close>

definition element_type_allowed :: "func_info \<Rightarrow> string list \<Rightarrow> (di_tag \<times> string \<times> nat) option \<Rightarrow> nat \<Rightarrow> bool" where
  "element_type_allowed F A c i =
    (case c of
       None \<Rightarrow> False
     | Some (t, n, e) \<Rightarrow>
         i < length (fi_elements F e) \<and> (case field_type (fi_elements F e ! i) of None \<Rightarrow> False | Some ft \<Rightarrow> di_name ft \<in> set A))"

definition gep_field :: "nat option list \<Rightarrow> nat" where
  "gep_field idx = (if length idx \<ge> 2 then case idx ! 1 of Some i \<Rightarrow> i mod 2 ^ 32 | None \<Rightarrow> 0 else 0)"

definition load_allowed :: "func_info \<Rightarrow> string list \<Rightarrow> val \<Rightarrow> bool" where
  "load_allowed F A p =
    ((case value_of F p of
        Some (V_GEP ty q idx) \<Rightarrow> element_type_allowed F A (resolveStructDIType F (unwrapCasts F q)) (gep_field idx)
      | _ \<Rightarrow> False) \<or>
     element_type_allowed F A (resolveStructDIType F (unwrapCasts F p)) 0 \<or>
     isValuePointerToAllowedStruct_ViaDbgRecord F A p)"

fun underlying :: "di_type \<Rightarrow> di_type option" where
  "underlying (Derived t n b) = (case b of None \<Rightarrow> None | Some ty \<Rightarrow> underlying ty)"
| "underlying ty = Some ty"

text \<open>For a PHI node every variable of the function counts.\<close>

definition phi_allowed :: "func_info \<Rightarrow> string list \<Rightarrow> bool" where
  "phi_allowed F A =
    list_ex (\<lambda>r. case db_var r of
        None \<Rightarrow> False
      | Some lv \<Rightarrow>
          struct_name_allowed A
            (case lv_type lv of None \<Rightarrow> None | Some ty \<Rightarrow> (case underlying ty of None \<Rightarrow> None | Some ty \<Rightarrow> as_composite ty))) (fi_records F)"

definition value_allowed :: "func_info \<Rightarrow> string list \<Rightarrow> val \<Rightarrow> bool" where
  "value_allowed F A v =
    (isValuePointerToAllowedStruct_ViaDbgRecord F A v \<or> struct_name_allowed A (resolveStructDIType F (unwrapCasts F v)))"

text \<open>The number argument is \<open>maxDepth + 1 - depth\<close>.\<close>

fun resolveChainForAllowedStruct :: "func_info \<Rightarrow> string list \<Rightarrow> nat \<Rightarrow> val \<Rightarrow> val list \<Rightarrow> bool \<times> val list"
  and resolve_incoming :: "func_info \<Rightarrow> string list \<Rightarrow> nat \<Rightarrow> val list \<Rightarrow> val list \<Rightarrow> bool \<times> val list" where
  "resolveChainForAllowedStruct F A 0 v visited = (False, visited)"
| "resolveChainForAllowedStruct F A (Suc n) v visited =
    (if v \<ge> fi_nvals F \<or> v \<in> set visited then (False, visited)
     else
       let visited = v # visited in
       if value_allowed F A v then (True, visited)
       else
         (case fi_value F v of
            V_Load p \<Rightarrow> if load_allowed F A p then (True, visited) else resolveChainForAllowedStruct F A n p visited
          | V_Phi vs \<Rightarrow> if phi_allowed F A then (True, visited) else resolve_incoming F A n vs visited
          | V_Select a b \<Rightarrow> resolve_incoming F A n [a, b] visited
          | V_GEP ty p idx \<Rightarrow> resolveChainForAllowedStruct F A n p visited
          | V_BitCast p \<Rightarrow> resolveChainForAllowedStruct F A n p visited
          | _ \<Rightarrow> (False, visited)))"
| "resolve_incoming F A n [] visited = (False, visited)"
| "resolve_incoming F A n (v # vs) visited =
    (case resolveChainForAllowedStruct F A n v visited of
       (True, visited) \<Rightarrow> (True, visited)
     | (False, visited) \<Rightarrow> resolve_incoming F A n vs visited)"

abbreviation (input) "maxDepth \<equiv> (8 :: nat)"

section \<open>The verdict on an indirect call\<close>

definition printStructArgTypes :: "func_info \<Rightarrow> string list \<Rightarrow> (nat \<times> string \<times> val) list" where
  "printStructArgTypes F A =
    (case fi_types F of
       None \<Rightarrow> []
     | Some types \<Rightarrow>
         List.map_filter (\<lambda>(i, meta).
             case (case meta of None \<Rightarrow> None | Some ty \<Rightarrow> (case stripPtrToStruct ty of None \<Rightarrow> None | Some ty \<Rightarrow> as_composite ty)) of
               Some (t, n, e) \<Rightarrow> if t = DW_structure \<and> n \<in> set A \<and> i < length (fi_args F) then Some (i, n, fi_args F ! i) else None
             | None \<Rightarrow> None)
           (enumerate 0 (drop 1 types)))"

text \<open>A function pointer reached through an argument that points to a struct.\<close>

definition double_load :: "func_info \<Rightarrow> string list \<Rightarrow> val \<Rightarrow> bool" where
  "double_load F A p1 =
    (case value_of F p1 of
       Some (V_Load p2) \<Rightarrow>
         (case value_of F (unwrapCasts F p2) of
            Some (V_Arg k) \<Rightarrow>
              list_ex (\<lambda>lv. case (case var_struct lv of None \<Rightarrow> None | Some ty \<Rightarrow> as_composite ty) of
                  None \<Rightarrow> False
                | Some (t, n, e) \<Rightarrow>
                    list_ex (\<lambda>el. case (case field_type el of None \<Rightarrow> None | Some ft \<Rightarrow> as_composite ft) of
                        None \<Rightarrow> False
                      | Some (t', n', e') \<Rightarrow> n' \<in> set A \<and> hasFunctionPointerField (fi_elements F e')) (fi_elements F e)) (vars_of_arg F k)
          | _ \<Rightarrow> False)
     | _ \<Rightarrow> False)"

definition single_load :: "func_info \<Rightarrow> string list \<Rightarrow> val \<Rightarrow> bool" where
  "single_load F A p1 =
    (case value_of F (unwrapCasts F p1) of
       Some (V_Arg k) \<Rightarrow>
         list_ex (\<lambda>lv. case (case var_struct lv of None \<Rightarrow> None | Some ty \<Rightarrow> as_composite ty) of
             None \<Rightarrow> False
           | Some (t, n, e) \<Rightarrow> stripStructPrefix n \<in> set A \<and> hasFunctionPointerField (fi_elements F e)) (vars_of_arg F k)
     | _ \<Rightarrow> False)"

definition struct_verdict :: "string list \<Rightarrow> ir_type \<Rightarrow> nat option" where
  "struct_verdict A ty =
    (case ty of
       Struct_Ty (Some n) \<Rightarrow>
         if stripStructPrefix n \<in> set A then Some (if stripStructPrefix n = ''rtld_global_ro'' then 2 else 1) else None
     | _ \<Rightarrow> None)"

text \<open>The cases of a field address; \<open>None\<close> where the search goes on.\<close>

definition gep_verdict :: "func_info \<Rightarrow> string list \<Rightarrow> (nat \<times> string \<times> val) list \<Rightarrow> ir_type \<Rightarrow> val \<Rightarrow> nat option" where
  "gep_verdict F A structPtrArgs ty q =
    (case find (\<lambda>(i, n, a). getOriginArgument F (fi_strip F q) = Some a) structPtrArgs of
       Some (i, n, a) \<Rightarrow> Some (if n \<noteq> [] \<and> stripStructPrefix n = ''rtld_global_ro'' then 2 else 1)
     | None \<Rightarrow>
         case ty of
           Struct_Ty _ \<Rightarrow> struct_verdict A ty
         | Int_Ty w \<Rightarrow>
             if w \<noteq> 8 then None
             else
               (case value_of F (unwrapCasts F q) of
                  None \<Rightarrow> Some 0
                | Some (V_Alloca t) \<Rightarrow> struct_verdict A t
                | Some (V_Global g t) \<Rightarrow> if g = ''rtld_global_ro'' then Some 2 else map_option (\<lambda>_. 1) (struct_verdict A t)
                | _ \<Rightarrow> None)
         | Other_Ty \<Rightarrow> None)"

text \<open>The verdict is 2 for a call that stays as it is, 1 for a possible callback and 0 otherwise; \<open>None\<close> where a null pointer is dereferenced.\<close>

definition reportStructOriginOfIndirCalls :: "func_info \<Rightarrow> (nat \<times> string \<times> val) list \<Rightarrow> string list \<Rightarrow> val \<Rightarrow> nat option" where
  "reportStructOriginOfIndirCalls F structPtrArgs A operand =
    (let called = fi_strip F operand;
         chain = Some (if fst (resolveChainForAllowedStruct F A (maxDepth + 1) called []) then 1 else 0)
     in case value_of F called of
          Some (V_Function f) \<Rightarrow> Some 0
        | Some (V_Load p1) \<Rightarrow>
            if double_load F A p1 \<or> single_load F A p1 then Some 1
            else
              (case value_of F p1 of
                 Some (V_GEP ty q idx) \<Rightarrow> (case gep_verdict F A structPtrArgs ty q of Some r \<Rightarrow> Some r | None \<Rightarrow> chain)
               | Some (V_ConstGEP q) \<Rightarrow>
                   (case value_of F (fi_strip F q) of
                      Some (V_Global g t) \<Rightarrow> if g = ''_rtld_global_ro'' then Some 2 else chain
                    | _ \<Rightarrow> None)
               | _ \<Rightarrow> chain)
        | _ \<Rightarrow> chain)"

section \<open>The origin search is exact\<close>

text \<open>A value is an argument, or a cast, field address or reload of something that comes from one.\<close>

definition origin_step :: "func_info \<Rightarrow> val \<Rightarrow> val \<Rightarrow> bool" where
  "origin_step F v w \<longleftrightarrow>
    (case value_of F v of
       Some (V_BitCast u) \<Rightarrow> w = u
     | Some (V_GEP ty u idx) \<Rightarrow> w = u
     | Some (V_Load p) \<Rightarrow> (\<exists>ty. value_of F p = Some (V_Alloca ty)) \<and> (p, w) \<in> set (fi_store_users F p)
     | _ \<Rightarrow> False)"

inductive comes_from :: "func_info \<Rightarrow> val \<Rightarrow> val \<Rightarrow> bool" for F where
  comes_arg: "value_of F v = Some (V_Arg k) \<Longrightarrow> comes_from F v v"
| comes_step: "origin_step F v w \<Longrightarrow> comes_from F w a \<Longrightarrow> comes_from F v a"

lemma origin_sound:
  "fst (getOriginArgumentImpl F n v visited) = Some a \<Longrightarrow> comes_from F v a"
  "fst (origin_of_stores F n p us visited) = Some a \<Longrightarrow> \<exists>w. (p, w) \<in> set us \<and> comes_from F w a"
proof (induction F n v visited and F n p us visited rule: getOriginArgumentImpl_origin_of_stores.induct)
  case (2 F n v visited)
  have v: "v < fi_nvals F" "v \<notin> set visited" using "2.prems" by (auto split: if_splits)
  note run = "2.prems" [unfolded getOriginArgumentImpl.simps Let_def]
  show ?case
  proof (cases "fi_value F v")
    case (V_Arg k)
    then show ?thesis using run v by (auto simp: value_of_def intro: comes_arg)
  next
    case (V_BitCast w)
    then show ?thesis using run v "2.IH"(1) [OF _ refl V_BitCast] by (auto simp: value_of_def origin_step_def intro!: comes_step [of F v w])
  next
    case (V_GEP ty w idx)
    then show ?thesis using run v "2.IH"(2) [OF _ refl V_GEP] by (auto simp: value_of_def origin_step_def intro!: comes_step [of F v w])
  next
    case (V_Load p)
    then obtain ty where ty: "value_of F p = Some (V_Alloca ty)" using run v by (auto split: option.splits ir_value.splits)
    then obtain w where "(p, w) \<in> set (fi_store_users F p)" "comes_from F w a"
      using run v V_Load "2.IH"(3) [OF _ refl V_Load ty] by auto
    then show ?thesis using V_Load ty v by (auto simp: origin_step_def value_of_def intro!: comes_step [of F v w])
  qed (use run v in auto)
next
  case (4 F n p ptr stored us visited)
  show ?case
  proof (cases "ptr = p \<and> fst (getOriginArgumentImpl F n stored visited) \<noteq> None")
    case True
    then show ?thesis using "4.prems" "4.IH"(1) by (auto split: prod.splits option.splits)
  next
    case False
    then obtain vis where "fst (origin_of_stores F n p us vis) = Some a"
      and "ptr = p \<longrightarrow> getOriginArgumentImpl F n stored visited = (None, vis)" "ptr \<noteq> p \<longrightarrow> vis = visited"
      using "4.prems" by (auto split: prod.splits option.splits if_splits)
    then show ?thesis using "4.IH"(2,3) by (cases "ptr = p") auto
  qed
qed auto

text \<open>A failed search has looked at everything the visited values come from.\<close>

definition explored :: "func_info \<Rightarrow> val set \<Rightarrow> val \<Rightarrow> bool" where
  "explored F W v \<longleftrightarrow> (\<forall>k. value_of F v \<noteq> Some (V_Arg k)) \<and> (\<forall>w. origin_step F v w \<longrightarrow> w < fi_nvals F \<longrightarrow> w \<in> W)"

definition unvisited :: "func_info \<Rightarrow> val list \<Rightarrow> nat" where
  "unvisited F visited = card ({..<fi_nvals F} - set visited)"

lemma explored_mono: "explored F W v \<Longrightarrow> W \<subseteq> W' \<Longrightarrow> explored F W' v"
  by (auto simp: explored_def)

lemma unvisited_Cons: "v < fi_nvals F \<Longrightarrow> v \<notin> set visited \<Longrightarrow> unvisited F visited = Suc (unvisited F (v # visited))"
proof -
  assume "v < fi_nvals F" "v \<notin> set visited"
  then have "v \<in> {..<fi_nvals F} - set visited" by simp
  moreover have "{..<fi_nvals F} - set (v # visited) = ({..<fi_nvals F} - set visited) - {v}" by auto
  ultimately show "unvisited F visited = Suc (unvisited F (v # visited))"
    unfolding unvisited_def by (metis card_Suc_Diff1 finite_Diff finite_lessThan)
qed

lemma unvisited_mono: "set visited \<subseteq> set visited' \<Longrightarrow> unvisited F visited' \<le> unvisited F visited"
  unfolding unvisited_def by (rule card_mono) auto

definition searched :: "func_info \<Rightarrow> val list \<Rightarrow> val list \<Rightarrow> bool" where
  "searched F visited visited' \<longleftrightarrow> set visited \<subseteq> set visited' \<and> (\<forall>u \<in> set visited' - set visited. explored F (set visited') u)"

lemma searched_trans: "searched F V W \<Longrightarrow> searched F W X \<Longrightarrow> searched F V X"
  unfolding searched_def using explored_mono by (metis Diff_iff subset_trans)

lemma searched_Cons:
  assumes "searched F (v # visited) visited'" "\<forall>k. value_of F v \<noteq> Some (V_Arg k)"
    and "\<And>w. origin_step F v w \<Longrightarrow> w < fi_nvals F \<Longrightarrow> w \<in> set visited'"
  shows "searched F visited visited' \<and> v \<in> set visited'"
proof -
  have "v \<in> set visited'" "set visited \<subseteq> set visited'" using assms(1) by (simp_all add: searched_def)
  moreover have "explored F (set visited') u" if "u \<in> set visited' - set visited" for u
  proof (cases "u = v")
    case True
    then show ?thesis using assms(2,3) by (simp add: explored_def)
  next
    case False
    then show ?thesis using assms(1) that by (simp add: searched_def)
  qed
  ultimately show ?thesis by (simp add: searched_def)
qed

lemma origin_complete:
  "getOriginArgumentImpl F n v visited = (None, visited') \<Longrightarrow> unvisited F visited < n \<Longrightarrow>
    searched F visited visited' \<and> (v < fi_nvals F \<longrightarrow> v \<in> set visited')"
  "origin_of_stores F n p us visited = (None, visited') \<Longrightarrow> unvisited F visited < n \<Longrightarrow>
    searched F visited visited' \<and> (\<forall>w. (p, w) \<in> set us \<longrightarrow> w < fi_nvals F \<longrightarrow> w \<in> set visited')"
proof (induction F n v visited and F n p us visited arbitrary: visited' and visited' rule: getOriginArgumentImpl_origin_of_stores.induct)
  case (2 F n v visited)
  show ?case
  proof (cases "v \<ge> fi_nvals F \<or> v \<in> set visited")
    case True
    then show ?thesis using "2.prems" by (auto simp: searched_def)
  next
    case False
    then have u: "unvisited F (v # visited) < n" using "2.prems"(2) unvisited_Cons [of v F visited] by simp
    have v: "value_of F v = Some (fi_value F v)" using False by (simp add: value_of_def)
    note run = "2.prems"(1) [unfolded getOriginArgumentImpl.simps Let_def]
    have "searched F visited visited' \<and> v \<in> set visited'"
    proof (cases "fi_value F v")
      case (V_BitCast w)
      then have "searched F (v # visited) visited' \<and> (w < fi_nvals F \<longrightarrow> w \<in> set visited')"
        using run False "2.IH"(1) [OF False refl V_BitCast, of visited'] u by simp
      then show ?thesis using V_BitCast v by (intro searched_Cons) (auto simp: origin_step_def)
    next
      case (V_GEP ty w idx)
      then have "searched F (v # visited) visited' \<and> (w < fi_nvals F \<longrightarrow> w \<in> set visited')"
        using run False "2.IH"(2) [OF False refl V_GEP, of visited'] u by simp
      then show ?thesis using V_GEP v by (intro searched_Cons) (auto simp: origin_step_def)
    next
      case (V_Load p)
      show ?thesis
      proof (cases "\<exists>ty. value_of F p = Some (V_Alloca ty)")
        case True
        then obtain ty where ty: "value_of F p = Some (V_Alloca ty)" by blast
        have "searched F (v # visited) visited' \<and> (\<forall>w. (p, w) \<in> set (fi_store_users F p) \<longrightarrow> w < fi_nvals F \<longrightarrow> w \<in> set visited')"
          using run False V_Load ty u by (intro "2.IH"(3) [OF False refl V_Load ty refl]) auto
        then show ?thesis using V_Load v by (intro searched_Cons) (auto simp: origin_step_def)
      next
        case no: False
        then have "visited' = v # visited" using run False V_Load by (auto split: option.splits ir_value.splits)
        then show ?thesis using V_Load no v by (intro searched_Cons) (auto simp: origin_step_def searched_def)
      qed
    qed (use run False v in \<open>auto simp: origin_step_def searched_def explored_def\<close>)
    then show ?thesis by simp
  qed
next
  case (4 F n p ptr stored us visited)
  show ?case
  proof (cases "ptr = p")
    case True
    obtain vis where 1: "getOriginArgumentImpl F n stored visited = (None, vis)" "origin_of_stores F n p us vis = (None, visited')"
      using "4.prems"(1) True by (auto split: prod.splits option.splits)
    have s: "searched F visited vis \<and> (stored < fi_nvals F \<longrightarrow> stored \<in> set vis)" by (rule "4.IH"(1) [OF True 1(1) "4.prems"(2)])
    then have "unvisited F vis < n" using unvisited_mono [of visited vis F] "4.prems"(2) by (simp add: searched_def)
    then have "searched F vis visited' \<and> (\<forall>w. (p, w) \<in> set us \<longrightarrow> w < fi_nvals F \<longrightarrow> w \<in> set visited')"
      using "4.IH"(2) [OF True 1(1) [symmetric] refl 1(2)] by simp
    then show ?thesis using s searched_trans [of F visited vis visited'] True by (auto simp: searched_def)
  next
    case False
    then show ?thesis using "4.prems" "4.IH"(3) by auto
  qed
qed (auto simp: searched_def)

lemma explored_no_origin:
  assumes "comes_from F v a" "v \<in> W" "\<forall>u \<in> W. explored F W u"
  shows False
  using assms
proof (induction rule: comes_from.induct)
  case (comes_step v w a)
  have "w < fi_nvals F" using comes_step.hyps(2) by (cases rule: comes_from.cases) (auto simp: value_of_def origin_step_def split: if_splits option.splits)
  then show ?case using comes_step by (auto simp: explored_def)
qed (auto simp: explored_def)

text \<open>
  C38: The search for the argument behind a pointer ends and is exact.  It finds an argument if and only
  if one can be reached from the value by undoing casts and field addresses and by looking at what
  was stored in a stack slot, and what it finds is such an argument; values that depend on
  themselves through stack slots do no harm.
\<close>

theorem origin_argument_exact:
  "case getOriginArgument F v of Some a \<Rightarrow> comes_from F v a | None \<Rightarrow> \<not> (\<exists>a. comes_from F v a)"
proof (cases "getOriginArgument F v")
  case None
  then obtain W where W: "getOriginArgumentImpl F (Suc (fi_nvals F)) v [] = (None, W)"
    unfolding getOriginArgument_def by (metis prod.collapse)
  moreover have "unvisited F [] < Suc (fi_nvals F)" by (simp add: unvisited_def)
  ultimately have s: "searched F [] W" "v < fi_nvals F \<longrightarrow> v \<in> set W" using origin_complete(1) by blast+
  have "False" if "comes_from F v a" for a
  proof -
    have "v < fi_nvals F" using that by (cases rule: comes_from.cases) (auto simp: value_of_def origin_step_def split: if_splits option.splits)
    then show False using explored_no_origin [OF that, of "set W"] s by (simp add: searched_def)
  qed
  then show ?thesis using None by auto
next
  case (Some a)
  then show ?thesis using origin_sound(1) [of F "Suc (fi_nvals F)" v "[]" a] by (simp add: getOriginArgument_def)
qed

section \<open>The chain search\<close>

definition chain_step :: "func_info \<Rightarrow> val \<Rightarrow> val \<Rightarrow> bool" where
  "chain_step F v w \<longleftrightarrow>
    (case value_of F v of
       Some (V_Load p) \<Rightarrow> w = p
     | Some (V_Phi vs) \<Rightarrow> w \<in> set vs
     | Some (V_Select a b) \<Rightarrow> w = a \<or> w = b
     | Some (V_GEP ty p idx) \<Rightarrow> w = p
     | Some (V_BitCast p) \<Rightarrow> w = p
     | _ \<Rightarrow> False)"

definition chain_hit :: "func_info \<Rightarrow> string list \<Rightarrow> val \<Rightarrow> bool" where
  "chain_hit F A v \<longleftrightarrow> value_allowed F A v \<or>
    (case value_of F v of Some (V_Load p) \<Rightarrow> load_allowed F A p | Some (V_Phi vs) \<Rightarrow> phi_allowed F A | _ \<Rightarrow> False)"

definition chain_reaches :: "func_info \<Rightarrow> string list \<Rightarrow> nat \<Rightarrow> val \<Rightarrow> bool" where
  "chain_reaches F A n v \<longleftrightarrow> (\<exists>k < n. \<exists>w. (chain_step F ^^ k) v w \<and> chain_hit F A w)"

lemma chain_reaches_hit: "chain_hit F A v \<Longrightarrow> chain_reaches F A (Suc n) v"
  unfolding chain_reaches_def by (intro exI [of _ 0] conjI exI [of _ v]) auto

lemma chain_reaches_step: "chain_step F v w \<Longrightarrow> chain_reaches F A n w \<Longrightarrow> chain_reaches F A (Suc n) v"
  unfolding chain_reaches_def by (metis Suc_mono relpowp_Suc_I2)

text \<open>A positive answer has a reason on the chain.\<close>

lemma resolve_chain_sound:
  "fst (resolveChainForAllowedStruct F A n v visited) \<Longrightarrow> chain_reaches F A n v"
  "fst (resolve_incoming F A n vs visited) \<Longrightarrow> \<exists>v \<in> set vs. chain_reaches F A n v"
proof (induction F A n v visited and F A n vs visited rule: resolveChainForAllowedStruct_resolve_incoming.induct)
  case (2 F A n v visited)
  have ok: "\<not> (v \<ge> fi_nvals F \<or> v \<in> set visited)" using "2.prems" by (auto split: if_splits)
  then have v: "value_of F v = Some (fi_value F v)" by (simp add: value_of_def)
  note run = "2.prems" [unfolded resolveChainForAllowedStruct.simps Let_def]
  show ?case
  proof (cases "chain_hit F A v")
    case True
    then show ?thesis by (rule chain_reaches_hit)
  next
    case False
    then have na: "\<not> value_allowed F A v" by (simp add: chain_hit_def)
    note IH = "2.IH" [OF ok refl na]
    have "\<exists>w. chain_step F v w \<and> chain_reaches F A n w"
      using run ok na False IH v
      by (cases "fi_value F v") (auto simp: chain_hit_def chain_step_def split: if_splits)
    then show ?thesis using chain_reaches_step by blast
  qed
next
  case (4 F A n v vs visited)
  then show ?case by (auto split: prod.splits bool.splits)
qed auto

text \<open>
  A function in which the search follows a long chain of field addresses first and then refuses to
  look again at a value it met at the largest depth: 0 is a PHI node of 1 and 9, the values 1 to 7 are
  addresses based on the next value, 9 is based on 8 as well, and 8 on 10, an argument that points to
  a \<open>struct ops\<close>.
\<close>

definition deep_fun :: func_info where
  "deep_fun = \<lparr>fi_nvals = 11,
     fi_value = (\<lambda>v. if v = 0 then V_Phi [1, 9] else if v = 8 then V_GEP Other_Ty 10 [] else if v = 9 then V_GEP Other_Ty 8 []
                     else if v = 10 then V_Arg 0 else V_GEP Other_Ty (v + 1) []),
     fi_store_users = (\<lambda>v. []), fi_args = [10], fi_strip = (\<lambda>v. v), fi_elements = (\<lambda>e. []),
     fi_retained = Some [\<lparr>lv_arg = 1, lv_type = Some (Derived DW_pointer [] (Some (Composite DW_structure ''ops'' 0)))\<rparr>],
     fi_types = None, fi_records = [], fi_declares = []\<rparr>"

text \<open>
  The chain search can miss a struct within its depth limit.  There is a function in which the
  variable of an allowed struct type is three steps from the called value, but the answer is that no
  such variable is found: a value first met at the depth limit is not examined when it is reached
  again by a shorter way.
\<close>

theorem chain_search_misses:
  "chain_reaches deep_fun [''ops''] 4 0 \<and> \<not> fst (resolveChainForAllowedStruct deep_fun [''ops''] (maxDepth + 1) 0 [])"
proof
  have s: "chain_step deep_fun 0 9" "chain_step deep_fun 9 8" "chain_step deep_fun 8 10"
    by (simp_all add: chain_step_def deep_fun_def value_of_def)
  have "value_allowed deep_fun [''ops''] 10" by code_simp
  then have "chain_reaches deep_fun [''ops''] (Suc 0) 10" by (intro chain_reaches_hit) (simp add: chain_hit_def)
  then have "chain_reaches deep_fun [''ops''] (Suc (Suc (Suc (Suc 0)))) 0" using s chain_reaches_step by blast
  then show "chain_reaches deep_fun [''ops''] 4 0" by (simp add: numeral_eq_Suc)
  show "\<not> fst (resolveChainForAllowedStruct deep_fun [''ops''] (maxDepth + 1) 0 [])" by code_simp
qed

section \<open>Calls that stay as they are\<close>

text \<open>The called value is loaded from the loader's own table of functions.\<close>

definition named_rtld :: "ir_type \<Rightarrow> bool" where
  "named_rtld ty \<longleftrightarrow> (\<exists>n. ty = Struct_Ty (Some n) \<and> stripStructPrefix n = ''rtld_global_ro'')"

definition field_of_rtld :: "func_info \<Rightarrow> (nat \<times> string \<times> val) list \<Rightarrow> ir_type \<Rightarrow> val \<Rightarrow> bool" where
  "field_of_rtld F structPtrArgs ty q \<longleftrightarrow>
    (\<exists>(i, n, a) \<in> set structPtrArgs. comes_from F (fi_strip F q) a \<and> stripStructPrefix n = ''rtld_global_ro'') \<or> named_rtld ty \<or>
    (\<exists>t. value_of F (unwrapCasts F q) = Some (V_Alloca t) \<and> named_rtld t) \<or>
    (\<exists>t. value_of F (unwrapCasts F q) = Some (V_Global ''rtld_global_ro'' t))"

definition reads_rtld :: "func_info \<Rightarrow> (nat \<times> string \<times> val) list \<Rightarrow> val \<Rightarrow> bool" where
  "reads_rtld F structPtrArgs operand \<longleftrightarrow>
    (\<exists>p. value_of F (fi_strip F operand) = Some (V_Load p) \<and>
      ((\<exists>ty q idx. value_of F p = Some (V_GEP ty q idx) \<and> field_of_rtld F structPtrArgs ty q) \<or>
       (\<exists>q t. value_of F p = Some (V_ConstGEP q) \<and> value_of F (fi_strip F q) = Some (V_Global ''_rtld_global_ro'' t))))"

lemma struct_verdict_2: "struct_verdict A ty = Some 2 \<Longrightarrow> named_rtld ty"
  by (auto simp: struct_verdict_def named_rtld_def split: ir_type.splits option.splits if_splits)

lemma gep_verdict_2:
  assumes "gep_verdict F A args ty q = Some 2"
  shows "field_of_rtld F args ty q"
proof (cases "find (\<lambda>(i, n, a). getOriginArgument F (fi_strip F q) = Some a) args")
  case None
  then show ?thesis
    using assms struct_verdict_2 unfolding gep_verdict_def field_of_rtld_def
    by (auto split: ir_type.splits option.splits ir_value.splits if_splits)
next
  case (Some x)
  obtain i n a where x: "x = (i, n, a)" by (cases x)
  then have "(i, n, a) \<in> set args" "getOriginArgument F (fi_strip F q) = Some a" using Some by (auto simp: find_Some_iff in_set_conv_nth)
  moreover have "stripStructPrefix n = ''rtld_global_ro''" using assms Some x by (auto simp: gep_verdict_def split: if_splits)
  moreover have "comes_from F (fi_strip F q) a"
    using calculation(2) origin_sound(1) unfolding getOriginArgument_def by blast
  ultimately show ?thesis unfolding field_of_rtld_def by blast
qed


definition rtld_fun :: func_info where
  "rtld_fun = \<lparr>fi_nvals = 4,
     fi_value = (\<lambda>v. if v = 0 then V_Global ''_rtld_global_ro'' Other_Ty else if v = 1 then V_ConstGEP 0 else if v = 2 then V_Load 1 else V_Other),
     fi_store_users = (\<lambda>v. []), fi_args = [], fi_strip = (\<lambda>v. v), fi_elements = (\<lambda>e. []), fi_retained = None, fi_types = None,
     fi_records = [], fi_declares = []\<rparr>"


end
