(* ===== verification/Pass_BitMasks.thy ===== *)
theory Pass_BitMasks
  imports Pass_Analysis Loader_Window
begin

text \<open>
  The LLVM pass BitMasks (\<open>src/llvm-passes/BitMasks/BitMasks.cpp\<close>): it rewrites the indirect calls of a
  module so that they call a masked pointer, test whether masking changes the pointer and call
  \<open>callback_table\<close> if it does, or always call one of the callback tables.  The second half gives the
  rewritten functions a meaning, a type system that accepts only functions whose indirect calls are
  masked, and the correspondence with the functions before the pass.
\<close>

section \<open>Functions\<close>

type_synonym label = nat

datatype callee = Indirect val | Direct string | Inline_Asm nat

text \<open>
  Instructions with the value they define first.  \<open>Op\<close> is any instruction the pass does not look at;
  the flag of a call tells whether its type is void.  Masks are the values of the symbols \<open>or_mask\<close>
  and \<open>and_mask\<close>; \<open>MovR11\<close> and \<open>OrAndAsm\<close> are the two pieces of inline assembly.
\<close>

datatype instr =
    Op val nat "val list"
  | Call val bool callee "val list"
  | PtrToInt val val
  | OrMask val val
  | AndMask val val
  | IntToPtr val val
  | MovR11 val
  | OrAndAsm val val
  | ICmpEQ val val val

datatype terminator =
    Br label
  | CondBr val label label
  | Invoke val callee "val list" label label
  | Other_Term nat "val list" "label list"

record block =
  b_phis :: "(val \<times> (val \<times> label) list) list"
  b_body :: "instr list"
  b_term :: terminator

text \<open>A function with what the analysis reads of it and the next free numbers for values and blocks.\<close>

record ir_fun =
  f_name :: string
  f_info :: func_info
  f_blocks :: "(label \<times> block) list"
  f_next_val :: val
  f_next_label :: label

text \<open>
  The entries of \<open>llvm.global.annotations\<close> give the annotated function and the text, where the entry
  has this form.
\<close>

record ir_module =
  m_identifier :: string
  m_source :: string
  m_globals :: "string list"
  m_annotations :: "(string \<times> string) option list"
  m_funs :: "ir_fun list"

text \<open>The environment variable \<open>LOADER\<close> and the lists of \<open>dso_callbacks.cpp\<close>.\<close>

record pass_env =
  pe_loader :: bool
  pe_structs :: "string list"
  pe_globals :: "string list"

section \<open>What to do with a call\<close>

datatype action = Leave | To_Table string | Check_Callback | Mask_Target

definition collectCallbackMaybeFunctions :: "ir_module \<Rightarrow> string list" where
  "collectCallbackMaybeFunctions M =
    List.map_filter (\<lambda>e. case e of Some (f, anno) \<Rightarrow> if anno = ''callback_maybe'' then Some f else None | None \<Rightarrow> None) (m_annotations M)"

definition has_suffix :: "string \<Rightarrow> string \<Rightarrow> bool" where
  "has_suffix p s = (length p \<le> length s \<and> drop (length s - length p) s = p)"

definition table_functions :: "string list" where
  "table_functions = [''__run_exit_handlers'', ''__libc_start_main_impl'', ''__libc_start_call_main'', ''__GI___backtrace'', ''backtrace_helper'',
     ''start_thread'', ''__cxa_finalize'']"

record pass_fun =
  pf_env :: pass_env
  pf_name :: string
  pf_callback :: bool
  pf_args :: "(nat \<times> string \<times> val) list"

text \<open>The function that receives all indirect calls of one of the special functions of the C library.\<close>

definition table_of :: "pass_fun \<Rightarrow> string option" where
  "table_of P =
    (if has_suffix ''__nptl_deallocate_tsd'' (pf_name P) then Some ''threadkey_callback_table''
     else if pf_name P = ''_dl_call_fini'' \<and> pe_loader (pf_env P) then Some ''fini_callback_table''
     else if pf_name P \<in> set table_functions then Some ''callback_table''
     else None)"

definition called_global :: "func_info \<Rightarrow> val \<Rightarrow> string option" where
  "called_global F t =
    (let base = (case value_of F t of Some (V_Load p) \<Rightarrow> fi_strip F p | _ \<Rightarrow> fi_strip F t)
     in case value_of F base of Some (V_Global g ty) \<Rightarrow> Some g | _ \<Rightarrow> None)"

definition call_action :: "pass_fun \<Rightarrow> func_info \<Rightarrow> val \<Rightarrow> action option" where
  "call_action P F t =
    (case table_of P of
       Some table \<Rightarrow> Some (To_Table table)
     | None \<Rightarrow>
         case reportStructOriginOfIndirCalls F (pf_args P) (pe_structs (pf_env P)) t of
           None \<Rightarrow> None
         | Some rtld_glob \<Rightarrow>
             if rtld_glob = 2 then Some Leave
             else
               let GV1 = (if rtld_glob = 0 then called_global F t else None) in
               if pf_callback P \<or> rtld_glob = 1 \<or> (case GV1 of Some g \<Rightarrow> g \<in> set (pe_globals (pf_env P)) | None \<Rightarrow> False)
               then Some Check_Callback
               else Some Mask_Target)"

section \<open>Instrumentation\<close>

text \<open>
  The function as the analysis sees it after the calls treated so far, the next free numbers, and the
  called values of the calls left as they are.
\<close>

record pass_state =
  ps_info :: func_info
  ps_val :: val
  ps_label :: label
  ps_left :: "val list"

text \<open>New values that the analysis of later calls cannot look through.\<close>

definition add_values :: "nat \<Rightarrow> pass_state \<Rightarrow> pass_state" where
  "add_values k ps = ps\<lparr>ps_val := ps_val ps + k,
     ps_info := (ps_info ps)\<lparr>fi_nvals := ps_val ps + k,
       fi_value := (\<lambda>v. if ps_val ps \<le> v \<and> v < ps_val ps + k then V_Other else fi_value (ps_info ps) v)\<rparr>\<rparr>"

text \<open>The PHI node takes the place of the result of the call.\<close>

definition merge_call :: "val \<Rightarrow> bool \<Rightarrow> pass_state \<Rightarrow> pass_state" where
  "merge_call r void ps =
    (let n = ps_val ps;
         ps' = add_values 4 ps;
         ps' = ps'\<lparr>ps_label := ps_label ps + 3\<rparr>
     in if void then ps'
        else ps'\<lparr>ps_info := (ps_info ps')\<lparr>fi_value := (fi_value (ps_info ps'))(r := V_Phi [n + 2, n + 3])\<rparr>\<rparr>)"

definition instrumentNormalCase :: "val \<Rightarrow> val \<Rightarrow> bool \<Rightarrow> val \<Rightarrow> val list \<Rightarrow> instr list" where
  "instrumentNormalCase n r void t args =
    [PtrToInt n t, OrMask (n + 1) n, AndMask (n + 2) (n + 1), IntToPtr (n + 3) (n + 2), Call r void (Indirect (n + 3)) args]"

definition always_callback_table :: "val \<Rightarrow> bool \<Rightarrow> val \<Rightarrow> val list \<Rightarrow> string \<Rightarrow> instr list" where
  "always_callback_table r void t args table = [MovR11 t, Call r void (Direct table) args]"

definition check_code :: "val \<Rightarrow> val \<Rightarrow> instr list" where
  "check_code n t = [MovR11 t, OrAndAsm n t, ICmpEQ (n + 1) t n]"

definition check_blocks :: "val \<Rightarrow> label \<Rightarrow> bool \<Rightarrow> val \<Rightarrow> val list \<Rightarrow> (label \<times> block) list" where
  "check_blocks n l void t args =
    [(l + 1, \<lparr>b_phis = [], b_body = [Call (n + 2) void (Indirect t) args], b_term = Br l\<rparr>),
     (l + 2, \<lparr>b_phis = [], b_body = [Call (n + 3) void (Direct ''callback_table'') args], b_term = Br l\<rparr>)]"

definition after_phis :: "val \<Rightarrow> label \<Rightarrow> val \<Rightarrow> bool \<Rightarrow> (val \<times> (val \<times> label) list) list" where
  "after_phis n l r void = (if void then [] else [(r, [(n + 2, l + 1), (n + 3, l + 2)])])"

type_synonym body_result = "instr list \<times> terminator \<times> (label \<times> block) list \<times> label \<times> pass_state"

definition prepend :: "instr list \<Rightarrow> body_result option \<Rightarrow> body_result option" where
  "prepend xs res = map_option (\<lambda>(body, rest). (xs @ body, rest)) res"

text \<open>
  The calls of a block from left to right: the instructions that stay in the block, its terminator, the
  new blocks and the block the old terminator is in now.  The part after a tested call becomes a block
  of its own.
\<close>

fun instrument_body :: "pass_fun \<Rightarrow> label \<Rightarrow> instr list \<Rightarrow> terminator \<Rightarrow> pass_state \<Rightarrow> body_result option" where
  "instrument_body P cur [] term ps = Some ([], term, [], cur, ps)"
| "instrument_body P cur (Call r void (Indirect t) args # is) term ps =
    (case call_action P (ps_info ps) t of
       None \<Rightarrow> None
     | Some Leave \<Rightarrow> prepend [Call r void (Indirect t) args] (instrument_body P cur is term (ps\<lparr>ps_left := t # ps_left ps\<rparr>))
     | Some (To_Table table) \<Rightarrow> prepend (always_callback_table r void t args table) (instrument_body P cur is term ps)
     | Some Mask_Target \<Rightarrow> prepend (instrumentNormalCase (ps_val ps) r void t args) (instrument_body P cur is term (add_values 4 ps))
     | Some Check_Callback \<Rightarrow>
         let n = ps_val ps; l = ps_label ps in
         (case instrument_body P l is term (merge_call r void ps) of
            None \<Rightarrow> None
          | Some (body, term', new, ending, ps') \<Rightarrow>
              Some (check_code n t, CondBr (n + 1) (l + 1) (l + 2),
                (l, \<lparr>b_phis = after_phis n l r void, b_body = body, b_term = term'\<rparr>) # check_blocks n l void t args @ new, ending, ps')))"
| "instrument_body P cur (i # is) term ps = prepend [i] (instrument_body P cur is term ps)"

text \<open>The blocks in order, with the block each of them ends in.\<close>

fun instrument_blocks :: "pass_fun \<Rightarrow> (label \<times> block) list \<Rightarrow> pass_state \<Rightarrow> ((label \<times> block) list \<times> (label \<times> label) list \<times> pass_state) option" where
  "instrument_blocks P [] ps = Some ([], [], ps)"
| "instrument_blocks P ((l, b) # bs) ps =
    (case instrument_body P l (b_body b) (b_term b) ps of
       None \<Rightarrow> None
     | Some (body, term', new, ending, ps) \<Rightarrow>
         (case instrument_blocks P bs ps of
            None \<Rightarrow> None
          | Some (blocks, ends, ps) \<Rightarrow>
              Some ((l, b\<lparr>b_body := body, b_term := term'\<rparr>) # new @ blocks, (l, ending) # ends, ps)))"

text \<open>Splitting a block makes the PHI nodes of its successors name the new last part.\<close>

definition end_of :: "(label \<times> label) list \<Rightarrow> label \<Rightarrow> label" where
  "end_of ends l = (case map_of ends l of None \<Rightarrow> l | Some e \<Rightarrow> e)"

definition rename_phis :: "(label \<Rightarrow> label) \<Rightarrow> block \<Rightarrow> block" where
  "rename_phis f b = b\<lparr>b_phis := map (\<lambda>(x, inc). (x, map (\<lambda>(v, l). (v, f l)) inc)) (b_phis b)\<rparr>"

definition pass_fun_of :: "pass_env \<Rightarrow> string list \<Rightarrow> ir_fun \<Rightarrow> pass_fun" where
  "pass_fun_of E maybe F =
    \<lparr>pf_env = E, pf_name = f_name F, pf_callback = f_name F \<in> set maybe, pf_args = printStructArgTypes (f_info F) (pe_structs E)\<rparr>"

definition pass_start :: "ir_fun \<Rightarrow> pass_state" where
  "pass_start F = \<lparr>ps_info = f_info F, ps_val = f_next_val F, ps_label = f_next_label F, ps_left = []\<rparr>"

definition skipped_functions :: "string list" where
  "skipped_functions = [''__getrandom_early_init'', ''main_init_once'']"

definition instrument_fun :: "pass_env \<Rightarrow> string list \<Rightarrow> ir_fun \<Rightarrow> ir_fun option" where
  "instrument_fun E maybe F =
    (if f_name F \<in> set skipped_functions then Some F
     else case instrument_blocks (pass_fun_of E maybe F) (f_blocks F) (pass_start F) of
       None \<Rightarrow> None
     | Some (blocks, ends, ps) \<Rightarrow>
         Some (F\<lparr>f_info := ps_info ps, f_blocks := map (\<lambda>(l, b). (l, rename_phis (end_of ends) b)) blocks,
                 f_next_val := ps_val ps, f_next_label := ps_label ps\<rparr>))"

text \<open>The called values of the calls that stay as they are.\<close>

definition calls_left :: "pass_env \<Rightarrow> string list \<Rightarrow> ir_fun \<Rightarrow> val list" where
  "calls_left E maybe F =
    (case instrument_blocks (pass_fun_of E maybe F) (f_blocks F) (pass_start F) of None \<Rightarrow> [] | Some (blocks, ends, ps) \<Rightarrow> ps_left ps)"

fun instrument_funs :: "pass_env \<Rightarrow> string list \<Rightarrow> ir_fun list \<Rightarrow> ir_fun list option" where
  "instrument_funs E maybe [] = Some []"
| "instrument_funs E maybe (F # Fs) =
    (case instrument_fun E maybe F of None \<Rightarrow> None | Some F' \<Rightarrow> map_option (\<lambda>Fs'. F' # Fs') (instrument_funs E maybe Fs))"

fun contains :: "string \<Rightarrow> string \<Rightarrow> bool" where
  "contains p [] = (p = [])"
| "contains p (c # cs) = (take (length p) (c # cs) = p \<or> contains p cs)"

definition ensure_global :: "string \<Rightarrow> ir_module \<Rightarrow> ir_module" where
  "ensure_global g M = (if g \<in> set (m_globals M) then M else M\<lparr>m_globals := m_globals M @ [g]\<rparr>)"

definition run_pass :: "pass_env \<Rightarrow> ir_module \<Rightarrow> ir_module option" where
  "run_pass E M =
    (if contains ''speedtest'' (m_identifier M) then Some M
     else
       let maybe = collectCallbackMaybeFunctions M;
           M = ensure_global ''and_mask'' (ensure_global ''or_mask'' M)
       in if pe_loader E \<and> \<not> contains ''dl-call_fini'' (m_source M) then Some M
          else map_option (\<lambda>Fs. M\<lparr>m_funs := Fs\<rparr>) (instrument_funs E maybe (m_funs M)))"

section \<open>Meaning\<close>

text \<open>
  What is outside the function: the other instructions and branches, and the functions called, which
  also receive register \<open>r11\<close> if they are one of the callback tables.
\<close>

datatype event = Ev_Indirect u64 "u64 list" | Ev_Direct string "u64 list" "u64 option" | Ev_Asm nat "u64 list"

record 'm world =
  w_or :: u64
  w_and :: u64
  w_op :: "nat \<Rightarrow> u64 list \<Rightarrow> 'm \<Rightarrow> u64 \<times> 'm"
  w_call :: "event \<Rightarrow> 'm \<Rightarrow> u64 \<times> 'm"
  w_unwinds :: "event \<Rightarrow> 'm \<Rightarrow> bool"
  w_branch :: "nat \<Rightarrow> u64 list \<Rightarrow> 'm \<Rightarrow> nat"

record 'm state =
  s_env :: "val \<Rightarrow> u64"
  s_r11 :: u64
  s_mem :: 'm
  s_trace :: "event list"

definition callback_tables :: "string list" where
  "callback_tables = [''callback_table'', ''threadkey_callback_table'', ''fini_callback_table'']"

definition set_val :: "val \<Rightarrow> u64 \<Rightarrow> 'm state \<Rightarrow> 'm state" where
  "set_val r x s = s\<lparr>s_env := (s_env s)(r := x)\<rparr>"

fun event_of :: "callee \<Rightarrow> val list \<Rightarrow> 'm state \<Rightarrow> event" where
  "event_of (Indirect t) args s = Ev_Indirect (s_env s t) (map (s_env s) args)"
| "event_of (Direct f) args s = Ev_Direct f (map (s_env s) args) (if f \<in> set callback_tables then Some (s_r11 s) else None)"
| "event_of (Inline_Asm k) args s = Ev_Asm k (map (s_env s) args)"

definition do_call :: "'m world \<Rightarrow> val \<Rightarrow> bool \<Rightarrow> event \<Rightarrow> 'm state \<Rightarrow> 'm state" where
  "do_call W r void ev s =
    (case w_call W ev (s_mem s) of
       (x, m) \<Rightarrow> (if void then s else set_val r x s)\<lparr>s_mem := m, s_trace := s_trace s @ [ev]\<rparr>)"

fun exec_instr :: "'m world \<Rightarrow> instr \<Rightarrow> 'm state \<Rightarrow> 'm state" where
  "exec_instr W (Op r k vs) s = (case w_op W k (map (s_env s) vs) (s_mem s) of (x, m) \<Rightarrow> (set_val r x s)\<lparr>s_mem := m\<rparr>)"
| "exec_instr W (Call r void c args) s = do_call W r void (event_of c args s) s"
| "exec_instr W (PtrToInt r v) s = set_val r (s_env s v) s"
| "exec_instr W (OrMask r v) s = set_val r (s_env s v OR w_or W) s"
| "exec_instr W (AndMask r v) s = set_val r (s_env s v AND w_and W) s"
| "exec_instr W (IntToPtr r v) s = set_val r (s_env s v) s"
| "exec_instr W (MovR11 v) s = s\<lparr>s_r11 := s_env s v\<rparr>"
| "exec_instr W (OrAndAsm r v) s = set_val r (mask_target (w_or W) (w_and W) (s_env s v)) s"
| "exec_instr W (ICmpEQ r a b) s = set_val r (if s_env s a = s_env s b then 1 else 0) s"

text \<open>The next block, if the function goes on.\<close>

fun exec_term :: "'m world \<Rightarrow> terminator \<Rightarrow> 'm state \<Rightarrow> (label \<times> 'm state) option" where
  "exec_term W (Br l) s = Some (l, s)"
| "exec_term W (CondBr c l l') s = Some (if s_env s c \<noteq> 0 then l else l', s)"
| "exec_term W (Invoke r c args l l') s =
    (let ev = event_of c args s in Some (if w_unwinds W ev (s_mem s) then l' else l, do_call W r False ev s))"
| "exec_term W (Other_Term k vs ls) s =
    (let i = w_branch W k (map (s_env s) vs) (s_mem s) in if i < length ls then Some (ls ! i, s) else None)"

text \<open>The PHI nodes of a block entered from another take their values at once.\<close>

definition enter_phis :: "label \<Rightarrow> block \<Rightarrow> 'm state \<Rightarrow> 'm state" where
  "enter_phis from b s =
    s\<lparr>s_env := (\<lambda>x. case map_of (b_phis b) x of
        None \<Rightarrow> s_env s x
      | Some inc \<Rightarrow> (case find (\<lambda>(v, l). l = from) inc of None \<Rightarrow> 0 | Some (v, l) \<Rightarrow> s_env s v))\<rparr>"

record 'm config =
  c_label :: label
  c_rest :: "instr list"
  c_term :: terminator
  c_state :: "'m state"

definition step :: "'m world \<Rightarrow> (label \<times> block) list \<Rightarrow> 'm config \<Rightarrow> 'm config option" where
  "step W B c =
    (case c_rest c of
       i # is \<Rightarrow> Some (c\<lparr>c_rest := is, c_state := exec_instr W i (c_state c)\<rparr>)
     | [] \<Rightarrow>
         (case exec_term W (c_term c) (c_state c) of
            None \<Rightarrow> None
          | Some (l, s) \<Rightarrow>
              (case map_of B l of
                 None \<Rightarrow> None
               | Some b \<Rightarrow> Some \<lparr>c_label = l, c_rest = b_body b, c_term = b_term b, c_state = enter_phis (c_label c) b s\<rparr>)))"

fun run :: "'m world \<Rightarrow> (label \<times> block) list \<Rightarrow> nat \<Rightarrow> 'm config \<Rightarrow> 'm config option" where
  "run W B 0 c = Some c"
| "run W B (Suc n) c = (case step W B c of None \<Rightarrow> None | Some c \<Rightarrow> run W B n c)"

definition start :: "label \<Rightarrow> block \<Rightarrow> 'm state \<Rightarrow> 'm config" where
  "start l b s = \<lparr>c_label = l, c_rest = b_body b, c_term = b_term b, c_state = s\<rparr>"

section \<open>A type system for masked calls\<close>

text \<open>
  What is known at a point of a block: values combined with the OR mask, masked values, and conditions
  that are true only if a value is masked.
\<close>

record facts =
  fa_ored :: "val list"
  fa_masked :: "val list"
  fa_tests :: "(val \<times> val) list"

definition forget :: "val \<Rightarrow> facts \<Rightarrow> facts" where
  "forget r G = \<lparr>fa_ored = filter (\<lambda>v. v \<noteq> r) (fa_ored G), fa_masked = filter (\<lambda>v. v \<noteq> r) (fa_masked G),
     fa_tests = filter (\<lambda>(c, t). c \<noteq> r \<and> t \<noteq> r) (fa_tests G)\<rparr>"

definition know_masked :: "val \<Rightarrow> facts \<Rightarrow> facts" where
  "know_masked r G = (forget r G)\<lparr>fa_masked := r # fa_masked (forget r G)\<rparr>"

fun ok_callee :: "facts \<Rightarrow> callee \<Rightarrow> bool" where
  "ok_callee G (Indirect t) = (t \<in> set (fa_masked G))"
| "ok_callee G _ = True"

fun type_instr :: "facts \<Rightarrow> instr \<Rightarrow> facts option" where
  "type_instr G (Op r k vs) = Some (forget r G)"
| "type_instr G (Call r void c args) = (if ok_callee G c then Some (forget r G) else None)"
| "type_instr G (PtrToInt r v) = Some (forget r G)"
| "type_instr G (OrMask r v) = Some ((forget r G)\<lparr>fa_ored := r # fa_ored (forget r G)\<rparr>)"
| "type_instr G (AndMask r v) = Some (if v \<in> set (fa_ored G) then know_masked r G else forget r G)"
| "type_instr G (IntToPtr r v) = Some (if v \<in> set (fa_masked G) then know_masked r G else forget r G)"
| "type_instr G (MovR11 v) = Some G"
| "type_instr G (OrAndAsm r v) = Some (know_masked r G)"
| "type_instr G (ICmpEQ r a b) =
    Some (if b \<in> set (fa_masked G) \<and> a \<noteq> r then (forget r G)\<lparr>fa_tests := (r, a) # fa_tests (forget r G)\<rparr> else forget r G)"

fun type_body :: "facts \<Rightarrow> instr list \<Rightarrow> facts option" where
  "type_body G [] = Some G"
| "type_body G (i # is) = (case type_instr G i of None \<Rightarrow> None | Some G' \<Rightarrow> type_body G' is)"

text \<open>An annotation gives the values that are masked whenever a block is entered.\<close>

fun type_term :: "(label \<Rightarrow> val list) \<Rightarrow> facts \<Rightarrow> terminator \<Rightarrow> bool" where
  "type_term N G (Br l) = (set (N l) \<subseteq> set (fa_masked G))"
| "type_term N G (CondBr c l l') =
    (set (N l) \<subseteq> set (fa_masked G) \<union> {t. (c, t) \<in> set (fa_tests G)} \<and> set (N l') \<subseteq> set (fa_masked G))"
| "type_term N G (Invoke r c args l l') = (ok_callee G c \<and> N l = [] \<and> N l' = [])"
| "type_term N G (Other_Term k vs ls) = (\<forall>l \<in> set ls. set (N l) \<subseteq> set (fa_masked G))"

definition entry_facts :: "val list \<Rightarrow> facts" where
  "entry_facts vs = \<lparr>fa_ored = [], fa_masked = vs, fa_tests = []\<rparr>"

definition type_block :: "(label \<Rightarrow> val list) \<Rightarrow> label \<Rightarrow> block \<Rightarrow> bool" where
  "type_block N l b =
    (set (N l) \<inter> fst ` set (b_phis b) = {} \<and>
     (case type_body (entry_facts (N l)) (b_body b) of None \<Rightarrow> False | Some G \<Rightarrow> type_term N G (b_term b)))"

definition type_fun :: "(label \<Rightarrow> val list) \<Rightarrow> (label \<times> block) list \<Rightarrow> bool" where
  "type_fun N B = list_all (\<lambda>(l, b). type_block N l b) B"

section \<open>Soundness of the type system\<close>

definition masked_value :: "'m world \<Rightarrow> u64 \<Rightarrow> bool" where
  "masked_value W x \<longleftrightarrow> (\<exists>y. x = mask_target (w_or W) (w_and W) y)"

definition facts_hold :: "'m world \<Rightarrow> facts \<Rightarrow> (val \<Rightarrow> u64) \<Rightarrow> bool" where
  "facts_hold W G env \<longleftrightarrow> (\<forall>v \<in> set (fa_ored G). \<exists>y. env v = y OR w_or W) \<and> (\<forall>v \<in> set (fa_masked G). masked_value W (env v)) \<and>
    (\<forall>(c, t) \<in> set (fa_tests G). env c \<noteq> 0 \<longrightarrow> masked_value W (env t))"

fun ok_event :: "'m world \<Rightarrow> event \<Rightarrow> bool" where
  "ok_event W (Ev_Indirect t args) = masked_value W t"
| "ok_event W _ = True"

abbreviation ok_trace :: "'m world \<Rightarrow> 'm state \<Rightarrow> bool" where
  "ok_trace W s \<equiv> (\<forall>ev \<in> set (s_trace s). ok_event W ev)"

lemma set_val_simps [simp]:
  "s_env (set_val r x s) = (s_env s)(r := x)" "s_trace (set_val r x s) = s_trace s" "s_mem (set_val r x s) = s_mem s" "s_r11 (set_val r x s) = s_r11 s"
  by (simp_all add: set_val_def)

lemma do_call_simps [simp]:
  "s_trace (do_call W r void ev s) = s_trace s @ [ev]"
  "s_env (do_call W r void ev s) = (if void then s_env s else (s_env s)(r := fst (w_call W ev (s_mem s))))"
  "s_mem (do_call W r void ev s) = snd (w_call W ev (s_mem s))"
  by (simp_all add: do_call_def split: prod.split)

lemma forget_holds: "facts_hold W G env \<Longrightarrow> facts_hold W (forget r G) (env(r := x))"
  by (auto simp: facts_hold_def forget_def)

lemma forget_less: "facts_hold W G env \<Longrightarrow> facts_hold W (forget r G) env"
  by (auto simp: facts_hold_def forget_def)

lemma know_masked_holds: "facts_hold W G env \<Longrightarrow> masked_value W x \<Longrightarrow> facts_hold W (know_masked r G) (env(r := x))"
  using forget_holds [of W G env r x] by (auto simp: facts_hold_def know_masked_def)

lemma add_ored: "facts_hold W G env \<Longrightarrow> env r = y OR w_or W \<Longrightarrow> facts_hold W (G\<lparr>fa_ored := r # fa_ored G\<rparr>) env"
  by (auto simp: facts_hold_def)

lemma add_test:
  "facts_hold W G env \<Longrightarrow> (env c \<noteq> 0 \<Longrightarrow> masked_value W (env t)) \<Longrightarrow> facts_hold W (G\<lparr>fa_tests := (c, t) # fa_tests G\<rparr>) env"
  by (auto simp: facts_hold_def)

lemma ok_callee_event: "facts_hold W G (s_env s) \<Longrightarrow> ok_callee G c \<Longrightarrow> ok_event W (event_of c args s)"
  by (cases c) (auto simp: facts_hold_def)

lemma type_instr_sound:
  assumes "type_instr G i = Some G'" "facts_hold W G (s_env s)" "ok_trace W s"
  shows "facts_hold W G' (s_env (exec_instr W i s)) \<and> ok_trace W (exec_instr W i s)"
proof (cases i)
  case (Call r void c args)
  then show ?thesis using assms ok_callee_event [OF assms(2)] by (cases void) (auto intro: forget_holds forget_less split: if_splits)
next
  case (OrMask r v)
  then show ?thesis using assms by (auto intro!: add_ored forget_holds)
next
  case (AndMask r v)
  have "masked_value W (s_env s v AND w_and W)" if "v \<in> set (fa_ored G)"
  proof -
    have "\<exists>y. s_env s v = y OR w_or W" using that assms(2) by (simp add: facts_hold_def)
    then obtain y where "s_env s v = y OR w_or W" ..
    then show ?thesis by (simp add: masked_value_def mask_target_def exI [of _ y])
  qed
  then show ?thesis using AndMask assms by (auto intro!: forget_holds know_masked_holds)
next
  case (IntToPtr r v)
  have "masked_value W (s_env s v)" if "v \<in> set (fa_masked G)" using that assms(2) by (simp add: facts_hold_def)
  then show ?thesis using IntToPtr assms by (auto intro!: forget_holds know_masked_holds)
next
  case (OrAndAsm r v)
  then show ?thesis using assms by (auto intro!: know_masked_holds simp: masked_value_def)
next
  case (ICmpEQ r a b)
  have "masked_value W (s_env s b)" if "b \<in> set (fa_masked G)" using that assms(2) by (simp add: facts_hold_def)
  then show ?thesis using ICmpEQ assms by (auto intro!: add_test forget_holds split: if_splits)
qed (use assms in \<open>auto intro!: forget_holds split: prod.splits\<close>)

definition typed_config :: "'m world \<Rightarrow> (label \<Rightarrow> val list) \<Rightarrow> 'm config \<Rightarrow> bool" where
  "typed_config W N c \<longleftrightarrow> ok_trace W (c_state c) \<and>
    (\<exists>G G'. facts_hold W G (s_env (c_state c)) \<and> type_body G (c_rest c) = Some G' \<and> type_term N G' (c_term c))"

lemma entry_facts_holds: "facts_hold W (entry_facts vs) env \<longleftrightarrow> (\<forall>v \<in> set vs. masked_value W (env v))"
  by (simp add: facts_hold_def entry_facts_def)

lemma type_term_sound:
  assumes "type_term N G t" "facts_hold W G (s_env s)" "ok_trace W s" "exec_term W t s = Some (l, s')"
  shows "(\<forall>v \<in> set (N l). masked_value W (s_env s' v)) \<and> ok_trace W s'"
proof (cases t)
  case (Invoke r c args l1 l2)
  then show ?thesis using assms ok_callee_event [OF assms(2)] by (auto simp: Let_def split: if_splits)
qed (use assms in \<open>fastforce simp: facts_hold_def Let_def split: if_splits\<close>)+

lemma enter_phis_masked:
  assumes "\<forall>v \<in> set vs. masked_value W (s_env s v)" "set vs \<inter> fst ` set (b_phis b) = {}"
  shows "\<forall>v \<in> set vs. masked_value W (s_env (enter_phis l b s) v)"
proof
  fix v assume v: "v \<in> set vs"
  then have "map_of (b_phis b) v = None" using assms(2) by (auto simp: map_of_eq_None_iff)
  then show "masked_value W (s_env (enter_phis l b s) v)" using assms(1) v by (simp add: enter_phis_def)
qed

lemma step_typed:
  assumes "type_fun N B" "typed_config W N c" "step W B c = Some c'"
  shows "typed_config W N c'"
proof (cases "c_rest c")
  case (Cons i js)
  obtain G G' where G: "facts_hold W G (s_env (c_state c))" "type_body G (i # js) = Some G'" "type_term N G' (c_term c)"
    using assms(2) Cons by (auto simp: typed_config_def)
  obtain G1 where G1: "type_instr G i = Some G1" "type_body G1 js = Some G'" using G(2) by (auto split: option.splits)
  have "facts_hold W G1 (s_env (exec_instr W i (c_state c))) \<and> ok_trace W (exec_instr W i (c_state c))"
    using type_instr_sound [OF G1(1) G(1)] assms(2) by (simp add: typed_config_def)
  then show ?thesis using assms(3) Cons G(3) G1(2) by (auto simp: step_def typed_config_def)
next
  case Nil
  then obtain l s b where l: "exec_term W (c_term c) (c_state c) = Some (l, s)" "map_of B l = Some b"
      "c' = \<lparr>c_label = l, c_rest = b_body b, c_term = b_term b, c_state = enter_phis (c_label c) b s\<rparr>"
    using assms(3) by (auto simp: step_def split: option.splits)
  obtain G where G: "facts_hold W G (s_env (c_state c))" "type_term N G (c_term c)" using assms(2) Nil by (auto simp: typed_config_def)
  have s: "\<forall>v \<in> set (N l). masked_value W (s_env s v)" "ok_trace W s"
    using type_term_sound [OF G(2,1) _ l(1)] assms(2) by (simp_all add: typed_config_def)
  have "type_block N l b" using assms(1) map_of_SomeD [OF l(2)] by (auto simp: type_fun_def list_all_iff)
  then obtain G' where G': "type_body (entry_facts (N l)) (b_body b) = Some G'" "type_term N G' (b_term b)" "set (N l) \<inter> fst ` set (b_phis b) = {}"
    by (auto simp: type_block_def split: option.splits)
  have "facts_hold W (entry_facts (N l)) (s_env (enter_phis (c_label c) b s))"
    unfolding entry_facts_holds by (rule enter_phis_masked [OF s(1) G'(3)])
  moreover have "ok_trace W (enter_phis (c_label c) b s)" using s(2) by (simp add: enter_phis_def)
  ultimately show ?thesis using G' by (auto simp: typed_config_def l(3))
qed

lemma run_typed: "type_fun N B \<Longrightarrow> typed_config W N c \<Longrightarrow> run W B n c = Some c' \<Longrightarrow> typed_config W N c'"
  by (induction n arbitrary: c) (auto split: option.splits dest: step_typed)

lemma typed_start:
  assumes "type_fun N B" "map_of B l = Some b" "N l = []" "s_trace s = []"
  shows "typed_config W N (start l b s)"
proof -
  have "type_block N l b" using assms(1) map_of_SomeD [OF assms(2)] by (auto simp: type_fun_def list_all_iff)
  then obtain G where "type_body (entry_facts []) (b_body b) = Some G" "type_term N G (b_term b)"
    using assms(3) by (auto simp: type_block_def split: option.splits)
  moreover have "facts_hold W (entry_facts []) (s_env s)" by (simp add: entry_facts_holds)
  ultimately show ?thesis using assms(4) by (auto simp: typed_config_def start_def)
qed

section \<open>Instrumented functions are well typed\<close>

lemma prepend_Some [simp]: "prepend xs res = Some (body, rest) \<longleftrightarrow> (\<exists>b. res = Some (b, rest) \<and> body = xs @ b)"
  by (cases rest; cases res) (auto simp: prepend_def)

lemma add_values_simps [simp]:
  "ps_val (add_values k ps) = ps_val ps + k" "ps_label (add_values k ps) = ps_label ps" "ps_left (add_values k ps) = ps_left ps"
  by (simp_all add: add_values_def)

lemma merge_call_simps [simp]:
  "ps_val (merge_call r void ps) = ps_val ps + 4" "ps_label (merge_call r void ps) = ps_label ps + 3" "ps_left (merge_call r void ps) = ps_left ps"
  by (simp_all add: merge_call_def Let_def)

lemma type_body_append [simp]: "type_body G (xs @ ys) = (case type_body G xs of None \<Rightarrow> None | Some G' \<Rightarrow> type_body G' ys)"
  by (induction xs arbitrary: G) (auto split: option.split)

text \<open>What a function before the pass has: called values and labels below the free numbers, and no indirect invoke.\<close>

fun called_below :: "val \<Rightarrow> instr \<Rightarrow> bool" where
  "called_below n (Call r void (Indirect t) args) = (t < n)"
| "called_below n _ = True"

fun plain_term :: "label \<Rightarrow> terminator \<Rightarrow> bool" where
  "plain_term k (Br l) = (l < k)"
| "plain_term k (CondBr c l l') = (l < k \<and> l' < k)"
| "plain_term k (Invoke r c args l l') = (l < k \<and> l' < k \<and> (\<forall>t. c \<noteq> Indirect t))"
| "plain_term k (Other_Term op vs ls) = (\<forall>l \<in> set ls. l < k)"

lemma called_below_mono: "called_below n i \<Longrightarrow> n \<le> m \<Longrightarrow> called_below m i"
  by (cases "(n, i)" rule: called_below.cases) auto

lemma plain_term_typed: "plain_term k t \<Longrightarrow> (\<And>l. l < k \<Longrightarrow> N l = []) \<Longrightarrow> type_term N G t"
  by (cases t) (auto elim: ok_callee.elims, metis ok_callee.simps(2,3) callee.exhaust)

text \<open>The result of the pass on a block as a relation with one rule for each treatment of a call.\<close>

definition indirect_call :: "instr \<Rightarrow> bool" where
  "indirect_call i \<longleftrightarrow> (\<exists>r void v args. i = Call r void (Indirect v) args)"

inductive instrumented :: "pass_fun \<Rightarrow> label \<Rightarrow> instr list \<Rightarrow> terminator \<Rightarrow> pass_state \<Rightarrow> body_result \<Rightarrow> bool" for P where
  Done: "instrumented P cur [] t ps ([], t, [], cur, ps)"
| Leaving: "instrumented P cur (Call r void (Indirect v) args # js) t ps (Call r void (Indirect v) args # body, res)"
  if "call_action P (ps_info ps) v = Some Leave" "instrumented P cur js t (ps\<lparr>ps_left := v # ps_left ps\<rparr>) (body, res)"
| Tabled: "instrumented P cur (Call r void (Indirect v) args # js) t ps (always_callback_table r void v args table @ body, res)"
  if "call_action P (ps_info ps) v = Some (To_Table table)" "instrumented P cur js t ps (body, res)"
| Masking: "instrumented P cur (Call r void (Indirect v) args # js) t ps (instrumentNormalCase (ps_val ps) r void v args @ body, res)"
  if "call_action P (ps_info ps) v = Some Mask_Target" "instrumented P cur js t (add_values 4 ps) (body, res)"
| Testing: "instrumented P cur (Call r void (Indirect v) args # js) t ps
    (check_code (ps_val ps) v, CondBr (ps_val ps + 1) (ps_label ps + 1) (ps_label ps + 2),
     (ps_label ps, \<lparr>b_phis = after_phis (ps_val ps) (ps_label ps) r void, b_body = body, b_term = t'\<rparr>) #
       check_blocks (ps_val ps) (ps_label ps) void v args @ new, ending, ps')"
  if "call_action P (ps_info ps) v = Some Check_Callback"
    "instrumented P (ps_label ps) js t (merge_call r void ps) (body, t', new, ending, ps')"
| Passing: "instrumented P cur (i # js) t ps (i # body, res)"
  if "\<not> indirect_call i" "instrumented P cur js t ps (body, res)"

lemma instrument_body_Cons:
  "\<not> indirect_call i \<Longrightarrow> instrument_body P cur (i # js) t ps = prepend [i] (instrument_body P cur js t ps)"
  by (cases i; (cases "case i of Call r void c args \<Rightarrow> c | _ \<Rightarrow> Inline_Asm 0")?) (auto simp: indirect_call_def)

lemma instrumentedI: "instrument_body P cur js t ps = Some res \<Longrightarrow> instrumented P cur js t ps res"
proof (induction js arbitrary: cur ps res)
  case Nil
  then show ?case by (auto intro: Done)
next
  case (Cons i js)
  obtain body t' new e ps' where res: "res = (body, t', new, e, ps')" by (cases res)
  show ?case
  proof (cases "indirect_call i")
    case False
    then obtain b where "instrument_body P cur js t ps = Some (b, t', new, e, ps')" "body = i # b"
      using Cons.prems res instrument_body_Cons [OF False, of P cur js t ps] by auto
    then show ?thesis using Passing [OF False Cons.IH] res by simp
  next
    case True
    then obtain r void v args where i: "i = Call r void (Indirect v) args" by (auto simp: indirect_call_def)
    obtain a where a: "call_action P (ps_info ps) v = Some a" using Cons.prems i by (auto split: option.splits)
    show ?thesis
    proof (cases a)
      case Leave
      then show ?thesis using Cons.prems a Leaving [OF _ Cons.IH, of ps v cur] unfolding i res by auto
    next
      case (To_Table f)
      then show ?thesis using Cons.prems a Tabled [OF _ Cons.IH, of ps v f cur] unfolding i res by auto
    next
      case Mask_Target
      then show ?thesis using Cons.prems a Masking [OF _ Cons.IH, of ps v cur] unfolding i res by auto
    next
      case Check_Callback
      then show ?thesis using Cons.prems a Testing [OF _ Cons.IH, of ps v] unfolding i res by (auto simp: Let_def split: option.splits)
    qed
  qed
qed

lemma instrumented_grows:
  "instrumented P cur js t ps (body, t', new, e, ps') \<Longrightarrow>
    ps_val ps \<le> ps_val ps' \<and> ps_label ps \<le> ps_label ps' \<and> (\<exists>zs. ps_left ps' = zs @ ps_left ps)"
  by (induction cur js t ps "(body, t', new, e, ps')" arbitrary: body t' new e rule: instrumented.induct) fastforce+

definition block_needs :: "block \<Rightarrow> val list" where
  "block_needs b = (case b_body b of [Call r void (Indirect t) args] \<Rightarrow> [t] | _ \<Rightarrow> [])"

lemma untyped_call: "type_body (entry_facts []) xs = Some G \<Longrightarrow> block_needs \<lparr>b_phis = ph, b_body = xs, b_term = t\<rparr> = []"
  by (auto simp: block_needs_def entry_facts_def split: list.splits instr.splits callee.splits if_splits)

lemma normal_case_typed: "\<exists>G'. type_body G (instrumentNormalCase n r void t args) = Some G'"
  by (simp add: instrumentNormalCase_def know_masked_def)

lemma check_code_typed:
  assumes "t < n"
  shows "\<exists>G'. type_body G (check_code n t) = Some G' \<and> (n + 1, t) \<in> set (fa_tests G')"
  using assms by (simp add: check_code_def know_masked_def)

lemma instrumented_typed:
  assumes "instrumented P cur js t ps (body, t', new, e, ps')" "ps_left ps' = []"
    and "\<forall>i \<in> set js. called_below (ps_val ps) i" "plain_term k t" "k \<le> ps_label ps" "\<And>l. l < k \<Longrightarrow> N l = []"
    and "\<forall>(l, b) \<in> set new. N l = block_needs b"
  shows "(\<forall>G. \<exists>G'. type_body G body = Some G' \<and> type_term N G' t') \<and> (\<forall>(l, b) \<in> set new. type_block N l b)"
  using assms
proof (induction cur js t ps "(body, t', new, e, ps')" arbitrary: body t' new e rule: instrumented.induct)
  case (Done cur t)
  then show ?case by (simp add: plain_term_typed)
next
  case (Leaving ps v cur js t body t' new e r void args)
  then show ?case using instrumented_grows [OF Leaving.hyps(2)] by auto
next
  case (Tabled ps v table cur js t body t' new e r void args)
  then show ?case by (auto simp: always_callback_table_def)
next
  case (Masking ps v cur js t body t' new e r void args)
  have "\<forall>i \<in> set js. called_below (ps_val ps + 4) i" using Masking.prems called_below_mono by fastforce
  then show ?case using Masking normal_case_typed by (fastforce split: option.splits)
next
  case (Testing ps v js t r void body t' new e cur args)
  define n l where "n = ps_val ps" and "l = ps_label ps"
  have b: "\<forall>i \<in> set js. called_below (n + 4) i" "v < n" using Testing.prems called_below_mono by (fastforce simp: n_def)+
  have IH: "\<forall>G. \<exists>G'. type_body G body = Some G' \<and> type_term N G' t'" "\<forall>(l, b) \<in> set new. type_block N l b"
    using Testing b by (auto simp: n_def)
  have N: "N l = []" "N (l + 1) = [v]" "N (l + 2) = []"
  proof -
    obtain G where "type_body (entry_facts []) body = Some G" using IH(1) by blast
    then show "N l = []" using Testing.prems(6) untyped_call by (auto simp: l_def)
  qed (use Testing.prems(6) in \<open>auto simp: l_def check_blocks_def block_needs_def\<close>)
  have "\<exists>G'. type_body G (check_code n v) = Some G' \<and> type_term N G' (CondBr (n + 1) (l + 1) (l + 2))" for G
    using check_code_typed [OF b(2), of G] N by auto
  moreover have "type_block N l \<lparr>b_phis = ph, b_body = body, b_term = t'\<rparr>" for ph
    using IH(1) [rule_format, of "entry_facts []"] N(1) by (auto simp: type_block_def)
  moreover have "\<forall>(l, b) \<in> set (check_blocks n l void v args). type_block N l b"
    using N by (auto simp: check_blocks_def type_block_def entry_facts_def)
  ultimately show ?case using IH(2) by (auto simp: n_def l_def)
next
  case (Passing i cur js t ps body t' new e)
  have "\<exists>G'. type_instr G i = Some G'" for G
    using Passing.hyps(1) by (cases i; (cases "case i of Call r void c args \<Rightarrow> c | _ \<Rightarrow> Inline_Asm 0")?) (auto simp: indirect_call_def)
  then show ?case using Passing by (fastforce split: option.splits)
qed

lemma instrumented_labels:
  "instrumented P cur js t ps (body, t', new, e, ps') \<Longrightarrow>
    distinct (map fst new) \<and> fst ` set new \<subseteq> {ps_label ps..<ps_label ps'} \<and> (e = cur \<or> e \<in> {ps_label ps..<ps_label ps'})"
proof (induction cur js t ps "(body, t', new, e, ps')" arbitrary: body t' new e rule: instrumented.induct)
  case (Testing ps v js t r void body t' new e cur args)
  then show ?case using instrumented_grows [OF Testing.hyps(2)] by (fastforce simp: check_blocks_def)
qed auto

section \<open>Functions before the pass\<close>

fun callee_vals :: "callee \<Rightarrow> val list" where
  "callee_vals (Indirect t) = [t]"
| "callee_vals _ = []"

fun instr_vals :: "instr \<Rightarrow> val list" where
  "instr_vals (Op r k vs) = r # vs"
| "instr_vals (Call r void c args) = r # callee_vals c @ args"
| "instr_vals (PtrToInt r v) = [r, v]"
| "instr_vals (OrMask r v) = [r, v]"
| "instr_vals (AndMask r v) = [r, v]"
| "instr_vals (IntToPtr r v) = [r, v]"
| "instr_vals (MovR11 v) = [v]"
| "instr_vals (OrAndAsm r v) = [r, v]"
| "instr_vals (ICmpEQ r a b) = [r, a, b]"

fun term_vals :: "terminator \<Rightarrow> val list" where
  "term_vals (Br l) = []"
| "term_vals (CondBr c l l') = [c]"
| "term_vals (Invoke r c args l l') = r # callee_vals c @ args"
| "term_vals (Other_Term k vs ls) = vs"

fun term_labels :: "terminator \<Rightarrow> label list" where
  "term_labels (Br l) = [l]"
| "term_labels (CondBr c l l') = [l, l']"
| "term_labels (Invoke r c args l l') = [l, l']"
| "term_labels (Other_Term k vs ls) = ls"

fun indirect_invoke :: "terminator \<Rightarrow> bool" where
  "indirect_invoke (Invoke r (Indirect t) args l l') = True"
| "indirect_invoke _ = False"

text \<open>All numbers of values and labels are below the free ones.\<close>

definition wf_block :: "val \<Rightarrow> label \<Rightarrow> block \<Rightarrow> bool" where
  "wf_block n k b \<longleftrightarrow> (\<forall>i \<in> set (b_body b). \<forall>v \<in> set (instr_vals i). v < n) \<and> (\<forall>v \<in> set (term_vals (b_term b)). v < n) \<and>
    (\<forall>l \<in> set (term_labels (b_term b)). l < k) \<and>
    (\<forall>(x, inc) \<in> set (b_phis b). x < n \<and> (\<forall>(v, l) \<in> set inc. v < n \<and> l < k))"

definition wf_fun :: "ir_fun \<Rightarrow> bool" where
  "wf_fun F \<longleftrightarrow> distinct (map fst (f_blocks F)) \<and>
    (\<forall>(l, b) \<in> set (f_blocks F). l < f_next_label F \<and> wf_block (f_next_val F) (f_next_label F) b)"

definition no_indirect_invoke :: "ir_fun \<Rightarrow> bool" where
  "no_indirect_invoke F \<longleftrightarrow> (\<forall>(l, b) \<in> set (f_blocks F). \<not> indirect_invoke (b_term b))"

lemma wf_called_below: "wf_block n k b \<Longrightarrow> i \<in> set (b_body b) \<Longrightarrow> called_below n i"
  by (cases "(n, i)" rule: called_below.cases) (auto simp: wf_block_def)

lemma wf_plain_term: "wf_block n k b \<Longrightarrow> \<not> indirect_invoke (b_term b) \<Longrightarrow> plain_term k (b_term b)"
  by (cases "b_term b") (auto simp: wf_block_def)

lemma instrument_blocks_labels:
  assumes "instrument_blocks P bs ps = Some (blocks, ends, ps')" "distinct (map fst bs)" "\<forall>(l, b) \<in> set bs. l < k" "k \<le> ps_label ps"
  shows "distinct (map fst blocks) \<and> fst ` set blocks \<subseteq> fst ` set bs \<union> {ps_label ps..<ps_label ps'} \<and>
    ps_val ps \<le> ps_val ps' \<and> ps_label ps \<le> ps_label ps' \<and> (\<exists>zs. ps_left ps' = zs @ ps_left ps) \<and> map fst ends = map fst bs"
  using assms
proof (induction bs arbitrary: ps blocks ends)
  case (Cons lb bs)
  obtain l b where lb: "lb = (l, b)" by (cases lb)
  obtain body t' new e ps1 where 1: "instrument_body P l (b_body b) (b_term b) ps = Some (body, t', new, e, ps1)"
    using Cons.prems(1) lb by (auto split: option.splits)
  obtain blocks' ends' where 2: "instrument_blocks P bs ps1 = Some (blocks', ends', ps')"
      "blocks = (l, b\<lparr>b_body := body, b_term := t'\<rparr>) # new @ blocks'" "ends = (l, e) # ends'"
    using Cons.prems(1) lb 1 by (auto split: option.splits)
  note i = instrumentedI [OF 1]
  note g = instrumented_grows [OF i] and n = instrumented_labels [OF i]
  have IH: "distinct (map fst blocks')" "fst ` set blocks' \<subseteq> fst ` set bs \<union> {ps_label ps1..<ps_label ps'}" "ps_val ps1 \<le> ps_val ps'"
      "ps_label ps1 \<le> ps_label ps'" "\<exists>zs. ps_left ps' = zs @ ps_left ps1" "map fst ends' = map fst bs"
    using Cons.IH [OF 2(1)] Cons.prems g by auto
  have b: "fst ` set bs \<subseteq> {..<k}" "l < k" "l \<notin> fst ` set bs" using Cons.prems(2,3) lb by auto
  have new: "distinct (map fst new)" "fst ` set new \<subseteq> {ps_label ps..<ps_label ps1}" using n by auto
  have k: "k \<le> ps_label ps" "k \<le> ps_label ps1" using Cons.prems(4) g by auto
  have "l \<notin> fst ` set new" using new(2) k(1) b(2) by (meson atLeastLessThan_iff leD less_le_trans subsetD)
  moreover have "l \<notin> fst ` set blocks'"
    using IH(2) k(2) b(2,3) by (meson UnE atLeastLessThan_iff leD less_le_trans subsetD)
  moreover have "fst ` set new \<inter> fst ` set blocks' = {}"
  proof -
    have "x \<notin> fst ` set bs" "x \<notin> {ps_label ps1..<ps_label ps'}" if "x \<in> fst ` set new" for x
      using subsetD [OF new(2) that] subsetD [OF b(1)] k(1) by fastforce+
    then show ?thesis using IH(2) by blast
  qed
  ultimately have "distinct (map fst blocks)" using IH(1) new(1) by (simp add: 2(2))
  moreover have "fst ` set blocks \<subseteq> fst ` set (lb # bs) \<union> {ps_label ps..<ps_label ps'}"
  proof -
    have "{ps_label ps..<ps_label ps1} \<subseteq> {ps_label ps..<ps_label ps'}" "{ps_label ps1..<ps_label ps'} \<subseteq> {ps_label ps..<ps_label ps'}"
      using IH(4) g by auto
    then have "fst ` set new \<union> fst ` set blocks' \<subseteq> fst ` set bs \<union> {ps_label ps..<ps_label ps'}" using IH(2) new(2) by blast
    then show ?thesis by (auto simp: 2(2) lb)
  qed
  ultimately show ?case using IH(3-6) g 2(3) lb by auto
qed auto

lemma instrument_blocks_typed:
  assumes "instrument_blocks P bs ps = Some (blocks, ends, ps')" "ps_left ps' = []" "k \<le> ps_label ps" "n \<le> ps_val ps"
    and "\<forall>(l, b) \<in> set bs. l < k \<and> wf_block n k b \<and> \<not> indirect_invoke (b_term b)" "\<And>l. l < k \<Longrightarrow> N l = []"
    and "\<forall>(l, b) \<in> set blocks. k \<le> l \<longrightarrow> N l = block_needs b" "distinct (map fst bs)"
  shows "\<forall>(l, b) \<in> set blocks. type_block N l b"
  using assms
proof (induction bs arbitrary: ps blocks ends)
  case (Cons lb bs)
  obtain l b where lb: "lb = (l, b)" by (cases lb)
  obtain body t' new e ps1 where 1: "instrument_body P l (b_body b) (b_term b) ps = Some (body, t', new, e, ps1)"
    using Cons.prems(1) lb by (auto split: option.splits)
  obtain blocks' ends' where 2: "instrument_blocks P bs ps1 = Some (blocks', ends', ps')"
      "blocks = (l, b\<lparr>b_body := body, b_term := t'\<rparr>) # new @ blocks'"
    using Cons.prems(1) lb 1 by (auto split: option.splits)
  note i = instrumentedI [OF 1]
  note g = instrumented_grows [OF i] and n = instrumented_labels [OF i]
  have b: "l < k" "wf_block n k b" "\<not> indirect_invoke (b_term b)" using Cons.prems(5) lb by auto
  have "\<exists>zs. ps_left ps' = zs @ ps_left ps1"
    using instrument_blocks_labels [OF 2(1), of k] Cons.prems(3,5,8) g by fastforce
  then have l1: "ps_left ps1 = []" using Cons.prems(2) by simp
  have c: "\<forall>i \<in> set (b_body b). called_below (ps_val ps) i"
    using wf_called_below [OF b(2)] called_below_mono Cons.prems(4) by blast
  have N: "\<forall>(l, b) \<in> set new. N l = block_needs b"
  proof clarify
    fix x y assume xy: "(x, y) \<in> set new"
    then have "x \<in> {ps_label ps..<ps_label ps1}" using n by (auto simp: image_subset_iff)
    then have "k \<le> x" using Cons.prems(3) by simp
    moreover have "(x, y) \<in> set blocks" using xy by (simp add: 2(2))
    ultimately show "N x = block_needs y" using Cons.prems(7) by blast
  qed
  have "(\<forall>G. \<exists>G'. type_body G body = Some G' \<and> type_term N G' t') \<and> (\<forall>(l, b) \<in> set new. type_block N l b)"
    by (rule instrumented_typed [OF i l1 c wf_plain_term [OF b(2,3)] Cons.prems(3,6) N])
  moreover have "type_block N l (b\<lparr>b_body := body, b_term := t'\<rparr>)"
    using calculation Cons.prems(6) [OF b(1)] by (auto simp: type_block_def dest: spec [of _ "entry_facts []"])
  moreover have "\<forall>(l, b) \<in> set blocks'. type_block N l b"
    using Cons.IH [OF 2(1) Cons.prems(2)] Cons.prems g by (auto simp: 2(2))
  ultimately show ?case by (auto simp: 2(2))
qed auto

lemma rename_type_block [simp]: "type_block N l (rename_phis f b) = type_block N l b"
proof -
  have "fst ` set (b_phis (rename_phis f b)) = fst ` set (b_phis b)" by (force simp: rename_phis_def)
  moreover have "b_body (rename_phis f b) = b_body b" "b_term (rename_phis f b) = b_term b" by (simp_all add: rename_phis_def)
  ultimately show ?thesis by (simp only: type_block_def)
qed

lemma instrument_fun_typed:
  assumes "instrument_fun E maybe F = Some F'" "f_name F \<notin> set skipped_functions" "wf_fun F" "no_indirect_invoke F" "calls_left E maybe F = []"
  shows "\<exists>N. (\<forall>l < f_next_label F. N l = []) \<and> type_fun N (f_blocks F')"
proof -
  obtain blocks ends ps where r: "instrument_blocks (pass_fun_of E maybe F) (f_blocks F) (pass_start F) = Some (blocks, ends, ps)"
      "f_blocks F' = map (\<lambda>(l, b). (l, rename_phis (end_of ends) b)) blocks"
    using assms(1,2) by (auto simp: instrument_fun_def split: option.splits)
  have left: "ps_left ps = []" using assms(5) r(1) by (simp add: calls_left_def)
  define k where "k = f_next_label F"
  define N where "N l = (if l < k then [] else case map_of blocks l of None \<Rightarrow> [] | Some b \<Rightarrow> block_needs b)" for l
  have w: "\<forall>(l, b) \<in> set (f_blocks F). l < k \<and> wf_block (f_next_val F) k b \<and> \<not> indirect_invoke (b_term b)" "distinct (map fst (f_blocks F))"
    using assms(3,4) by (auto simp: wf_fun_def no_indirect_invoke_def k_def)
  have "distinct (map fst blocks)"
    using instrument_blocks_labels [OF r(1) w(2), of k] w(1) by (fastforce simp: pass_start_def k_def)
  then have "\<forall>(l, b) \<in> set blocks. k \<le> l \<longrightarrow> N l = block_needs b" by (auto simp: N_def)
  then have "\<forall>(l, b) \<in> set blocks. type_block N l b"
    using w by (intro instrument_blocks_typed [OF r(1) left, of k "f_next_val F"]) (auto simp: pass_start_def k_def N_def)
  then have "type_fun N (f_blocks F')" by (auto simp: type_fun_def list_all_iff r(2))
  then show ?thesis by (intro exI [of _ N]) (simp add: N_def k_def)
qed

section \<open>Behaviour of instrumented functions\<close>

definition agree :: "val \<Rightarrow> 'm state \<Rightarrow> 'm state \<Rightarrow> bool" where
  "agree n s s' \<longleftrightarrow> (\<forall>v < n. s_env s' v = s_env s v) \<and> s_mem s' = s_mem s \<and> s_trace s' = s_trace s"

fun no_table_call :: "instr \<Rightarrow> bool" where
  "no_table_call (Call r void (Direct f) args) = (f \<notin> set callback_tables)"
| "no_table_call _ = True"

fun no_table_invoke :: "terminator \<Rightarrow> bool" where
  "no_table_invoke (Invoke r (Direct f) args l l') = (f \<notin> set callback_tables)"
| "no_table_invoke _ = True"

definition fixed :: "'m world \<Rightarrow> event \<Rightarrow> bool" where
  "fixed W ev \<longleftrightarrow> (\<forall>t args. ev = Ev_Indirect t args \<longrightarrow> mask_target (w_or W) (w_and W) t = t)"

lemma agree_map: "agree n s s' \<Longrightarrow> \<forall>v \<in> set vs. v < n \<Longrightarrow> map (s_env s') vs = map (s_env s) vs"
  by (simp add: agree_def)

lemma agree_event:
  "agree n s s' \<Longrightarrow> \<forall>v \<in> set (callee_vals c @ args). v < n \<Longrightarrow> (\<forall>f. c = Direct f \<longrightarrow> f \<notin> set callback_tables) \<Longrightarrow> event_of c args s' = event_of c args s"
  by (cases c) (auto simp: agree_def)

lemma agree_set: "agree n s s' \<Longrightarrow> agree n (set_val r x s) (set_val r x s')"
  by (simp add: agree_def)

lemma agree_fresh: "agree n s s' \<Longrightarrow> n \<le> r \<Longrightarrow> agree n s (set_val r x s')"
  by (simp add: agree_def)

lemma agree_call: "agree n s s' \<Longrightarrow> agree n (do_call W r void ev s) (do_call W r void ev s')"
  by (simp add: agree_def)

lemma agree_instr:
  assumes "agree n s s'" "\<forall>v \<in> set (instr_vals i). v < n" "no_table_call i"
  shows "agree n (exec_instr W i s) (exec_instr W i s')"
proof (cases i)
  case (Op r k vs)
  then have "map (s_env s') vs = map (s_env s) vs" using assms agree_map by fastforce
  then have w: "w_op W k (map (s_env s') vs) (s_mem s') = w_op W k (map (s_env s) vs) (s_mem s)" using assms(1) by (simp only: agree_def)
  obtain x m where "w_op W k (map (s_env s) vs) (s_mem s) = (x, m)" by (cases "w_op W k (map (s_env s) vs) (s_mem s)")
  then show ?thesis using assms(1) Op w by (simp add: agree_def)
next
  case (Call r void c args)
  then have "event_of c args s' = event_of c args s" using assms by (intro agree_event) (auto elim: no_table_call.elims)
  then show ?thesis using assms(1) Call by (simp add: agree_call)
qed (use assms in \<open>auto simp: agree_def mask_target_def\<close>)

lemma agree_term:
  assumes "agree n s s'" "\<forall>v \<in> set (term_vals t). v < n" "no_table_invoke t" "exec_term W t s = Some (l, s1)"
  shows "\<exists>s1'. exec_term W t s' = Some (l, s1') \<and> agree n s1 s1'"
proof (cases t)
  case (Invoke r c args l1 l2)
  then have "event_of c args s' = event_of c args s" using assms by (intro agree_event) (auto elim: no_table_invoke.elims)
  moreover have "s_mem s' = s_mem s" using assms(1) by (simp add: agree_def)
  ultimately show ?thesis using assms(1,4) Invoke agree_call [OF assms(1)] by (auto simp: Let_def)
next
  case (Other_Term k vs ls)
  then have "map (s_env s') vs = map (s_env s) vs" using assms agree_map by fastforce
  then have "w_branch W k (map (s_env s') vs) (s_mem s') = w_branch W k (map (s_env s) vs) (s_mem s)" using assms(1) by (simp only: agree_def)
  then show ?thesis using assms(1,4) Other_Term by (auto simp: Let_def split: if_splits)
qed (use assms in \<open>auto simp: agree_def\<close>)

lemma find_rename:
  assumes "\<forall>(v, l) \<in> set inc. f l = f from \<longrightarrow> l = from"
  shows "find (\<lambda>(v, l). l = f from) (map (\<lambda>(v, l). (v, f l)) inc) = map_option (\<lambda>(v, l). (v, f l)) (find (\<lambda>(v, l). l = from) inc)"
  using assms by (induction inc) auto

lemma map_of_rename: "map_of (map (\<lambda>(x, inc). (x, g inc)) xs) v = map_option g (map_of xs v)"
  by (induction xs) auto

lemma enter_phis_agree:
  assumes "agree n s s'" "\<forall>(x, inc) \<in> set (b_phis b). x < n \<and> (\<forall>(v, l) \<in> set inc. v < n \<and> (f l = f from \<longrightarrow> l = from))"
  shows "agree n (enter_phis from b s) (enter_phis (f from) (rename_phis f b) s')"
proof -
  have "s_env (enter_phis (f from) (rename_phis f b) s') x = s_env (enter_phis from b s) x" if x: "x < n" for x
  proof (cases "map_of (b_phis b) x")
    case None
    then show ?thesis using assms(1) x by (simp add: enter_phis_def rename_phis_def map_of_rename agree_def)
  next
    case (Some inc)
    then have i: "\<forall>(v, l) \<in> set inc. v < n \<and> (f l = f from \<longrightarrow> l = from)" using assms(2) map_of_SomeD [OF Some] by blast
    then have fr: "find (\<lambda>(v, l). l = f from) (map (\<lambda>(v, l). (v, f l)) inc) = map_option (\<lambda>(v, l). (v, f l)) (find (\<lambda>(v, l). l = from) inc)"
      by (intro find_rename) auto
    show ?thesis
    proof (cases "find (\<lambda>(v, l). l = from) inc")
      case None
      then show ?thesis using Some fr by (simp add: enter_phis_def rename_phis_def map_of_rename)
    next
      case found: (Some vl)
      obtain v l where vl: "vl = (v, l)" by (cases vl)
      then have "(v, l) \<in> set inc" using found by (auto simp: find_Some_iff in_set_conv_nth)
      then have "v < n" using i by auto
      then show ?thesis using Some fr found vl assms(1) by (simp add: enter_phis_def rename_phis_def map_of_rename agree_def)
    qed
  qed
  then show ?thesis using assms(1) by (simp add: agree_def) (simp add: enter_phis_def)
qed

lemma enter_no_phis [simp]: "enter_phis from \<lparr>b_phis = [], b_body = body, b_term = t\<rparr> s = s"
  by (simp add: enter_phis_def)

lemma step_instr: "c_rest c = i # js \<Longrightarrow> step W B c = Some (c\<lparr>c_rest := js, c_state := exec_instr W i (c_state c)\<rparr>)"
  by (simp add: step_def)

lemma step_block:
  "c_rest c = [] \<Longrightarrow> exec_term W (c_term c) (c_state c) = Some (l, s) \<Longrightarrow> map_of B l = Some b \<Longrightarrow>
    step W B c = Some \<lparr>c_label = l, c_rest = b_body b, c_term = b_term b, c_state = enter_phis (c_label c) b s\<rparr>"
  by (simp add: step_def)

lemma step_blockE:
  assumes "step W B c = Some d" "c_rest c = []"
  obtains l s b where "exec_term W (c_term c) (c_state c) = Some (l, s)" "map_of B l = Some b"
    "d = \<lparr>c_label = l, c_rest = b_body b, c_term = b_term b, c_state = enter_phis (c_label c) b s\<rparr>"
  using assms by (auto simp: step_def split: option.splits prod.splits)

lemma run_Suc: "step W B c = Some d \<Longrightarrow> run W B m d = r \<Longrightarrow> run W B (Suc m) c = r"
  by simp

lemma run_add: "run W B m c = Some d \<Longrightarrow> run W B (m + m') c = run W B m' d"
  by (induction m arbitrary: c) (auto split: option.splits)

lemma exec_instr_trace: "set (s_trace s) \<subseteq> set (s_trace (exec_instr W i s))"
  by (cases i) (auto split: prod.split)

lemma exec_term_trace: "exec_term W t s = Some (l, s') \<Longrightarrow> set (s_trace s) \<subseteq> set (s_trace s')"
  by (cases t) (auto simp: Let_def split: if_splits)

lemma step_trace: "step W B c = Some d \<Longrightarrow> set (s_trace (c_state c)) \<subseteq> set (s_trace (c_state d))"
proof (cases "c_rest c")
  case Nil
  assume "step W B c = Some d"
  then show ?thesis by (rule step_blockE [OF _ Nil]) (simp add: enter_phis_def exec_term_trace)
next
  case (Cons i js)
  assume "step W B c = Some d"
  then have "c_state d = exec_instr W i (c_state c)" by (auto simp: step_instr [OF Cons])
  then show ?thesis by (simp add: exec_instr_trace)
qed

lemma run_trace: "run W B m c = Some d \<Longrightarrow> set (s_trace (c_state c)) \<subseteq> set (s_trace (c_state d))"
proof (induction m arbitrary: c)
  case (Suc m)
  obtain e where e: "step W B c = Some e" "run W B m e = Some d" using Suc.prems by (auto split: option.splits)
  show ?case by (rule subset_trans [OF step_trace [OF e(1)] Suc.IH [OF e(2)]])
qed simp

text \<open>A masked or tested call of a target that masking leaves as it is acts as the call it replaces.\<close>

lemma normal_case_runs:
  assumes "agree n (c_state c) (c_state c')" "v < n" "\<forall>a \<in> set args. a < n" "n \<le> m"
    and "mask_target (w_or W) (w_and W) (s_env (c_state c) v) = s_env (c_state c) v"
    and "c_rest c' = instrumentNormalCase m r void v args @ body"
  shows "\<exists>s. run W B 5 c' = Some (c'\<lparr>c_rest := body, c_state := s\<rparr>) \<and> agree n (exec_instr W (Call r void (Indirect v) args) (c_state c)) s"
proof -
  let ?t = "s_env (c_state c) v"
  let ?s = "set_val (m + 3) ?t (set_val (m + 2) ?t (set_val (m + 1) (?t OR w_or W) (set_val m ?t (c_state c'))))"
  have t: "s_env (c_state c') v = ?t" using assms(1,2) by (simp add: agree_def)
  have mt: "(?t OR w_or W) AND w_and W = ?t" using assms(5) by (simp add: mask_target_def)
  have s: "agree n (c_state c) ?s" using assms(1,4) by (intro agree_fresh) simp_all
  have "map (s_env ?s) args = map (s_env (c_state c)) args" by (rule agree_map [OF s assms(3)])
  then have ev: "event_of (Indirect (m + 3)) args ?s = event_of (Indirect v) args (c_state c)" by simp
  have "run W B 5 c' = Some (c'\<lparr>c_rest := body, c_state := do_call W r void (event_of (Indirect (m + 3)) args ?s) ?s\<rparr>)"
    using assms(6) by (simp add: instrumentNormalCase_def eval_nat_numeral step_instr t mt)
  then show ?thesis unfolding ev using agree_call [OF s] by auto
qed

lemma check_case_runs:
  assumes "agree n (c_state c) (c_state c')" "v < n" "r < n" "\<forall>a \<in> set args. a < n" "n \<le> m"
    and "mask_target (w_or W) (w_and W) (s_env (c_state c) v) = s_env (c_state c) v"
    and "c_rest c' = check_code m v" "c_term c' = CondBr (m + 1) (l + 1) (l + 2)"
    and "map_of B l = Some \<lparr>b_phis = after_phis m l r void, b_body = body, b_term = t'\<rparr>"
    and "\<forall>(l, b) \<in> set (check_blocks m l void v args). map_of B l = Some b"
  shows "\<exists>s. run W B 6 c' = Some \<lparr>c_label = l, c_rest = body, c_term = t', c_state = s\<rparr> \<and>
    agree n (exec_instr W (Call r void (Indirect v) args) (c_state c)) s"
proof -
  let ?t = "s_env (c_state c) v" and ?ev = "event_of (Indirect v) args (c_state c)"
  let ?s = "set_val (m + 1) 1 (set_val m ?t ((c_state c')\<lparr>s_r11 := ?t\<rparr>))"
  have t: "s_env (c_state c') v = ?t" using assms(1,2) by (simp add: agree_def)
  have s: "agree n (c_state c) ?s"
    using assms(1,5) by (simp add: agree_def)
  have ev: "event_of (Indirect v) args ?s = ?ev"
    using assms(2,4) by (intro agree_event [OF s]) auto
  define s1 where "s1 = do_call W (m + 2) void ?ev ?s"
  have b: "map_of B (Suc l) = Some \<lparr>b_phis = [], b_body = [Call (m + 2) void (Indirect v) args], b_term = Br l\<rparr>"
    using assms(10) by (simp add: check_blocks_def)
  have 1: "run W B 4 c' = Some \<lparr>c_label = Suc l, c_rest = [Call (m + 2) void (Indirect v) args], c_term = Br l, c_state = ?s\<rparr>"
    using assms(2,5,6,7,8) b by (simp add: check_code_def eval_nat_numeral step_instr t step_block)
  have 2: "run W B 2 \<lparr>c_label = Suc l, c_rest = [Call (m + 2) void (Indirect v) args], c_term = Br l, c_state = ?s\<rparr> =
      Some \<lparr>c_label = l, c_rest = body, c_term = t', c_state = enter_phis (Suc l) \<lparr>b_phis = after_phis m l r void, b_body = body, b_term = t'\<rparr> s1\<rparr>"
    using ev assms(9) by (simp add: eval_nat_numeral step_instr step_block s1_def del: event_of.simps)
  have "run W B (4 + 2) c' = Some \<lparr>c_label = l, c_rest = body, c_term = t', c_state = enter_phis (Suc l) \<lparr>b_phis = after_phis m l r void, b_body = body, b_term = t'\<rparr> s1\<rparr>"
    by (simp only: run_add [OF 1] 2)
  moreover have "agree n (exec_instr W (Call r void (Indirect v) args) (c_state c))
      (enter_phis (Suc l) \<lparr>b_phis = after_phis m l r void, b_body = body, b_term = t'\<rparr> s1)"
    using s assms(3,5) by (cases void) (auto simp: agree_def s1_def enter_phis_def after_phis_def)
  ultimately show ?thesis by simp
qed

definition plain_instr :: "val \<Rightarrow> instr \<Rightarrow> bool" where
  "plain_instr n i \<longleftrightarrow> (\<forall>v \<in> set (instr_vals i). v < n) \<and> no_table_call i"

definition plain_block :: "val \<Rightarrow> label \<Rightarrow> block \<Rightarrow> bool" where
  "plain_block n k b \<longleftrightarrow> wf_block n k b \<and> list_all no_table_call (b_body b) \<and> no_table_invoke (b_term b)"

text \<open>A point of the function and the point of the instrumented function that corresponds to it.\<close>

definition matched :: "pass_fun \<Rightarrow> (label \<times> block) list \<Rightarrow> (label \<times> label) list \<Rightarrow> val \<Rightarrow> label \<Rightarrow> 'm config \<Rightarrow> 'm config \<Rightarrow> bool" where
  "matched P B' ends n k c c' \<longleftrightarrow> c_label c < k \<and> agree n (c_state c) (c_state c') \<and>
    (\<forall>i \<in> set (c_rest c). plain_instr n i) \<and> (\<forall>v \<in> set (term_vals (c_term c)). v < n) \<and> no_table_invoke (c_term c) \<and>
    (\<exists>ps new ps'. n \<le> ps_val ps \<and> (\<forall>(l, b) \<in> set new. map_of B' l = Some b) \<and>
       instrumented P (c_label c') (c_rest c) (c_term c) ps (c_rest c', c_term c', new, end_of ends (c_label c), ps'))"

text \<open>The blocks of the instrumented function.\<close>

definition replaced :: "pass_fun \<Rightarrow> (label \<times> block) list \<Rightarrow> (label \<times> block) list \<Rightarrow> (label \<times> label) list \<Rightarrow> val \<Rightarrow> label \<Rightarrow> bool" where
  "replaced P B B' ends n k \<longleftrightarrow>
    (\<forall>l l'. l < k \<longrightarrow> l' < k \<longrightarrow> end_of ends l = end_of ends l' \<longrightarrow> l = l') \<and>
    (\<forall>l b. map_of B l = Some b \<longrightarrow> l < k \<and> plain_block n k b \<and>
       (\<exists>ps body t' new ps'. n \<le> ps_val ps \<and> (\<forall>(l, b) \<in> set new. map_of B' l = Some b) \<and>
          map_of B' l = Some (rename_phis (end_of ends) (b\<lparr>b_body := body, b_term := t'\<rparr>)) \<and>
          instrumented P l (b_body b) (b_term b) ps (body, t', new, end_of ends l, ps')))"

lemma to_table_only: "table_of P = None \<Longrightarrow> call_action P F v \<noteq> Some (To_Table f)"
  by (auto simp: call_action_def Let_def split: option.splits if_splits)

inductive_simps instrumented_Nil: "instrumented P cur [] t ps res"

lemma matchedI:
  "c_label c < k \<Longrightarrow> agree n (c_state c) (c_state c') \<Longrightarrow> \<forall>i \<in> set (c_rest c). plain_instr n i \<Longrightarrow>
    \<forall>v \<in> set (term_vals (c_term c)). v < n \<Longrightarrow> no_table_invoke (c_term c) \<Longrightarrow> n \<le> ps_val ps \<Longrightarrow>
    \<forall>(l, b) \<in> set new. map_of B' l = Some b \<Longrightarrow>
    instrumented P (c_label c') (c_rest c) (c_term c) ps (c_rest c', c_term c', new, end_of ends (c_label c), ps') \<Longrightarrow>
    matched P B' ends n k c c'"
  by (auto simp: matched_def)

lemma matched_block:
  assumes "replaced P B B' ends n k" "matched P B' ends n k c c'" "c_rest c = []" "step W B c = Some d"
  shows "\<exists>d'. step W B' c' = Some d' \<and> matched P B' ends n k d d'"
proof -
  obtain l s b where d: "exec_term W (c_term c) (c_state c) = Some (l, s)" "map_of B l = Some b"
      "d = \<lparr>c_label = l, c_rest = b_body b, c_term = b_term b, c_state = enter_phis (c_label c) b s\<rparr>"
    using step_blockE [OF assms(4,3)] .
  have c': "c_rest c' = []" "c_term c' = c_term c" "c_label c' = end_of ends (c_label c)"
    using assms(2,3) unfolding matched_def by (simp_all add: instrumented_Nil)
  obtain s' where s': "exec_term W (c_term c) (c_state c') = Some (l, s')" "agree n s s'"
    using agree_term [OF _ _ _ d(1), of n "c_state c'"] assms(2) unfolding matched_def by blast
  obtain ps body t' new ps' where b: "l < k" "plain_block n k b" "n \<le> ps_val ps" "\<forall>(l, b) \<in> set new. map_of B' l = Some b"
      "map_of B' l = Some (rename_phis (end_of ends) (b\<lparr>b_body := body, b_term := t'\<rparr>))"
      "instrumented P l (b_body b) (b_term b) ps (body, t', new, end_of ends l, ps')"
    using assms(1) d(2) unfolding replaced_def by blast
  let ?b' = "rename_phis (end_of ends) (b\<lparr>b_body := body, b_term := t'\<rparr>)"
  let ?d' = "\<lparr>c_label = l, c_rest = body, c_term = t', c_state = enter_phis (c_label c') ?b' s'\<rparr>"
  have "step W B' c' = Some ?d'" using c' s'(1) b(5) by (simp add: step_block rename_phis_def)
  moreover have "enter_phis (c_label c') ?b' s' = enter_phis (c_label c') (rename_phis (end_of ends) b) s'"
    by (simp add: enter_phis_def rename_phis_def)
  moreover have "\<forall>(x, inc) \<in> set (b_phis b). x < n \<and> (\<forall>(v, l) \<in> set inc. v < n \<and> (end_of ends l = end_of ends (c_label c) \<longrightarrow> l = c_label c))"
    using b(2) assms(1,2) unfolding plain_block_def wf_block_def replaced_def matched_def by fastforce
  then have "agree n (enter_phis (c_label c) b s) (enter_phis (end_of ends (c_label c)) (rename_phis (end_of ends) b) s')"
    by (rule enter_phis_agree [OF s'(2)])
  ultimately have "matched P B' ends n k d ?d'"
    using b c'(3) by (intro matchedI [where ps = ps and ps' = ps' and new = new])
      (auto simp: d(3) plain_block_def wf_block_def plain_instr_def list_all_iff)
  then show ?thesis using \<open>step W B' c' = Some ?d'\<close> by blast
qed

lemma matched_instr:
  assumes "matched P B' ends n k c c'" "c_rest c = i # js" "table_of P = None" "step W B c = Some d"
    "\<forall>ev \<in> set (s_trace (c_state d)). fixed W ev"
  shows "\<exists>m d'. run W B' m c' = Some d' \<and> matched P B' ends n k d d'"
proof -
  let ?s = "exec_instr W i (c_state c)"
  have d: "d = c\<lparr>c_rest := js, c_state := ?s\<rparr>" using assms(4) by (simp add: step_instr [OF assms(2)])
  obtain ps new ps' where m: "c_label c < k" "agree n (c_state c) (c_state c')" "\<forall>i \<in> set (c_rest c). plain_instr n i"
      "\<forall>v \<in> set (term_vals (c_term c)). v < n" "no_table_invoke (c_term c)" "n \<le> ps_val ps" "\<forall>(l, b) \<in> set new. map_of B' l = Some b"
      "instrumented P (c_label c') (i # js) (c_term c) ps (c_rest c', c_term c', new, end_of ends (c_label c), ps')"
    using assms(1,2) unfolding matched_def by metis
  have i: "plain_instr n i" using m(3) assms(2) by simp
  have same: "agree n ?s (exec_instr W i (c_state c'))" using agree_instr [OF m(2)] i by (simp add: plain_instr_def)
  have one: "run W B' 1 c' = Some (c'\<lparr>c_rest := body, c_state := exec_instr W i (c_state c')\<rparr>)" if "c_rest c' = i # body" for body
    using that by (simp add: step_instr)
  have fx: "mask_target (w_or W) (w_and W) (s_env (c_state c) v) = s_env (c_state c) v" if "i = Call r void (Indirect v) args" for r void v args
    using assms(5) that unfolding d by (simp add: fixed_def)
  have fin: "\<exists>m d'. run W B' m c' = Some d' \<and> matched P B' ends n k d d'"
    if "run W B' x c' = Some d'" "agree n ?s (c_state d')" "n \<le> ps_val ps1" "\<forall>(l, b) \<in> set new1. map_of B' l = Some b"
      "instrumented P (c_label d') js (c_term c) ps1 (c_rest d', c_term d', new1, end_of ends (c_label c), ps')" for x d' ps1 new1
    using that m assms(2) by (intro exI [of _ x] exI [of _ d'] conjI matchedI [where ps = ps1 and new = new1 and ps' = ps']) (simp_all add: d)
  from m(8) show ?thesis
  proof cases
    case (Leaving v body r void args)
    then show ?thesis using same m(6,7) by (intro fin [OF one, of body "ps\<lparr>ps_left := v # ps_left ps\<rparr>" new]) simp_all
  next
    case (Tabled v)
    then show ?thesis using to_table_only [OF assms(3)] by blast
  next
    case (Masking v body r void args)
    obtain s where s: "run W B' 5 c' = Some (c'\<lparr>c_rest := body, c_state := s\<rparr>)" "agree n ?s s"
      using normal_case_runs [OF m(2) _ _ m(6) fx [OF Masking(1)] Masking(2)] i unfolding Masking(1) plain_instr_def by auto
    show ?thesis using s(2) Masking m(6,7) by (intro fin [OF s(1), of "add_values 4 ps" new]) (simp_all add: add_values_def)
  next
    case (Testing v r void body t' new1 args)
    obtain s where s: "run W B' 6 c' = Some \<lparr>c_label = ps_label ps, c_rest = body, c_term = t', c_state = s\<rparr>" "agree n ?s s"
      using check_case_runs [OF m(2) _ _ _ m(6) fx [OF Testing(1)] Testing(2,3), where B = B' and r = r and void = void and args = args and body = body and t' = t'] i m(7) unfolding Testing(1,4) plain_instr_def by auto
    show ?thesis using s(2) Testing m(6,7) by (intro fin [OF s(1), of "merge_call r void ps" new1]) (simp_all add: merge_call_def add_values_def Let_def)
  next
    case (Passing body)
    then show ?thesis using same m(6,7) by (intro fin [OF one, of body ps new]) simp_all
  qed
qed

lemma matched_run:
  assumes "replaced P B B' ends n k" "table_of P = None" "matched P B' ends n k c c'" "run W B m c = Some d"
    "\<forall>ev \<in> set (s_trace (c_state d)). fixed W ev"
  shows "\<exists>m' d'. run W B' m' c' = Some d' \<and> matched P B' ends n k d d'"
  using assms(3,4)
proof (induction m arbitrary: c c')
  case 0
  then show ?case by (intro exI [of _ 0] exI [of _ c']) simp
next
  case (Suc m)
  obtain e where e: "step W B c = Some e" "run W B m e = Some d" using Suc.prems(2) by (auto split: option.splits)
  have tr: "\<forall>ev \<in> set (s_trace (c_state e)). fixed W ev" using run_trace [OF e(2)] assms(5) by blast
  have "\<exists>x e'. run W B' x c' = Some e' \<and> matched P B' ends n k e e'"
  proof (cases "c_rest c")
    case Nil
    then obtain e' where "step W B' c' = Some e'" "matched P B' ends n k e e'" using matched_block [OF assms(1) Suc.prems(1) _ e(1)] by blast
    then show ?thesis by (intro exI [of _ 1] exI [of _ e']) simp
  next
    case (Cons i js)
    show ?thesis by (rule matched_instr [OF Suc.prems(1) Cons assms(2) e(1) tr])
  qed
  then obtain x e' where x: "run W B' x c' = Some e'" "matched P B' ends n k e e'" by blast
  obtain y d' where y: "run W B' y e' = Some d'" "matched P B' ends n k d d'" using Suc.IH [OF x(2) e(2)] by blast
  show ?case using y run_add [OF x(1), of y] by (intro exI [of _ "x + y"] exI [of _ d']) simp
qed

lemma instrumented_phis:
  "instrumented P cur js t ps (body, t', new, e, ps') \<Longrightarrow>
    \<forall>(l, b) \<in> set new. \<forall>(x, inc) \<in> set (b_phis b). \<forall>(v, l') \<in> set inc. ps_label ps \<le> l'"
proof (induction cur js t ps "(body, t', new, e, ps')" arbitrary: body t' new e rule: instrumented.induct)
  case (Testing ps v js t r void body t' new e cur args)
  have "ps_label ps \<le> ps_label (merge_call r void ps)" by (simp add: merge_call_def add_values_def Let_def)
  then have "\<forall>(l, b) \<in> set new. \<forall>(x, inc) \<in> set (b_phis b). \<forall>(v, l') \<in> set inc. ps_label ps \<le> l'"
    using Testing.hyps(3) by fastforce
  then show ?case by (auto simp: check_blocks_def after_phis_def)
qed auto

lemma instrumented_term:
  "instrumented P cur js t ps (body, t', new, e, ps') \<Longrightarrow> t' = t \<or> (\<exists>(l, b) \<in> set new. b_term b = t)"
  by (induction cur js t ps "(body, t', new, e, ps')" arbitrary: body t' new e rule: instrumented.induct) auto

lemma rename_same: "\<forall>(x, inc) \<in> set (b_phis b). \<forall>(v, l) \<in> set inc. f l = l \<Longrightarrow> rename_phis f b = b"
proof -
  assume a: "\<forall>(x, inc) \<in> set (b_phis b). \<forall>(v, l) \<in> set inc. f l = l"
  have "map (\<lambda>(x, inc). (x, map (\<lambda>(v, l). (v, f l)) inc)) (b_phis b) = map id (b_phis b)"
  proof (intro map_cong refl)
    fix p assume p: "p \<in> set (b_phis b)"
    obtain x inc where [simp]: "p = (x, inc)" by (cases p)
    have "\<forall>q \<in> set inc. (case q of (v, l) \<Rightarrow> (v, f l)) = q" using a p by auto
    then show "(case p of (x, inc) \<Rightarrow> (x, map (\<lambda>(v, l). (v, f l)) inc)) = id p" by (simp add: map_idI)
  qed
  then show ?thesis by (simp add: rename_phis_def)
qed

definition part_of :: "pass_fun \<Rightarrow> pass_state \<Rightarrow> (label \<times> block) list \<Rightarrow> (label \<times> label) list \<Rightarrow> label \<Rightarrow> block \<Rightarrow> bool" where
  "part_of P ps blocks ends l b \<longleftrightarrow>
    (\<exists>ps1 body t' new e ps1'. ps_val ps \<le> ps_val ps1 \<and> ps_label ps \<le> ps_label ps1 \<and> set new \<subseteq> set blocks \<and>
      (l, b\<lparr>b_body := body, b_term := t'\<rparr>) \<in> set blocks \<and> (l, e) \<in> set ends \<and>
      instrumented P l (b_body b) (b_term b) ps1 (body, t', new, e, ps1'))"

lemma part_of_mono:
  "part_of P ps1 blocks' ends' l b \<Longrightarrow> ps_val ps \<le> ps_val ps1 \<Longrightarrow> ps_label ps \<le> ps_label ps1 \<Longrightarrow> set blocks' \<subseteq> set blocks \<Longrightarrow>
    set ends' \<subseteq> set ends \<Longrightarrow> part_of P ps blocks ends l b"
  unfolding part_of_def by (meson order_trans subsetD)

lemma instrument_blocks_parts:
  assumes "instrument_blocks P bs ps = Some (blocks, ends, ps')" "distinct (map fst bs)" "\<forall>(l, b) \<in> set bs. l < k" "k \<le> ps_label ps"
  shows "(\<forall>(l, b) \<in> set bs. part_of P ps blocks ends l b) \<and>
    distinct (map snd ends) \<and> (\<forall>(l, e) \<in> set ends. e = l \<or> ps_label ps \<le> e)"
  using assms
proof (induction bs arbitrary: ps blocks ends)
  case (Cons lb bs)
  obtain l b where lb: "lb = (l, b)" by (cases lb)
  obtain body t' new e ps1 where 1: "instrument_body P l (b_body b) (b_term b) ps = Some (body, t', new, e, ps1)"
    using Cons.prems(1) lb by (auto split: option.splits)
  obtain blocks' ends' where 2: "instrument_blocks P bs ps1 = Some (blocks', ends', ps')"
      "blocks = (l, b\<lparr>b_body := body, b_term := t'\<rparr>) # new @ blocks'" "ends = (l, e) # ends'"
    using Cons.prems(1) lb 1 by (auto split: option.splits)
  note i = instrumentedI [OF 1]
  note g = instrumented_grows [OF i] and n = instrumented_labels [OF i]
  have p: "distinct (map fst bs)" "\<forall>(l, b) \<in> set bs. l < k" "k \<le> ps_label ps1" "l < k" "l \<notin> fst ` set bs"
    using Cons.prems(2,3,4) lb g by auto
  note IH = Cons.IH [OF 2(1) p(1,2,3)]
  have f: "map fst ends' = map fst bs" using instrument_blocks_labels [OF 2(1) p(1,2,3)] by blast
  have e: "e \<notin> snd ` set ends'"
  proof
    assume "e \<in> snd ` set ends'"
    then obtain x where x: "(x, e) \<in> set ends'" by force
    then have "x \<in> fst ` set bs" using f by (metis fst_conv image_eqI list.set_map)
    then have "x < k" "x \<noteq> l" using p by auto
    moreover have "e = x \<or> ps_label ps1 \<le> e" using IH x by auto
    ultimately show False using n p(4) Cons.prems(4) g by auto
  qed
  have "part_of P ps blocks ends l b"
    unfolding part_of_def using i by (intro exI [of _ ps] exI [of _ body] exI [of _ t'] exI [of _ new] exI [of _ e] exI [of _ ps1]) (simp add: 2 subset_iff)
  moreover have "part_of P ps blocks ends x y" if "(x, y) \<in> set bs" for x y
  proof -
    have "part_of P ps1 blocks' ends' x y" using IH that by auto
    then show ?thesis by (rule part_of_mono) (use g in \<open>auto simp: 2\<close>)
  qed
  ultimately have "\<forall>(l, b) \<in> set (lb # bs). part_of P ps blocks ends l b" by (auto simp: lb)
  moreover have "distinct (map snd ends)" using IH e by (simp add: 2(3))
  moreover have "\<forall>(l, e) \<in> set ends. e = l \<or> ps_label ps \<le> e" using IH n g by (fastforce simp: 2(3))
  ultimately show ?case by blast
qed auto

lemma end_of_inj:
  assumes "distinct (map snd ends)" "\<forall>(l, e) \<in> set ends. e = l \<or> k \<le> e" "l < k" "l' < k" "end_of ends l = end_of ends l'"
  shows "l = l'"
proof -
  have e: "end_of ends x = x \<or> k \<le> end_of ends x \<and> (x, end_of ends x) \<in> set ends" for x
    using assms(2) by (auto simp: end_of_def split: option.splits dest!: map_of_SomeD)
  show ?thesis
  proof (cases "end_of ends l = l")
    case True
    then show ?thesis using e [of l'] assms(3,5) by auto
  next
    case False
    then have "(l, end_of ends l) \<in> set ends" "k \<le> end_of ends l" using e by blast+
    moreover have "(l', end_of ends l) \<in> set ends" using calculation(2) e [of l'] assms(4,5) by auto
    moreover have "inj_on snd (set ends)" using assms(1) by (simp add: distinct_map)
    ultimately show ?thesis using inj_onD [of snd "set ends" "(l, end_of ends l)" "(l', end_of ends l)"] by simp
  qed
qed

definition plain_fun :: "ir_fun \<Rightarrow> bool" where
  "plain_fun F \<longleftrightarrow> (\<forall>(l, b) \<in> set (f_blocks F). list_all no_table_call (b_body b) \<and> no_table_invoke (b_term b))"

lemma instrument_fun_replaced:
  assumes "instrument_fun E maybe F = Some F'" "f_name F \<notin> set skipped_functions" "wf_fun F" "plain_fun F"
  shows "\<exists>ends. replaced (pass_fun_of E maybe F) (f_blocks F) (f_blocks F') ends (f_next_val F) (f_next_label F)"
proof -
  define P n k where d: "P = pass_fun_of E maybe F" "n = f_next_val F" "k = f_next_label F"
  obtain blocks ends ps where r: "instrument_blocks P (f_blocks F) (pass_start F) = Some (blocks, ends, ps)"
      "f_blocks F' = map (\<lambda>(l, b). (l, rename_phis (end_of ends) b)) blocks"
    using assms(1,2) by (auto simp: instrument_fun_def d split: option.splits)
  have w: "distinct (map fst (f_blocks F))" "\<forall>(l, b) \<in> set (f_blocks F). l < k" "k \<le> ps_label (pass_start F)"
    using assms(3) by (auto simp: wf_fun_def d pass_start_def)
  note L = instrument_blocks_labels [OF r(1) w] and Q = instrument_blocks_parts [OF r(1) w]
  have q: "\<forall>(l, b) \<in> set (f_blocks F). part_of P (pass_start F) blocks ends l b" "distinct (map snd ends)"
      "\<forall>(l, e) \<in> set ends. e = l \<or> k \<le> e"
    using Q by (auto simp: pass_start_def d)
  have dist: "distinct (map fst blocks)" "map fst ends = map fst (f_blocks F)" using L by blast+
  have same: "end_of ends l = l" if "k \<le> l" for l
  proof -
    have "l \<notin> fst ` set ends" using w(2) that dist(2) by (metis (no_types, lifting) case_prodD imageE leD list.set_map prod.collapse)
    then have "map_of ends l = None" by (simp add: map_of_eq_None_iff)
    then show ?thesis by (simp add: end_of_def)
  qed
  have found: "map_of (f_blocks F') l = Some (rename_phis (end_of ends) b)" if "(l, b) \<in> set blocks" for l b
    using that map_of_is_SomeI [OF dist(1)] by (simp add: r(2) map_of_rename)
  have "l < k \<and> plain_block n k b \<and> (\<exists>ps body t' new ps'. n \<le> ps_val ps \<and> (\<forall>(l, b) \<in> set new. map_of (f_blocks F') l = Some b) \<and>
      map_of (f_blocks F') l = Some (rename_phis (end_of ends) (b\<lparr>b_body := body, b_term := t'\<rparr>)) \<and>
      instrumented P l (b_body b) (b_term b) ps (body, t', new, end_of ends l, ps'))"
    if b: "map_of (f_blocks F) l = Some b" for l b
  proof -
    have lb: "(l, b) \<in> set (f_blocks F)" using b by (rule map_of_SomeD)
    then have p: "l < k" "plain_block n k b" using assms(3,4) by (auto simp: wf_fun_def plain_fun_def plain_block_def d)
    have "part_of P (pass_start F) blocks ends l b" using q(1) lb by blast
    then obtain ps1 body t' new e ps1' where x: "n \<le> ps_val ps1" "k \<le> ps_label ps1" "set new \<subseteq> set blocks"
        "(l, b\<lparr>b_body := body, b_term := t'\<rparr>) \<in> set blocks" "(l, e) \<in> set ends" "instrumented P l (b_body b) (b_term b) ps1 (body, t', new, e, ps1')"
      unfolding part_of_def by (auto simp: pass_start_def d)
    have e: "end_of ends l = e" using x(5) dist(2) w(1) by (simp add: end_of_def)
    have "map_of (f_blocks F') l' = Some b'" if nb: "(l', b') \<in> set new" for l' b'
    proof -
      have "\<forall>(x, inc) \<in> set (b_phis b'). \<forall>(v, l) \<in> set inc. end_of ends l = l"
        using instrumented_phis [OF x(6)] nb same x(2) by (fastforce dest: order_trans)
      then have "rename_phis (end_of ends) b' = b'" by (rule rename_same)
      then show ?thesis using found nb x(3) by (metis subsetD)
    qed
    then show ?thesis using p x(1,6) found [OF x(4)] e
      by (intro conjI exI [of _ ps1] exI [of _ body] exI [of _ t'] exI [of _ new] exI [of _ ps1']) auto
  qed
  moreover have "\<forall>l l'. l < k \<longrightarrow> l' < k \<longrightarrow> end_of ends l = end_of ends l' \<longrightarrow> l = l'" using end_of_inj [OF q(2,3)] by blast
  ultimately show ?thesis unfolding replaced_def d by blast
qed

section \<open>Properties\<close>


text \<open>A function with two indirect calls and a block whose PHI node names the block of the calls.\<close>

definition demo_info :: func_info where
  "demo_info = \<lparr>fi_nvals = 4, fi_value = (\<lambda>v. V_Other), fi_store_users = (\<lambda>v. []), fi_args = [], fi_strip = (\<lambda>v. v),
     fi_elements = (\<lambda>e. []), fi_retained = None, fi_types = None, fi_records = [], fi_declares = []\<rparr>"

definition demo_ir :: ir_fun where
  "demo_ir = \<lparr>f_name = ''visit'', f_info = demo_info,
     f_blocks = [(0, \<lparr>b_phis = [], b_body = [Call 2 False (Indirect 0) [1], Call 2 False (Indirect 0) [2]], b_term = Br 1\<rparr>),
                 (1, \<lparr>b_phis = [(3, [(2, 0)])], b_body = [], b_term = Other_Term 0 [3] []\<rparr>)],
     f_next_val = 4, f_next_label = 2\<rparr>"

definition demo_env :: pass_env where
  "demo_env = \<lparr>pe_loader = False, pe_structs = [], pe_globals = []\<rparr>"

text \<open>A called function adds one to its argument.\<close>

definition demo_world :: "unit world" where
  "demo_world = \<lparr>w_or = 0x7fffefff8000, w_and = 0x7fffefffffff, w_op = (\<lambda>k vs m. (0, m)),
     w_call = (\<lambda>ev m. (case ev of Ev_Indirect t args \<Rightarrow> hd args + 1 | Ev_Direct f args r \<Rightarrow> 7 | Ev_Asm k args \<Rightarrow> 0, m)),
     w_unwinds = (\<lambda>ev m. False), w_branch = (\<lambda>k vs m. 0)\<rparr>"

definition demo_state :: "u64 \<Rightarrow> unit state" where
  "demo_state t = \<lparr>s_env = (\<lambda>v. if v = 0 then t else if v = 1 then 5 else 0), s_r11 = 0, s_mem = (), s_trace = []\<rparr>"

lemma demo_wf: "wf_fun demo_ir" "no_indirect_invoke demo_ir" "plain_fun demo_ir" "f_name demo_ir \<notin> set skipped_functions"
  by (simp_all add: wf_fun_def wf_block_def no_indirect_invoke_def plain_fun_def demo_ir_def skipped_functions_def callback_tables_def)

lemma demo_left: "calls_left demo_env [''visit''] demo_ir = []" "calls_left demo_env [] demo_ir = []"
  by code_simp+

definition demo_out :: ir_fun where
  "demo_out = the (instrument_fun demo_env [''visit''] demo_ir)"

lemma demo_out: "instrument_fun demo_env [''visit''] demo_ir = Some demo_out"
proof -
  have "\<not> Option.is_none (instrument_fun demo_env [''visit''] demo_ir)" by code_simp
  then show ?thesis by (simp add: demo_out_def Option.is_none_def)
qed

definition demo_start :: "u64 \<Rightarrow> unit config" where
  "demo_start t = start 0 (the (map_of (f_blocks demo_out) 0)) (demo_state t)"

lemma demo_block: "map_of (f_blocks demo_out) 0 = Some (the (map_of (f_blocks demo_out) 0))"
proof -
  have "\<not> Option.is_none (map_of (f_blocks demo_out) 0)" by code_simp
  then show ?thesis by (simp add: Option.is_none_def)
qed


text \<open>Every called address is the result of masking.\<close>

lemma instrumented_calls_masked:
  assumes "instrument_fun E maybe F = Some F'" "f_name F \<notin> set skipped_functions" "wf_fun F" "no_indirect_invoke F" "calls_left E maybe F = []"
    and "map_of (f_blocks F) l = Some b" "map_of (f_blocks F') l = Some b'" "s_trace s = []"
    and "run W (f_blocks F') n (start l b' s) = Some c" "Ev_Indirect t args \<in> set (s_trace (c_state c))"
  shows "\<exists>y. t = mask_target (w_or W) (w_and W) y"
proof -
  obtain N where N: "\<forall>l < f_next_label F. N l = []" "type_fun N (f_blocks F')" using instrument_fun_typed [OF assms(1-5)] by blast
  have "N l = []" using N(1) assms(3,6) by (auto simp: wf_fun_def dest!: map_of_SomeD)
  then have "typed_config W N c" using run_typed [OF N(2) typed_start [OF N(2) assms(7) _ assms(8)] assms(9)] by simp
  then have "masked_value W t" using assms(10) by (auto simp: typed_config_def)
  then show ?thesis by (simp add: masked_value_def)
qed


lemma demo_window:
  "window_ok 0x7ffff0000000 (ucast (0x5000 :: u32))"
  "dso_window 0x7ffff0000000 0x5000 = Some (0x7fffefffb000, w_or demo_world, w_and demo_world)"
  by (simp add: window_eval) (code_simp)






text \<open>
  An indirect call that may unwind keeps its target: every indirect \<open>invoke\<close> of a function is a
  terminator of the instrumented function as well, with the called value as it was.
\<close>

theorem indirect_invoke_unmasked:
  assumes "instrument_fun E maybe F = Some F'" "wf_fun F" "(l, b) \<in> set (f_blocks F)" "b_term b = Invoke r (Indirect v) args l1 l2"
  shows "\<exists>(l', b') \<in> set (f_blocks F'). b_term b' = Invoke r (Indirect v) args l1 l2"
proof (cases "f_name F \<in> set skipped_functions")
  case True
  then show ?thesis using assms by (auto simp: instrument_fun_def)
next
  case False
  then obtain blocks ends ps where x: "instrument_blocks (pass_fun_of E maybe F) (f_blocks F) (pass_start F) = Some (blocks, ends, ps)"
      "f_blocks F' = map (\<lambda>(l, b). (l, rename_phis (end_of ends) b)) blocks"
    using assms(1) by (auto simp: instrument_fun_def split: option.splits)
  have "part_of (pass_fun_of E maybe F) (pass_start F) blocks ends l b"
  proof -
    have "distinct (map fst (f_blocks F))" "\<forall>(l, b) \<in> set (f_blocks F). l < f_next_label F" "f_next_label F \<le> ps_label (pass_start F)"
      using assms(2) by (auto simp: wf_fun_def pass_start_def)
    then show ?thesis using instrument_blocks_parts [OF x(1)] assms(3) by blast
  qed
  then obtain ps1 body t' new e ps1' where p: "set new \<subseteq> set blocks" "(l, b\<lparr>b_body := body, b_term := t'\<rparr>) \<in> set blocks"
      "instrumented (pass_fun_of E maybe F) l (b_body b) (b_term b) ps1 (body, t', new, e, ps1')"
    unfolding part_of_def by blast
  have "\<exists>(l', b') \<in> set blocks. b_term b' = b_term b"
  proof (cases "t' = b_term b")
    case True
    then show ?thesis using p(2) by (intro bexI [OF _ p(2)]) simp
  next
    case False
    then show ?thesis using instrumented_term [OF p(3)] p(1) by blast
  qed
  then obtain l' b' where "(l', b') \<in> set blocks" "b_term b' = b_term b" by blast
  then have "(l', rename_phis (end_of ends) b') \<in> set (f_blocks F')" "b_term (rename_phis (end_of ends) b') = b_term b"
    by (auto simp: x(2) rename_phis_def intro!: rev_image_eqI)
  then show ?thesis using assms(4) by auto
qed

definition invoke_ir :: ir_fun where
  "invoke_ir = demo_ir\<lparr>f_blocks := [(0, \<lparr>b_phis = [], b_body = [], b_term = Invoke 2 (Indirect 0) [1] 1 1\<rparr>),
     (1, \<lparr>b_phis = [], b_body = [], b_term = Other_Term 0 [2] []\<rparr>)]\<rparr>"

theorem indirect_invoke_unmasked_witness:
  "\<exists>F' b c. instrument_fun demo_env [] invoke_ir = Some F' \<and> (\<exists>(l', b') \<in> set (f_blocks F'). b_term b' = Invoke 2 (Indirect 0) [1] 1 1) \<and>
     map_of (f_blocks F') 0 = Some b \<and> run demo_world (f_blocks F') 1 (start 0 b (demo_state 0x1000)) = Some c \<and>
     Ev_Indirect 0x1000 [5] \<in> set (s_trace (c_state c))"
proof -
  let ?F = "the (instrument_fun demo_env [] invoke_ir)" and ?b = "the (map_of (f_blocks (the (instrument_fun demo_env [] invoke_ir))) 0)"
  have "\<not> Option.is_none (instrument_fun demo_env [] invoke_ir)" "\<not> Option.is_none (map_of (f_blocks ?F) 0)" by code_simp+
  then have F: "instrument_fun demo_env [] invoke_ir = Some ?F" "map_of (f_blocks ?F) 0 = Some ?b" by (simp_all add: Option.is_none_def)
  have "map_option (\<lambda>c. s_trace (c_state c)) (run demo_world (f_blocks ?F) 1 (start 0 ?b (demo_state 0x1000))) = Some [Ev_Indirect 0x1000 [5]]"
    by code_simp
  then obtain c where c: "run demo_world (f_blocks ?F) 1 (start 0 ?b (demo_state 0x1000)) = Some c" "Ev_Indirect 0x1000 [5] \<in> set (s_trace (c_state c))"
    by auto
  have "wf_fun invoke_ir" "(0, \<lparr>b_phis = [], b_body = [], b_term = Invoke 2 (Indirect 0) [1] 1 1\<rparr>) \<in> set (f_blocks invoke_ir)"
    by (simp_all add: wf_fun_def wf_block_def invoke_ir_def demo_ir_def)
  from indirect_invoke_unmasked [OF F(1) this] show ?thesis using F c by auto
qed

end
