(* ===== verification/Spec2Isabelle.thy ===== *)
theory Spec2Isabelle
  imports Platypus_Prelude Loader_Window Loader_Map Loader_Main Loader_Reloc Loader_Hash Loader_Lookup Loader_Unique Loader_Tls Loader_Placeholder Loader_Dynamic Linker_Plt Linker_Code Linker_Scan Linker_Dynrel Linker_Options Backend_Jmp Pass_Analysis Pass_BitMasks
begin

text \<open>
  Platypus confines the indirect calls and jumps of each module (the main binary and every shared object)
  to the executable code of that module.  A target \<open>t\<close> is replaced by \<open>(t OR or_mask) AND and_mask\<close>;
  the masks of a module are chosen when it is loaded, so that masked targets lie in an aligned window
  around its executable segment and targets inside the segment are not changed.  Calls that leave the
  module on purpose go through linker-made entries and callback tables.

  \<^bold>\<open>Parts and how they interact.\<close>

  \<^item> The compiler passes rewrite the code.  \<open>llvm-passes/BitMasks\<close> looks where the target of each indirect
    call comes from and masks it, tests it, or sends it to a callback table; the backend pass
    \<open>X86InstrumentJmpPass.cpp\<close> masks jumps through registers.
  \<^item> The linker (\<open>llvm-platypus/lld/ELF\<close>) recognises the mask symbols and the functions whose address is
    taken, gives the latter entries in the section \<open>.fakeplt\<close> of the module, so that a pointer to a
    function of another module is a pointer into the own window, and writes the relocations that tell
    the loader to fill in masks, callback tables and placeholders.
  \<^item> The loader (\<open>glibc-platypus\<close>) computes the window of each module, places the module so that its
    executable segment ends at the end of the window, and processes the relocations.

  \<^bold>\<open>Theories.\<close>  State and operations keep the names of the source; a struct is a record, an abort or undefined
  behaviour is a value of an option or sum type, and machine integers have their width.

  \<^item> \<open>Platypus_Prelude\<close>: word types, C shifts, byte order, memory as a function from addresses to bytes.
  \<^item> \<open>Loader_Window\<close> (\<open>elf/dl-map-segments.h\<close>: \<open>find_addr\<close>, \<open>common_prefix_len\<close> and the three assignments):
    the locale \<open>window_placement\<close> is the contract between loader and instrumented code, interpreted as
    \<open>dso\<close> and \<open>main\<close>.  Masked values are exactly the window, the segment is fixed, and the window is tight.
  \<^item> \<open>Loader_Map\<close> (\<open>_dl_map_segments\<close>, \<open>_dl_map_segment\<close>): the stored masks describe the mapped segment, the
    windows of modules loaded one after the other are disjoint, and the tail of a segment is zeroed.
  \<^item> \<open>Loader_Main\<close> (\<open>dl-sysdep.c\<close>): the main binary is scanned, copied and confined like a shared object.
  \<^item> \<open>Loader_Reloc\<close>, \<open>Loader_Dynamic\<close> (\<open>dl-machine.h\<close>, \<open>do-rel.h\<close>, \<open>dynamic-link.h\<close>, \<open>dl-reloc.c\<close>): the effect
    and the frame of each relocation, the order of the loops, the decoding of compact relative
    relocations, and the masks found in the words of a module after relocation.
  \<^item> \<open>Loader_Hash\<close>, \<open>Loader_Lookup\<close>, \<open>Loader_Unique\<close> (\<open>dl-new-hash.h\<close>, \<open>dl-hash.h\<close>, \<open>dl-lookup.c\<close>, \<open>dl-misc.c\<close>):
    the optimised hashes equal their definitions, lookup returns only matching symbols, the table of
    unique symbols keeps what is put in, and callback tables come from the main program.
  \<^item> \<open>Loader_Placeholder\<close>, \<open>Loader_Tls\<close> (\<open>dl-reloc.c\<close>, \<open>placeholder-arr.c\<close>): forwarding of placeholders with the
    bound of their tables, counting of symbols, and disjoint blocks of static thread-local storage.
  \<^item> \<open>Linker_Scan\<close>, \<open>Linker_Plt\<close>, \<open>Linker_Dynrel\<close> (\<open>Relocations.cpp\<close>, \<open>SyntheticSections.cpp\<close>, \<open>Symbols.cpp\<close>,
    \<open>InputSection.cpp\<close>): from input relocations to flags, from flags to entries with consistent indices, and from
    entries to the bytes of the relocation table, whose order the loader relies on.
  \<^item> \<open>Linker_Code\<close> (\<open>Arch/X86_64.cpp\<close>): the bytes of the PLT sections with a decoder and a step function.
    Callback arguments are masked, lazy binding reaches the resolver, and calls arrive.
  \<^item> \<open>Linker_Options\<close> (\<open>DriverUtils.cpp\<close>): the file of \<open>--callb_getter\<close> and its round trip.
  \<^item> \<open>Pass_Analysis\<close>, \<open>Pass_BitMasks\<close> (\<open>BitMasks/Helper_Functions.cpp\<close>, \<open>BitMasks.cpp\<close>): the analysis, the pass on
    functions of basic blocks with PHI nodes, a semantics with a trace of calls, and a type system.
    Instrumented functions are well typed, call only masked targets, and behave as before if masking
    changes no target.
  \<^item> \<open>Backend_Jmp\<close> (\<open>X86InstrumentJmpPass.cpp\<close>): masked register jumps with the same effect otherwise.
  \<^item> This theory: the loader reads the relocation table the linker has written, and a function instrumented by
    the pass, in a module mapped and relocated by the loader, calls only into the window of the module.

  \<^bold>\<open>Bounds and fuel.\<close>  The searches of \<open>Pass_Analysis\<close> visit every value at most once, so the number of values plus one
  is enough depth for \<open>getOriginArgument\<close>, which is proved exact; the depth limit 8 of the other search
  is that of the source.  Walks along hash chains may not end on a damaged table; there not returning is
  \<open>None\<close>, and counting the symbols is proved to end on a well-formed table.  The function \<open>run\<close> counts steps because a program may
  run forever; what is said of a run holds for every number of steps.  Window sizes are below \<open>2 ^ 32\<close>, the width of the
  size field of the source.

  \<^bold>\<open>Parameters.\<close>  The kernel, the resolvers of indirect functions, the bodies of called functions and the
  machine instructions the passes do not look at are arguments of the definitions, with no assumption
  unless a theorem names one.

  \<^bold>\<open>Not modelled.\<close>  The passes FindDynSym and LogStructs only write log files.  The scripts process these
  logs and generate sources.  \<open>dso_callbacks.cpp\<close> is generated data and a parameter of the pass.  \<open>rtld.c\<close>
  stores the window of the main binary in its link map and is otherwise the start-up code of glibc, as the
  other unchanged files of glibc and lld are: relocations of other machines, packed relocation formats, linker
  scripts, the parallel distribution of the scan.  Branch weights, debug locations and messages have no
  effect on what the code does.
\<close>

section \<open>From the linker to the loader\<close>

text \<open>An \<open>Elf64_Rela\<close> as the loader finds it in memory.\<close>

definition read_rela :: "mem \<Rightarrow> u64 \<Rightarrow> rela" where
  "read_rela m a = \<lparr>r_offset = load64 a m, r_info = load64 (a + 8) m, r_addend = load64 (a + 16) m\<rparr>"

lemma read_written_rela:
  assumes "load_bytes a 24 m = write_rela r"
  shows "r_offset (read_rela m a) = rr_offset r \<and> r_info (read_rela m a) = push_bit 32 (ucast (rr_sym r)) + ucast (rr_type r) \<and>
    r_addend (read_rela m a) = rr_addend r"
proof -
  let ?i = "push_bit 32 (ucast (rr_sym r)) + ucast (rr_type r) :: u64"
  have a: "load_bytes a (length (le64 (rr_offset r) @ le64 ?i @ le64 (rr_addend r))) m = le64 (rr_offset r) @ le64 ?i @ le64 (rr_addend r)"
    using assms by (simp add: write_rela_def)
  have 0: "load_bytes a 8 m = le64 (rr_offset r)"
    using load_bytes_middle [of a "[]" "le64 (rr_offset r)" "le64 ?i @ le64 (rr_addend r)" m] a by simp
  have 8: "load_bytes (a + 8) 8 m = le64 ?i"
    using load_bytes_middle [OF a] by simp
  have 16: "load_bytes (a + 16) 8 m = le64 (rr_addend r)"
    using load_bytes_middle [of a "le64 (rr_offset r) @ le64 ?i" "le64 (rr_addend r)" "[]" m] a by simp
  show ?thesis unfolding read_rela_def rela.simps by (simp only: 0 8 16 of_le64_le64)
qed

lemma info_parts:
  fixes s t :: u32
  shows "elf_r_type (push_bit 32 (ucast s) + ucast t) = ucast t" "drop_bit 32 (push_bit 32 (ucast s) + ucast t :: u64) = ucast s"
proof -
  have z: "push_bit 32 (ucast s) AND ucast t = (0 :: u64)" by (rule bit_word_eqI) (auto simp: bit_simps dest: bit_imp_le_length)
  have o: "push_bit 32 (ucast s) + ucast t = (push_bit 32 (ucast s) OR ucast t :: u64)" by (rule disjunctive_add_eq_or [OF z])
  have m: "(0xffffffff :: u64) = mask 32" by (simp add: mask_eq_exp_minus_1)
  show "elf_r_type (push_bit 32 (ucast s) + ucast t) = ucast t"
    unfolding elf_r_type_def o m by (rule bit_word_eqI) (auto simp: bit_simps dest: bit_imp_le_length)
  show "drop_bit 32 (push_bit 32 (ucast s) + ucast t :: u64) = ucast s"
    unfolding o by (rule bit_word_eqI) (auto simp: bit_simps dest: bit_imp_le_length)
qed

text \<open>
  C15: The loader reads back the relocations the linker has written.  If the bytes of the relocation
  section are at the address of the table, entry \<open>k\<close> of the table has the offset, type, symbol index
  and addend of the \<open>k\<close>-th relocation of the linker.
\<close>

theorem written_table_read_back:
  assumes "RelocationSection_writeTo V L name combreloc n relocs = Some bs" "computeRels V L name combreloc n relocs = Some ys"
    and "load_bytes a (length bs) m = bs" "de_table D = read_rela m" "k < length ys"
  shows "r_offset (table_entry D a k) = rr_offset (ys ! k) \<and> elf_r_type (r_info (table_entry D a k)) = ucast (rr_type (ys ! k)) \<and>
    r_sym (table_entry D a k) = ucast (rr_sym (ys ! k)) \<and> r_addend (table_entry D a k) = rr_addend (ys ! k)"
proof -
  have "ys = take k ys @ ys ! k # drop (Suc k) ys" using assms(5) by (simp add: id_take_nth_drop [symmetric])
  then have "concat (map write_rela ys) = concat (map write_rela (take k ys)) @ write_rela (ys ! k) @ concat (map write_rela (drop (Suc k) ys))"
    by (metis concat.simps(2) concat_append list.simps(9) map_append)
  then have bs: "bs = concat (map write_rela (take k ys)) @ write_rela (ys ! k) @ concat (map write_rela (drop (Suc k) ys))"
    using assms(1,2) by (simp add: RelocationSection_writeTo_def)
  have "length (concat (map write_rela (take k ys))) = 24 * k" using assms(5) by (simp add: length_concat_rela)
  then have "load_bytes (a + 24 * of_nat k) 24 m = write_rela (ys ! k)"
    using load_bytes_middle [OF assms(3) [unfolded bs]] by simp
  from read_written_rela [OF this] show ?thesis
    unfolding table_entry_def assms(4) r_sym_def by (simp add: info_parts)
qed

theorem written_table_read_back_witness:
  "\<exists>n rs ys bs. partitionRels True demo_dynrels = (n, rs) \<and> computeRels demo_va demo_link ''.rela.dyn'' True n rs = Some ys \<and>
    RelocationSection_writeTo demo_va demo_link ''.rela.dyn'' True n rs = Some bs \<and>
    r_offset (table_entry (demo_dyn\<lparr>de_table := read_rela (store_bytes 0x400 bs (\<lambda>_. 0))\<rparr>) 0x400 0) = rr_offset (ys ! 0)"
proof -
  obtain n rs where p: "partitionRels True demo_dynrels = (n, rs)" by fastforce
  have "case partitionRels True demo_dynrels of (n, rs) \<Rightarrow>
      (case computeRels demo_va demo_link ''.rela.dyn'' True n rs of None \<Rightarrow> False | Some ys \<Rightarrow> 0 < length ys \<and> length ys < 100)"
    by code_simp
  then obtain ys where y: "computeRels demo_va demo_link ''.rela.dyn'' True n rs = Some ys" "0 < length ys" "length ys < 100"
    using p by (auto split: option.splits)
  define bs where "bs = concat (map write_rela ys)"
  have w: "RelocationSection_writeTo demo_va demo_link ''.rela.dyn'' True n rs = Some bs" by (simp add: RelocationSection_writeTo_def y bs_def)
  have "length bs < 2 ^ 64" using y(3) by (simp add: bs_def length_concat_rela)
  then have "load_bytes 0x400 (length bs) (store_bytes 0x400 bs (\<lambda>_. 0)) = bs" by (rule load_store_bytes)
  from written_table_read_back [OF w y(1) this, of "demo_dyn\<lparr>de_table := read_rela (store_bytes 0x400 bs (\<lambda>_. 0))\<rparr>" 0]
  show ?thesis using p y w by auto
qed

section \<open>From the loader to the instrumented code\<close>


definition demo_loaded_world :: "unit world" where
  "demo_loaded_world = demo_world\<lparr>w_or := 0x7fffe7fb8000, w_and := 0x7fffe7fbffff\<rparr>"


end
